(* ===== verification/Prelude.thy ===== *)
theory Prelude
  imports Main "HOL-Library.Word"
begin

text \<open>
  The lemmas and collections that every component of the development shares.

  The translator of \<open>src/pybpf\<close> is a Python program: its integers are unbounded, and every
  wrap-around is written out in the source as \<open>v & MASK\<close>.  They are modelled by \<open>int\<close>, and the
  lemmas below turn such a mask into \<open>take_bit\<close>, in which the library reasons.  They are
  collected in \<open>mask_simps\<close>.
\<close>

unbundle bit_operations_syntax

named_theorems mask_simps \<open>masks written with AND, as take_bit\<close>
named_theorems frame_simps \<open>state fields an operation does not write\<close>

section \<open>Masks\<close>

lemma and_exp_minus_one [mask_simps]:
  "(v::int) AND (2 ^ n - 1) = take_bit n v"
  by (simp add: take_bit_eq_mask mask_eq_exp_minus_1)

lemma and_push_bit_minus_one [mask_simps]:
  "(v::int) AND (push_bit n 1 - 1) = take_bit n v"
  by (simp add: push_bit_of_1 and_exp_minus_one)

lemma and_m64 [mask_simps]: "(v::int) AND 0xffffffffffffffff = take_bit 64 v"
  using and_exp_minus_one [of v 64] by simp

lemma and_m32 [mask_simps]: "(v::int) AND 0xffffffff = take_bit 32 v"
  using and_exp_minus_one [of v 32] by simp

lemma take_bit_int_id:
  "0 \<le> (v::int) \<Longrightarrow> v < 2 ^ n \<Longrightarrow> take_bit n v = v"
  by (simp add: take_bit_int_eq_self)

lemma take_bit_lt_width [simp]:
  "take_bit 64 (v::int) < 18446744073709551616"
  "take_bit 32 (v::int) < 4294967296"
  "take_bit 32 (v::int) < 18446744073709551616"
  using take_bit_int_less_exp [of 64 v] take_bit_int_less_exp [of 32 v] by simp_all

section \<open>Disjoint bits: or is plus\<close>

text \<open>
  The synthesized operators of the translator combine partial results with \<open>OrOp\<close>; their
  comments say "the two summands occupy disjoint bits".  That is this lemma.
\<close>

lemma or_shifted_eq_add:
  fixes a b :: int
  assumes "0 \<le> a" and "a < 2 ^ n"
  shows "a OR (b * 2 ^ n) = a + b * 2 ^ n"
proof -
  have a: "take_bit n a = a"
    using assms by (rule take_bit_int_id)
  have "a AND (b * 2 ^ n) = 0"
  proof (rule bit_eqI)
    fix m
    have "bit a m \<Longrightarrow> m < n"
      by (subst (asm) a [symmetric]) (simp add: bit_take_bit_iff)
    then show "bit (a AND (b * 2 ^ n)) m \<longleftrightarrow> bit (0::int) m"
      by (auto simp: bit_and_iff push_bit_eq_mult [symmetric] bit_push_bit_iff)
  qed
  then show ?thesis
    by (simp add: disjunctive_add_eq_or)
qed

lemma or_shifted_eq_add':
  fixes a b :: int
  assumes "0 \<le> a" and "a < 2 ^ n"
  shows "(b * 2 ^ n) OR a = a + b * 2 ^ n"
  using or_shifted_eq_add [OF assms, of b] by (simp add: or.commute)

lemma int_div_less:
  fixes x b c :: int
  assumes "0 < b" and "x < b * c"
  shows "x div b < c"
proof (rule ccontr)
  assume "\<not> x div b < c"
  then have "b * c \<le> b * (x div b)"
    using assms(1) by simp
  also have "\<dots> \<le> x"
    using assms(1) pos_mod_sign [of b x] mult_div_mod_eq [of b x] by linarith
  finally show False using assms(2) by simp
qed

lemma int_div_bounds:
  fixes x b c :: int
  assumes "0 \<le> x" "x < c" "0 < b"
  shows "0 \<le> x div b" "x div b < c"
proof -
  show "0 \<le> x div b"
    using assms by (simp add: pos_imp_zdiv_nonneg_iff)
  have "1 * c \<le> b * c"
    using assms by (intro mult_right_mono) simp_all
  then have "x < b * c" using assms by linarith
  with assms show "x div b < c"
    by (intro int_div_less)
qed

section \<open>Lists\<close>

lemma nth_append_snoc [simp]: "(xs @ [x]) ! length xs = x"
  by simp

lemma fold_cong_append: "fold f (xs @ ys) s = fold f ys (fold f xs s)"
  by simp

end
