(* ===== verification/Bpf_Insn.thy ===== *)
theory Bpf_Insn
  imports Prelude
begin

text \<open>
  The instruction encoding of \<open>src/pybpf/bpf.py\<close>: the opcode constants, the accessors that read
  one opcode byte in three overlapping ways, the decoded instruction and \<open>decode\<close>, the tables
  from a size field to a byte count and from a byte count to a width of the IR; and the
  encoder \<open>insn\<close> of \<open>src/tests/mkobj.py\<close>, which the round trip inverts.

  The constants carry the prefix \<open>BPF_\<close> of the kernel's names (the source's \<open>W\<close>, \<open>H\<close>, \<open>K\<close>,
  \<open>X\<close> would capture variables).  They unfold by \<open>simp\<close>, so a dispatch on an opcode is
  decided on numerals.
\<close>

section \<open>Constants\<close>

text \<open>Instruction classes (low 3 bits).\<close>

definition BPF_LD :: int where [simp]: "BPF_LD = 0"
definition BPF_LDX :: int where [simp]: "BPF_LDX = 1"
definition BPF_ST :: int where [simp]: "BPF_ST = 2"
definition BPF_STX :: int where [simp]: "BPF_STX = 3"
definition BPF_ALU :: int where [simp]: "BPF_ALU = 4"
definition BPF_JMP :: int where [simp]: "BPF_JMP = 5"
definition BPF_JMP32 :: int where [simp]: "BPF_JMP32 = 6"
definition BPF_ALU64 :: int where [simp]: "BPF_ALU64 = 7"

text \<open>Size (bits 3-4) and mode (top 3 bits), for the load and store classes.\<close>

definition BPF_W :: int where [simp]: "BPF_W = 0x00"
definition BPF_H :: int where [simp]: "BPF_H = 0x08"
definition BPF_B :: int where [simp]: "BPF_B = 0x10"
definition BPF_DW :: int where [simp]: "BPF_DW = 0x18"

definition BPF_IMM :: int where [simp]: "BPF_IMM = 0x00"
definition BPF_ABS :: int where [simp]: "BPF_ABS = 0x20"
definition BPF_IND :: int where [simp]: "BPF_IND = 0x40"
definition BPF_MEM :: int where [simp]: "BPF_MEM = 0x60"
definition BPF_ATOMIC :: int where [simp]: "BPF_ATOMIC = 0xc0"

text \<open>ALU and JMP operation (high nibble).\<close>

definition BPF_ADD :: int where [simp]: "BPF_ADD = 0x00"
definition BPF_SUB :: int where [simp]: "BPF_SUB = 0x10"
definition BPF_MUL :: int where [simp]: "BPF_MUL = 0x20"
definition BPF_DIV :: int where [simp]: "BPF_DIV = 0x30"
definition BPF_OR :: int where [simp]: "BPF_OR = 0x40"
definition BPF_AND :: int where [simp]: "BPF_AND = 0x50"
definition BPF_LSH :: int where [simp]: "BPF_LSH = 0x60"
definition BPF_RSH :: int where [simp]: "BPF_RSH = 0x70"
definition BPF_NEG :: int where [simp]: "BPF_NEG = 0x80"
definition BPF_MOD :: int where [simp]: "BPF_MOD = 0x90"
definition BPF_XOR :: int where [simp]: "BPF_XOR = 0xa0"
definition BPF_MOV :: int where [simp]: "BPF_MOV = 0xb0"
definition BPF_ARSH :: int where [simp]: "BPF_ARSH = 0xc0"
definition BPF_END :: int where [simp]: "BPF_END = 0xd0"

definition BPF_JA :: int where [simp]: "BPF_JA = 0x00"
definition BPF_JEQ :: int where [simp]: "BPF_JEQ = 0x10"
definition BPF_JGT :: int where [simp]: "BPF_JGT = 0x20"
definition BPF_JGE :: int where [simp]: "BPF_JGE = 0x30"
definition BPF_JSET :: int where [simp]: "BPF_JSET = 0x40"
definition BPF_JNE :: int where [simp]: "BPF_JNE = 0x50"
definition BPF_JSGT :: int where [simp]: "BPF_JSGT = 0x60"
definition BPF_JSGE :: int where [simp]: "BPF_JSGE = 0x70"
definition BPF_CALL :: int where [simp]: "BPF_CALL = 0x80"
definition BPF_EXIT :: int where [simp]: "BPF_EXIT = 0x90"
definition BPF_JLT :: int where [simp]: "BPF_JLT = 0xa0"
definition BPF_JLE :: int where [simp]: "BPF_JLE = 0xb0"
definition BPF_JSLT :: int where [simp]: "BPF_JSLT = 0xc0"
definition BPF_JSLE :: int where [simp]: "BPF_JSLE = 0xd0"

text \<open>Source modifier (bit 3), the wide load's whole opcode byte, the slot size.\<close>

definition BPF_K :: int where [simp]: "BPF_K = 0x00"
definition BPF_X :: int where [simp]: "BPF_X = 0x08"
definition LD_IMM64 :: int where [simp]: "LD_IMM64 = BPF_LD OR BPF_IMM OR BPF_DW"
definition INSN_SIZE :: nat where [simp]: "INSN_SIZE = 8"

section \<open>Opcode fields\<close>

definition cls :: "int \<Rightarrow> int" where "cls c = c AND 0x07"
definition size_field :: "int \<Rightarrow> int" where "size_field c = c AND 0x18"
definition mode_field :: "int \<Rightarrow> int" where "mode_field c = c AND 0xe0"
definition op_field :: "int \<Rightarrow> int" where "op_field c = c AND 0xf0"
definition src_field :: "int \<Rightarrow> int" where "src_field c = c AND 0x08"

lemmas opcode_fields = cls_def size_field_def mode_field_def op_field_def src_field_def

record insn =
  code :: int
  dst :: nat
  src :: nat
  off :: int
  imm :: int

definition i_cls :: "insn \<Rightarrow> int" where "i_cls i = cls (code i)"
definition i_size :: "insn \<Rightarrow> int" where "i_size i = size_field (code i)"
definition i_mode :: "insn \<Rightarrow> int" where "i_mode i = mode_field (code i)"
definition i_op :: "insn \<Rightarrow> int" where "i_op i = op_field (code i)"
definition is_imm :: "insn \<Rightarrow> bool" where "is_imm i \<longleftrightarrow> src_field (code i) = BPF_K"
definition is_jmp :: "insn \<Rightarrow> bool" where
  "is_jmp i \<longleftrightarrow> i_cls i = BPF_JMP \<or> i_cls i = BPF_JMP32"
definition is_nop_jump :: "insn \<Rightarrow> bool" where
  "is_nop_jump i \<longleftrightarrow> is_jmp i \<and> i_op i = BPF_JA \<and> off i = 0"

lemmas insn_fields = i_cls_def i_size_def i_mode_def i_op_def is_imm_def is_jmp_def is_nop_jump_def

section \<open>Decoding\<close>

text \<open>
  \<open>struct.iter_unpack("<BBhi", blob)\<close>: 8 bytes a slot, little-endian, \<open>h\<close> and \<open>i\<close> signed.
  It raises \<open>struct.error\<close> when the length is no multiple of 8; that is \<open>None\<close>.
\<close>

type_synonym byte = "8 word"

definition le_uint :: "byte list \<Rightarrow> int" where
  "le_uint bs = horner_sum uint 256 bs"

definition le_sint :: "byte list \<Rightarrow> int" where
  "le_sint bs = signed_take_bit (8 * length bs - 1) (le_uint bs)"

fun decode :: "byte list \<Rightarrow> insn list option" where
  "decode [] = Some []"
| "decode (b0 # b1 # b2 # b3 # b4 # b5 # b6 # b7 # bs) =
     (case decode bs of None \<Rightarrow> None
      | Some out \<Rightarrow>
          Some (\<lparr>code = uint b0,
                 dst = nat (uint b1 AND 0x0f),
                 src = nat (drop_bit 4 (uint b1) AND 0x0f),
                 off = le_sint [b2, b3],
                 imm = le_sint [b4, b5, b6, b7]\<rparr> # out))"
| "decode _ = None"

definition size_bytes :: "int \<Rightarrow> int" where
  "size_bytes c =
     (if size_field c = BPF_B then 1
      else if size_field c = BPF_H then 2
      else if size_field c = BPF_W then 4
      else 8)"

section \<open>Encoding, as the tests assemble it\<close>

text \<open>
  \<open>mkobj.insn\<close> packs \<open>"<BBhi"\<close>; \<open>struct.pack\<close> raises when a field is outside its format
  (\<open>B\<close>: 0 to 255, \<open>h\<close>: 16 bits signed, \<open>i\<close>: 32 bits signed).
\<close>

definition le_bytes :: "nat \<Rightarrow> int \<Rightarrow> byte list" where
  "le_bytes n v = map (\<lambda>k. word_of_int (drop_bit (8 * k) v)) [0..<n]"

definition mk_insn :: "int \<Rightarrow> nat \<Rightarrow> nat \<Rightarrow> int \<Rightarrow> int \<Rightarrow> byte list option" where
  "mk_insn c d s ofs im =
     (if 0 \<le> c \<and> c < 256 \<and> - (2 ^ 15) \<le> ofs \<and> ofs < 2 ^ 15 \<and> - (2 ^ 31) \<le> im \<and> im < 2 ^ 31
      then Some (le_bytes 1 c
                 @ le_bytes 1 ((int d AND 0xf) OR push_bit 4 (int s AND 0xf))
                 @ le_bytes 2 ofs @ le_bytes 4 im)
      else None)"

section \<open>Tables\<close>

datatype width = W8 | W16 | W32 | W64

definition width_name :: "int \<Rightarrow> width" where
  "width_name nbytes =
     (if nbytes = 1 then W8 else if nbytes = 2 then W16 else if nbytes = 4 then W32 else W64)"

datatype ir_binop = AddOp | SubOp | AndOp | OrOp | XorOp | MulOp | DivOp | ModOp

definition ALU_BINOP :: "int \<Rightarrow> ir_binop option" where
  "ALU_BINOP opc =
     (if opc = BPF_ADD then Some AddOp else if opc = BPF_SUB then Some SubOp
      else if opc = BPF_AND then Some AndOp else if opc = BPF_OR then Some OrOp
      else if opc = BPF_XOR then Some XorOp else if opc = BPF_MUL then Some MulOp
      else if opc = BPF_DIV then Some DivOp else if opc = BPF_MOD then Some ModOp
      else None)"

section \<open>Facts\<close>

lemma size_bytes_cases: "size_bytes c \<in> {1, 2, 4, 8}"
  by (simp add: size_bytes_def)

lemma uint_byte_bound [simp]: "uint (b :: byte) < 256" "0 \<le> uint (b :: byte)"
  using uint_lt2p [of b] by simp_all

lemma and_15_bound: "nat ((v::int) AND 15) < 16"
proof -
  have "v AND 15 = take_bit 4 v"
    using and_exp_minus_one [of v 4] by simp
  then show ?thesis using take_bit_int_less_exp [of 4 v] by simp
qed

section \<open>Encoding and decoding\<close>

text \<open>Little-endian bytes of an integer, read back, are its low bits.\<close>

lemma le_bytes_Suc: "le_bytes (Suc n) v = word_of_int v # le_bytes n (drop_bit 8 v)"
proof -
  have "[0..<Suc n] = 0 # map Suc [0..<n]"
    by (simp add: map_Suc_upt upt_conv_Cons)
  then show ?thesis
    by (simp add: le_bytes_def o_def add.commute)
qed

lemma length_le_bytes [simp]: "length (le_bytes n v) = n"
  by (simp add: le_bytes_def)

lemma le_uint_le_bytes: "le_uint (le_bytes n v) = take_bit (8 * n) v"
proof (induction n arbitrary: v)
  case 0
  show ?case by (simp add: le_uint_def le_bytes_def)
next
  case (Suc n)
  have split: "take_bit (8 + 8 * n) v = take_bit 8 v + 256 * take_bit (8 * n) (drop_bit 8 v)"
    using bits_ident [of 8 "take_bit (8 + 8 * n) v"]
    by (simp add: drop_bit_take_bit push_bit_eq_mult)
  show ?case
    using Suc.IH [of "drop_bit 8 v"] split
    by (simp add: le_bytes_Suc le_uint_def uint_word_of_int_eq)
qed

lemma decode_append:
  "decode bs = Some is \<Longrightarrow> decode (bs @ cs) = map_option ((@) is) (decode cs)"
proof (induction bs arbitrary: "is" rule: decode.induct)
  case 1
  then show ?case by (simp add: option.map_ident)
next
  case (2 b0 b1 b2 b3 b4 b5 b6 b7 bs)
  then obtain out where "decode bs = Some out"
    by (auto split: option.splits)
  with 2 show ?case by (auto split: option.splits)
qed simp_all

lemma nibbles:
  assumes "d < 16" and "s < 16"
  shows "((int d AND 0xf) OR push_bit 4 (int s AND 0xf)) = int d + 16 * int s"
proof -
  have "int d AND 0xf = int d" "int s AND 0xf = int s"
    using assms and_exp_minus_one [of _ 4] by (simp_all add: take_bit_int_id)
  moreover have "int d OR int s * 2 ^ 4 = int d + int s * 2 ^ 4"
    using assms by (intro or_shifted_eq_add) simp_all
  ultimately show ?thesis
    by (simp add: push_bit_eq_mult)
qed

text \<open>One encoded instruction decodes to its own fields.\<close>

lemma decode_mk_insn:
  assumes enc: "mk_insn c d s ofs im = Some bs" and "d < 16" and "s < 16"
  shows "decode bs = Some [\<lparr>code = c, dst = d, src = s, off = ofs, imm = im\<rparr>]"
proof -
  have rng: "0 \<le> c" "c < 256" "- (2 ^ 15) \<le> ofs" "ofs < 2 ^ 15" "- (2 ^ 31) \<le> im" "im < 2 ^ 31"
    and bs: "bs = le_bytes 1 c @ le_bytes 1 (int d + 16 * int s) @ le_bytes 2 ofs @ le_bytes 4 im"
    using enc nibbles [OF assms(2,3)] by (auto simp: mk_insn_def split: if_splits)
  have l1: "le_bytes (Suc 0) v = [word_of_int v]" for v
    by (simp add: le_bytes_def)
  obtain b2 b3 where b23: "le_bytes 2 ofs = [b2, b3]"
    by (simp add: le_bytes_def numeral_2_eq_2)
  obtain b4 b5 b6 b7 where b47: "le_bytes 4 im = [b4, b5, b6, b7]"
    by (simp add: le_bytes_def numeral_eq_Suc)
  have off: "le_sint [b2, b3] = ofs"
    using le_uint_le_bytes [of 2 ofs] rng
    by (simp add: b23 le_sint_def signed_take_bit_take_bit signed_take_bit_int_eq_self)
  have imm: "le_sint [b4, b5, b6, b7] = im"
    using le_uint_le_bytes [of 4 im] rng
    by (simp add: b47 le_sint_def signed_take_bit_take_bit signed_take_bit_int_eq_self)
  have c: "uint (word_of_int c :: byte) = c"
    using rng by (simp add: uint_word_of_int_eq take_bit_int_id)
  have regs: "uint (word_of_int (int d + 16 * int s) :: byte) = int d + 16 * int s"
    using assms(2,3) by (subst uint_word_of_int_eq, intro take_bit_int_id) simp_all
  then have regs': "uint (word_of_nat d + 16 * word_of_nat s :: byte) = int d + 16 * int s"
    by simp
  have lo: "nat ((int d + 16 * int s) AND 15) = d"
    using assms(2) and_exp_minus_one [of "int d + 16 * int s" 4]
    by (simp add: take_bit_eq_mod)
  have hi: "nat (drop_bit 4 (int d + 16 * int s) AND 15) = s"
    using assms(2,3) and_exp_minus_one [of "drop_bit 4 (int d + 16 * int s)" 4]
    by (simp add: take_bit_eq_mod drop_bit_eq_div)
  show ?thesis
    by (simp add: bs l1 b23 b47 off imm c regs' lo hi)
qed

text \<open>A program assembled instruction by instruction decodes to it.\<close>

definition assembled :: "insn list \<Rightarrow> byte list list \<Rightarrow> bool" where
  "assembled insns chunks \<longleftrightarrow>
     list_all2 (\<lambda>i bs. mk_insn (code i) (dst i) (src i) (off i) (imm i) = Some bs \<and> dst i < 16 \<and> src i < 16)
       insns chunks"

lemma decode_assembled: "assembled insns chunks \<Longrightarrow> decode (concat chunks) = Some insns"
  unfolding assembled_def
proof (induction insns chunks rule: list_all2_induct)
  case (Cons i insns bs chunks)
  then have "decode bs = Some [i]" using decode_mk_insn [of "code i" "dst i" "src i" "off i" "imm i" bs] by simp
  with Cons show ?case by (simp add: decode_append)
qed simp

lemma length_mk_insn: "mk_insn c d s ofs im = Some bs \<Longrightarrow> length bs = 8"
  by (auto simp: mk_insn_def split: if_splits)

lemma length_assembled: "assembled insns chunks \<Longrightarrow> length (concat chunks) = 8 * length insns"
  unfolding assembled_def
  by (induction insns chunks rule: list_all2_induct) (auto dest: length_mk_insn)

end
