(* ===== verification/Caracara_IR.thy ===== *)
theory Caracara_IR
  imports Bpf_Insn
begin

text \<open>
  The builders of \<open>src/pybpf/ir.py\<close>.  The source builds the s-expression as strings; here the
  same builders give a term of the datatypes below, and \<open>show_*\<close> is the text each of them
  formats, character by character.  \<open>konst\<close> and \<open>match_const\<close> reduce their argument modulo
  \<open>2^64\<close> when the term is built, as the source does before formatting it.
\<close>

section \<open>Terms\<close>

definition MASK64 :: int where "MASK64 = push_bit 64 1 - 1"

lemma MASK64_numeral: "MASK64 = 0xffffffffffffffff"
  by (simp add: MASK64_def push_bit_of_1)

lemma and_MASK64 [mask_simps, simp]: "v AND MASK64 = take_bit 64 v"
  by (simp add: MASK64_numeral and_m64)

datatype operand = OpConst int | OpHeader nat

datatype cmp = CmpEq | CmpGt | CmpLt

datatype match_value = MatchConst int width | MatchHeader nat

text \<open>One entry of a match pattern: header \<open>cmp\<close> value.\<close>

datatype match_entry = Entry nat cmp match_value

datatype ir_op =
    StatelessOp ir_binop width operand operand nat
  | CastHeaderOp width width operand nat
  | LoadOp width nat operand nat
  | StoreOp width nat operand operand

datatype ir_rule = SeqCtr "match_entry list" "ir_op list"

datatype ir_module = TransformerModule nat "ir_rule list"

section \<open>Builders\<close>

definition konst :: "int \<Rightarrow> operand" where
  "konst v = OpConst (v AND MASK64)"

definition hdr :: "nat \<Rightarrow> operand" where
  "hdr h = OpHeader h"

definition match_const :: "int \<Rightarrow> width \<Rightarrow> match_value" where
  "match_const k w = MatchConst (k AND MASK64) w"

definition match_header :: "nat \<Rightarrow> match_value" where
  "match_header h = MatchHeader h"

definition cmp_entry :: "nat \<Rightarrow> cmp \<Rightarrow> match_value \<Rightarrow> match_entry" where
  "cmp_entry lhs_hdr c rhs = Entry lhs_hdr c rhs"

definition rule :: "match_entry list \<Rightarrow> ir_op list \<Rightarrow> ir_rule" where
  "rule match_entries ops = SeqCtr match_entries ops"

definition default_rule :: ir_rule where
  "default_rule = SeqCtr [] []"

text \<open>
  The methods of \<open>Ops\<close> append one op to the block's list; the list is the object's only state.
\<close>

type_synonym ops = "ir_op list"

definition op_binop :: "ir_binop \<Rightarrow> width \<Rightarrow> operand \<Rightarrow> operand \<Rightarrow> nat \<Rightarrow> ops \<Rightarrow> ops" where
  "op_binop f w a1 a2 target ops = ops @ [StatelessOp f w a1 a2 target]"

definition op_cast :: "width \<Rightarrow> width \<Rightarrow> operand \<Rightarrow> nat \<Rightarrow> ops \<Rightarrow> ops" where
  "op_cast frm to arg target ops = ops @ [CastHeaderOp frm to arg target]"

definition op_load :: "width \<Rightarrow> nat \<Rightarrow> operand \<Rightarrow> nat \<Rightarrow> ops \<Rightarrow> ops" where
  "op_load w region ofs target ops = ops @ [LoadOp w region ofs target]"

definition op_store :: "width \<Rightarrow> nat \<Rightarrow> operand \<Rightarrow> operand \<Rightarrow> ops \<Rightarrow> ops" where
  "op_store w region ofs val ops = ops @ [StoreOp w region ofs val]"

definition op_set :: "nat \<Rightarrow> int \<Rightarrow> ops \<Rightarrow> ops" where
  "op_set target v = op_binop AddOp W64 (konst v) (konst 0) target"

definition op_move :: "nat \<Rightarrow> nat \<Rightarrow> ops \<Rightarrow> ops" where
  "op_move target sr = op_binop AddOp W64 (hdr sr) (konst 0) target"

definition op_raw :: "ir_op \<Rightarrow> ops \<Rightarrow> ops" where
  "op_raw s ops = ops @ [s]"

definition set_pc_op :: "nat \<Rightarrow> nat \<Rightarrow> ir_op" where
  "set_pc_op pc h_pc = StatelessOp AddOp W64 (OpConst (int pc)) (OpConst 0) h_pc"

definition assign_op :: "nat \<Rightarrow> nat \<Rightarrow> ir_op" where
  "assign_op target src_hdr = StatelessOp AddOp W64 (OpHeader src_hdr) (OpConst 0) target"

definition const_op :: "nat \<Rightarrow> int \<Rightarrow> ir_op" where
  "const_op target v = StatelessOp AddOp W64 (OpConst (v AND MASK64)) (OpConst 0) target"

definition zero_op :: "nat \<Rightarrow> ir_op" where
  "zero_op target = const_op target 0"

lemmas op_defs = op_binop_def op_cast_def op_load_def op_store_def op_set_def op_move_def
  op_raw_def set_pc_op_def assign_op_def const_op_def zero_op_def
lemmas term_defs = konst_def hdr_def match_const_def match_header_def cmp_entry_def
  rule_def default_rule_def

section \<open>The text each term is formatted to\<close>

text \<open>\<open>"%d" % n\<close>.\<close>

definition digit_char :: "nat \<Rightarrow> char" where
  "digit_char d = char_of (48 + d)"

fun show_nat :: "nat \<Rightarrow> string" where
  "show_nat n = (if n < 10 then [digit_char n] else show_nat (n div 10) @ [digit_char (n mod 10)])"

declare show_nat.simps [simp del]

definition show_int :: "int \<Rightarrow> string" where
  "show_int v = (if v < 0 then ''-'' @ show_nat (nat (- v)) else show_nat (nat v))"

fun coq_list :: "string list \<Rightarrow> string" where
  "coq_list [] = ''Coq_nil''"
| "coq_list (it # items) = ''(Coq_cons '' @ it @ '' '' @ coq_list items @ '')''"

fun show_width :: "width \<Rightarrow> string" where
  "show_width W8 = ''W8''" | "show_width W16 = ''W16''"
| "show_width W32 = ''W32''" | "show_width W64 = ''W64''"

fun show_binop :: "ir_binop \<Rightarrow> string" where
  "show_binop AddOp = ''AddOp''" | "show_binop SubOp = ''SubOp''"
| "show_binop AndOp = ''AndOp''" | "show_binop OrOp = ''OrOp''"
| "show_binop XorOp = ''XorOp''" | "show_binop MulOp = ''MulOp''"
| "show_binop DivOp = ''DivOp''" | "show_binop ModOp = ''ModOp''"

fun show_operand :: "operand \<Rightarrow> string" where
  "show_operand (OpConst v) = ''(OpConst '' @ show_int v @ '')''"
| "show_operand (OpHeader h) = ''(OpHeader '' @ show_nat h @ '')''"

fun show_cmp :: "cmp \<Rightarrow> string" where
  "show_cmp CmpEq = ''CmpEq''" | "show_cmp CmpGt = ''CmpGt''" | "show_cmp CmpLt = ''CmpLt''"

fun show_match_value :: "match_value \<Rightarrow> string" where
  "show_match_value (MatchConst k w) =
     ''(MatchConst '' @ show_int k @ '' '' @ show_width w @ '')''"
| "show_match_value (MatchHeader h) = ''(MatchHeader '' @ show_nat h @ '')''"

fun show_entry :: "match_entry \<Rightarrow> string" where
  "show_entry (Entry h c rhs) =
     ''(Coq_pair (Coq_pair '' @ show_nat h @ '' '' @ show_cmp c @ '') ''
     @ show_match_value rhs @ '')''"

fun show_op :: "ir_op \<Rightarrow> string" where
  "show_op (StatelessOp f w a1 a2 target) =
     ''(StatelessOp '' @ show_binop f @ '' '' @ show_width w @ '' '' @ show_operand a1 @ '' ''
     @ show_operand a2 @ '' '' @ show_nat target @ '')''"
| "show_op (CastHeaderOp frm to arg target) =
     ''(CastHeaderOp '' @ show_width frm @ '' '' @ show_width to @ '' '' @ show_operand arg @ '' ''
     @ show_nat target @ '')''"
| "show_op (LoadOp w region ofs target) =
     ''(LoadOp '' @ show_width w @ '' '' @ show_nat region @ '' '' @ show_operand ofs @ '' ''
     @ show_nat target @ '')''"
| "show_op (StoreOp w region ofs val) =
     ''(StoreOp '' @ show_width w @ '' '' @ show_nat region @ '' '' @ show_operand ofs @ '' ''
     @ show_operand val @ '')''"

fun show_rule :: "ir_rule \<Rightarrow> string" where
  "show_rule (SeqCtr match_entries ops) =
     ''(Seq (SeqCtr '' @ coq_list (map show_entry match_entries) @ '' ''
     @ coq_list (map show_op ops) @ ''))''"

fun show_module :: "ir_module \<Rightarrow> string" where
  "show_module (TransformerModule m rules) =
     ''(TransformerModule '' @ show_nat m @ '' Coq_nil Coq_nil ''
     @ coq_list (map show_rule rules) @ '')''"

section \<open>Facts\<close>

lemma konst_take_bit: "konst v = OpConst (take_bit 64 v)"
  by (simp add: konst_def)

text \<open>Every constant the builders emit is a canonical u64.\<close>

lemma konst_range: "konst v = OpConst k \<Longrightarrow> 0 \<le> k \<and> k < 2 ^ 64"
  using take_bit_int_less_exp [of 64 v] by (auto simp: konst_take_bit)

end
