(* ===== verification/Op_Eval.thy ===== *)
theory Op_Eval
  imports Caracara_IR
begin

text \<open>
  What the emitted ops compute.  \<open>src/tests/opeval.py\<close> is the repository's own evaluator for
  them: a dictionary from header ids to integers, read as 0 where nothing was written; an op
  masks its operands and its result to its width; division and remainder by zero follow BPF.
  Loads and stores are skipped there ("memory is not modelled here"), and here.

  The transformer chain is run by the Caracara evaluator, which is not in the repository.  What
  the translator relies on is documented in \<open>README.md\<close> and in the docstring of
  \<open>translate.py\<close>: a transformer runs only the first rule whose match pattern holds, a pattern is
  a conjunction of comparisons read on entry, and comparisons are unsigned.  The locale
  \<open>first_match\<close> states exactly that about a parameter \<open>xf\<close>; nothing else is assumed of it.
\<close>

section \<open>The op evaluator\<close>

type_synonym hdrs = "nat \<rightharpoonup> int"

definition rd :: "hdrs \<Rightarrow> nat \<Rightarrow> int" where
  "rd regs h = (case regs h of None \<Rightarrow> 0 | Some v \<Rightarrow> v)"

fun width_bits :: "width \<Rightarrow> nat" where
  "width_bits W8 = 8" | "width_bits W16 = 16" | "width_bits W32 = 32" | "width_bits W64 = 64"

definition mask_w :: "int \<Rightarrow> width \<Rightarrow> int" where
  "mask_w v w = v AND (push_bit (width_bits w) 1 - 1)"

fun eval_operand :: "operand \<Rightarrow> hdrs \<Rightarrow> int" where
  "eval_operand (OpConst v) regs = v"
| "eval_operand (OpHeader h) regs = rd regs h"

fun eval_binop :: "ir_binop \<Rightarrow> int \<Rightarrow> int \<Rightarrow> int" where
  "eval_binop AddOp x y = x + y"
| "eval_binop SubOp x y = x - y"
| "eval_binop AndOp x y = x AND y"
| "eval_binop OrOp x y = x OR y"
| "eval_binop XorOp x y = x XOR y"
| "eval_binop MulOp x y = x * y"
| "eval_binop DivOp x y = (if y = 0 then 0 else x div y)"
| "eval_binop ModOp x y = (if y = 0 then x else x mod y)"

fun eval_op :: "ir_op \<Rightarrow> hdrs \<Rightarrow> hdrs" where
  "eval_op (StatelessOp f w a1 a2 target) regs =
     (let x = mask_w (eval_operand a1 regs) w; y = mask_w (eval_operand a2 regs) w
      in regs(target \<mapsto> mask_w (eval_binop f x y) w))"
| "eval_op (CastHeaderOp frm to arg target) regs =
     regs(target \<mapsto> mask_w (mask_w (eval_operand arg regs) frm) to)"
| "eval_op (LoadOp w region ofs target) regs = regs"
| "eval_op (StoreOp w region ofs val) regs = regs"

fun eval_ops :: "ir_op list \<Rightarrow> hdrs \<Rightarrow> hdrs" where
  "eval_ops [] regs = regs"
| "eval_ops (i # ops) regs = eval_ops ops (eval_op i regs)"

section \<open>Reading headers\<close>

lemma rd_empty [simp]: "rd Map.empty h = 0"
  by (simp add: rd_def)

lemma rd_upd [simp]: "rd (regs(h \<mapsto> v)) h' = (if h' = h then v else rd regs h')"
  by (simp add: rd_def)

lemma mask_w_take_bit [simp]: "mask_w v w = take_bit (width_bits w) v"
  unfolding mask_w_def by (rule and_push_bit_minus_one)

lemma eval_ops_append [simp]: "eval_ops (xs @ ys) regs = eval_ops ys (eval_ops xs regs)"
  by (induction xs arbitrary: regs) simp_all

fun op_target :: "ir_op \<Rightarrow> nat option" where
  "op_target (StatelessOp _ _ _ _ t) = Some t"
| "op_target (CastHeaderOp _ _ _ t) = Some t"
| "op_target (LoadOp _ _ _ t) = Some t"
| "op_target (StoreOp _ _ _ _) = None"

lemma eval_op_frame: "op_target i \<noteq> Some h \<Longrightarrow> rd (eval_op i regs) h = rd regs h"
  by (cases i) (auto simp: Let_def)

text \<open>An op list leaves every header it does not name as a target.\<close>

lemma eval_ops_frame:
  "Some h \<notin> op_target ` set ops \<Longrightarrow> rd (eval_ops ops regs) h = rd regs h"
  by (induction ops arbitrary: regs) (auto simp: eval_op_frame)

section \<open>Match patterns and the chain\<close>

text \<open>
  \<open>match_entries holds\<close>: \<open>holds\<close> decides one entry of a pattern.  A comparison with a constant of
  width \<open>w\<close> is only used on a header that carries a value of that width, and one with another header
  on two values of one width, so the laws speak of those.  \<open>first_match holds xf\<close>: \<open>xf rules\<close> is
  what a transformer with these rules does to the header map.
\<close>

locale match_entries =
  fixes holds :: "match_entry \<Rightarrow> hdrs \<Rightarrow> bool"
  assumes holds_const:
      "0 \<le> rd s h \<Longrightarrow> rd s h < 2 ^ width_bits w \<Longrightarrow> 0 \<le> k \<Longrightarrow> k < 2 ^ width_bits w \<Longrightarrow>
       holds (Entry h c (MatchConst k w)) s \<longleftrightarrow>
         (case c of CmpEq \<Rightarrow> rd s h = k | CmpGt \<Rightarrow> rd s h > k | CmpLt \<Rightarrow> rd s h < k)"
    and holds_header:
      "0 \<le> rd s h \<Longrightarrow> rd s h < 2 ^ 64 \<Longrightarrow> 0 \<le> rd s h' \<Longrightarrow> rd s h' < 2 ^ 64 \<Longrightarrow>
       holds (Entry h c (MatchHeader h')) s \<longleftrightarrow>
         (case c of CmpEq \<Rightarrow> rd s h = rd s h' | CmpGt \<Rightarrow> rd s h > rd s h'
                  | CmpLt \<Rightarrow> rd s h < rd s h')"

locale first_match = match_entries holds
  for holds :: "match_entry \<Rightarrow> hdrs \<Rightarrow> bool" +
  fixes xf :: "ir_rule list \<Rightarrow> hdrs \<Rightarrow> hdrs"
  assumes xf_first:
      "\<forall>e \<in> set es. holds e s \<Longrightarrow> xf (SeqCtr es ops # rules) s = eval_ops ops s"
    and xf_skip:
      "e \<in> set es \<Longrightarrow> \<not> holds e s \<Longrightarrow> xf (SeqCtr es ops # rules) s = xf rules s"
begin

lemma xf_default [simp]: "xf [SeqCtr [] []] s = s"
  by (simp add: xf_first)

lemma xf_unconditional: "xf (SeqCtr [] ops # rules) s = eval_ops ops s"
  by (simp add: xf_first)

end

fun module_rules :: "ir_module \<Rightarrow> ir_rule list" where
  "module_rules (TransformerModule m rules) = rules"

text \<open>The chain: each module in turn, as the edges of the emitted network say.\<close>

fun run_chain :: "(ir_rule list \<Rightarrow> 's \<Rightarrow> 's) \<Rightarrow> ir_module list \<Rightarrow> 's \<Rightarrow> 's" where
  "run_chain xf [] s = s"
| "run_chain xf (m # ms) s = run_chain xf ms (xf (module_rules m) s)"

lemma run_chain_append [simp]:
  "run_chain xf (ms @ ns) s = run_chain xf ns (run_chain xf ms s)"
  by (induction ms arbitrary: s) simp_all

section \<open>An executable evaluator that meets the laws\<close>

fun match_holds :: "match_entry \<Rightarrow> hdrs \<Rightarrow> bool" where
  "match_holds (Entry h c rhs) s =
     (let x = rd s h; y = (case rhs of MatchConst k w \<Rightarrow> k | MatchHeader h' \<Rightarrow> rd s h')
      in case c of CmpEq \<Rightarrow> x = y | CmpGt \<Rightarrow> x > y | CmpLt \<Rightarrow> x < y)"

fun run_rules :: "ir_rule list \<Rightarrow> hdrs \<Rightarrow> hdrs" where
  "run_rules [] s = s"
| "run_rules (SeqCtr es ops # rules) s =
     (if list_all (\<lambda>e. match_holds e s) es then eval_ops ops s else run_rules rules s)"

interpretation ref: first_match match_holds run_rules
  by unfold_locales (auto simp: Let_def list_all_iff split: cmp.splits)

end
