(* ===== verification/Layout.thy ===== *)
theory Layout
  imports Bpf_Insn
begin

text \<open>
  What the translator knows about its surroundings: the identifiers it allocates (headers,
  regions, modules, program-counter values), the layout of a map's region (\<open>MapInfo\<close>) and the
  layouts of the program's context (\<open>CtxLayout\<close>).
\<close>

section \<open>Identifiers\<close>

definition H_PC :: nat where [simp]: "H_PC = 1"
definition H_REG :: "nat \<Rightarrow> nat" where [simp]: "H_REG n = 10 + n"
definition H_TMP :: "nat \<Rightarrow> nat" where [simp]: "H_TMP k = 30 + k"
definition H_STACK_BASE :: nat where [simp]: "H_STACK_BASE = 100"
definition NUM_TMPS :: nat where [simp]: "NUM_TMPS = 64"
definition MAP_SLOTS_MAX :: nat where [simp]: "MAP_SLOTS_MAX = (NUM_TMPS - 8) div 2"

definition REGION_CTX :: nat where [simp]: "REGION_CTX = 1"
definition REGION_PKT :: nat where [simp]: "REGION_PKT = 2"
definition REGION_MAP :: "nat \<Rightarrow> nat" where [simp]: "REGION_MAP i = 10 + i"
definition REGION_NONE :: nat where [simp]: "REGION_NONE = 99"

definition PKT_LEN :: nat where [simp]: "PKT_LEN = 64"
definition MAX_MAPS :: nat where [simp]: "MAX_MAPS = 16"
definition MAP_MAX_SLOTS :: nat where [simp]: "MAP_MAX_SLOTS = 4"
definition MAP_MAX_VALUE_COPY :: nat where [simp]: "MAP_MAX_VALUE_COPY = 64"

definition BPF_FUNC_map_lookup_elem :: int where [simp]: "BPF_FUNC_map_lookup_elem = 1"
definition BPF_FUNC_map_update_elem :: int where [simp]: "BPF_FUNC_map_update_elem = 2"
definition E2BIG :: int where [simp]: "E2BIG = 7"

definition MOD_PARSER :: nat where [simp]: "MOD_PARSER = 1"
definition MOD_DEPARSER :: nat where [simp]: "MOD_DEPARSER = 2"
definition MOD_FIRST_XFRM :: nat where [simp]: "MOD_FIRST_XFRM = 10"

definition PC_HALT :: nat where [simp]: "PC_HALT = 0"
definition BLOCK_PC :: "nat \<Rightarrow> nat" where [simp]: "BLOCK_PC leader = 2 * leader + 1"
definition DECIDE_PC :: "nat \<Rightarrow> nat" where [simp]: "DECIDE_PC leader = 2 * leader + 2"
definition MAX_INSNS :: nat where [simp]: "MAX_INSNS = 8192"

section \<open>Maps\<close>

definition ARRAY_TYPES :: "nat set" where "ARRAY_TYPES = {2, 6}"
definition HASH_TYPES :: "nat set" where "HASH_TYPES = {1, 5}"
definition LRU_TYPES :: "nat set" where "LRU_TYPES = {9, 10}"

datatype family = FAMILY_ARRAY | FAMILY_HASH | FAMILY_LRU

record map_info =
  m_name :: string
  m_type :: nat
  m_key_size :: nat
  m_value_size :: nat
  m_max_entries :: nat
  m_slots_budget :: nat

definition m_family :: "map_info \<Rightarrow> family option" where
  "m_family mi =
     (if m_type mi \<in> ARRAY_TYPES then Some FAMILY_ARRAY
      else if m_type mi \<in> HASH_TYPES then Some FAMILY_HASH
      else if m_type mi \<in> LRU_TYPES then Some FAMILY_LRU
      else None)"

definition m_is_array :: "map_info \<Rightarrow> bool" where
  "m_is_array mi \<longleftrightarrow> m_family mi = Some FAMILY_ARRAY"

definition m_exact :: "map_info \<Rightarrow> bool" where
  "m_exact mi \<longleftrightarrow> m_is_array mi \<and> m_max_entries mi \<le> m_slots_budget mi"

definition m_nslots :: "map_info \<Rightarrow> nat" where
  "m_nslots mi =
     (let me = m_max_entries mi; b = m_slots_budget mi
      in if me = 0 \<or> me > b then b else me)"

definition m_tagged :: "map_info \<Rightarrow> bool" where
  "m_tagged mi \<longleftrightarrow> m_family mi = Some FAMILY_HASH"

definition m_tag_base :: "map_info \<Rightarrow> nat" where
  "m_tag_base mi = m_nslots mi"

definition m_tag_off :: "map_info \<Rightarrow> nat \<Rightarrow> nat" where
  "m_tag_off mi i = m_tag_base mi + i * m_key_size mi"

definition m_value_base :: "map_info \<Rightarrow> nat" where
  "m_value_base mi = m_nslots mi + (if m_tagged mi then m_nslots mi * m_key_size mi else 0)"

definition m_value_off :: "map_info \<Rightarrow> nat \<Rightarrow> nat" where
  "m_value_off mi i = m_value_base mi + i * m_value_size mi"

definition m_full_off :: "map_info \<Rightarrow> nat" where
  "m_full_off mi = m_value_base mi + m_nslots mi * m_value_size mi"

definition m_length :: "map_info \<Rightarrow> nat" where
  "m_length mi = m_full_off mi + (if m_tagged mi then 1 else 0)"

lemmas layout_defs = m_tag_base_def m_tag_off_def m_value_base_def m_value_off_def
  m_full_off_def m_length_def

lemma nslots_pos: "0 < m_slots_budget mi \<Longrightarrow> 0 < m_nslots mi"
  by (simp add: m_nslots_def Let_def)

lemma nslots_le_budget: "m_nslots mi \<le> m_slots_budget mi"
  by (simp add: m_nslots_def Let_def)

text \<open>
  The parts of a tagged map's region, as half-open intervals of cells: slot \<open>i\<close>'s presence byte,
  its tag, its value, and the capacity byte.
\<close>

datatype cell_part = Presence nat | Tag nat | Value nat | Full

fun part_cells :: "map_info \<Rightarrow> cell_part \<Rightarrow> nat \<times> nat" where
  "part_cells mi (Presence i) = (i, i + 1)"
| "part_cells mi (Tag i) = (m_tag_off mi i, m_tag_off mi i + m_key_size mi)"
| "part_cells mi (Value i) = (m_value_off mi i, m_value_off mi i + m_value_size mi)"
| "part_cells mi Full = (m_full_off mi, m_full_off mi + 1)"

fun part_ok :: "map_info \<Rightarrow> cell_part \<Rightarrow> bool" where
  "part_ok mi (Presence i) \<longleftrightarrow> i < m_nslots mi"
| "part_ok mi (Tag i) \<longleftrightarrow> i < m_nslots mi"
| "part_ok mi (Value i) \<longleftrightarrow> i < m_nslots mi"
| "part_ok mi Full \<longleftrightarrow> True"

lemma slot_interval_le: "i < j \<Longrightarrow> i * (k::nat) + k \<le> j * k"
  using mult_le_mono1 [of "Suc i" j k] by simp

lemma slot_interval_end: "i < n \<Longrightarrow> i * (k::nat) + k \<le> n * k"
  by (rule slot_interval_le)

section \<open>Contexts\<close>

record ctx_layout =
  c_name :: string
  c_length :: nat
  c_data_off :: int
  c_data_end_off :: int

definition CTX_XDP_MD :: ctx_layout where
  "CTX_XDP_MD = \<lparr>c_name = ''xdp_md'', c_length = 20, c_data_off = 0, c_data_end_off = 4\<rparr>"

definition CTX_SK_BUFF :: ctx_layout where
  "CTX_SK_BUFF = \<lparr>c_name = ''__sk_buff'', c_length = 192, c_data_off = 76, c_data_end_off = 80\<rparr>"

definition SKB_PREFIXES :: "string list" where
  "SKB_PREFIXES = [''socket'', ''filter'', ''tc'', ''classifier'', ''action'',
     ''cgroup_skb'', ''cgroup/skb'', ''sk_skb'', ''lwt_'', ''flow_dissector'']"

definition starts_with :: "string \<Rightarrow> string \<Rightarrow> bool" where
  "starts_with s p \<longleftrightarrow> take (length p) s = p"

definition ctx_layout_by_name :: "string \<Rightarrow> ctx_layout option" where
  "ctx_layout_by_name n =
     (if n \<in> set [''xdp_md'', ''xdp''] then Some CTX_XDP_MD
      else if n \<in> set [''__sk_buff'', ''skb''] then Some CTX_SK_BUFF
      else None)"

definition ctx_layout_for :: "string \<Rightarrow> ctx_layout option" where
  "ctx_layout_for sec =
     (if starts_with sec ''xdp'' then Some CTX_XDP_MD
      else if list_ex (starts_with sec) SKB_PREFIXES then Some CTX_SK_BUFF
      else None)"

end
