(* ===== verification/Provenance.thy ===== *)
theory Provenance
  imports Prelude "HOL-Library.Multiset"
begin

text \<open>
  The pointer provenance lattice of \<open>src/pybpf/translate.py\<close>: the abstract value of a register or
  stack slot (\<open>RegInfo\<close>), the join of two of them, and the abstract state of a block
  (\<open>AbsState\<close>) with \<open>copy\<close> and \<open>join_from\<close>.

  The join is stated as an interface, the locale \<open>join_semilattice\<close>: a commutative,
  associative operation that is idempotent on its own results.  It is interpreted on \<open>join_reg\<close>
  and, pointwise, on the register files; what follows from the laws alone (the state a block is
  entered with does not depend on the order its predecessors are visited in) is proved in the
  locale.
\<close>

section \<open>Abstract values\<close>

datatype tag = T_SCALAR | T_CTX | T_PKT | T_STACK | T_MAP | T_MAPVAL | T_UNKNOWN

text \<open>
  \<open>ri_const\<close> is the source's \<open>const\<close>: a scalar whose value is statically known, or \<open>None\<close>.
  A \<open>ri_mapidx\<close> of \<open>-1\<close> is "no map".
\<close>

record reg_info =
  ri_tag :: tag
  ri_off :: int
  ri_known :: bool
  ri_mapidx :: int
  ri_const :: "int option"

definition SCALAR :: reg_info where
  "SCALAR = \<lparr>ri_tag = T_SCALAR, ri_off = 0, ri_known = True, ri_mapidx = -1, ri_const = None\<rparr>"

definition scalar_const :: "int \<Rightarrow> reg_info" where
  "scalar_const v = \<lparr>ri_tag = T_SCALAR, ri_off = 0, ri_known = True, ri_mapidx = -1,
                     ri_const = Some (v AND 0xffffffffffffffff)\<rparr>"

definition pointer :: "tag \<Rightarrow> int \<Rightarrow> reg_info" where
  "pointer t ofs = \<lparr>ri_tag = t, ri_off = ofs, ri_known = True, ri_mapidx = -1, ri_const = None\<rparr>"

definition map_pointer :: "tag \<Rightarrow> int \<Rightarrow> int \<Rightarrow> reg_info" where
  "map_pointer t ofs m = \<lparr>ri_tag = t, ri_off = ofs, ri_known = True, ri_mapidx = m, ri_const = None\<rparr>"

definition UNKNOWN :: reg_info where
  "UNKNOWN = \<lparr>ri_tag = T_UNKNOWN, ri_off = 0, ri_known = False, ri_mapidx = -1, ri_const = None\<rparr>"

definition join_reg :: "reg_info \<Rightarrow> reg_info \<Rightarrow> reg_info" where
  "join_reg a b =
     (if ri_tag a \<noteq> ri_tag b \<or> ri_mapidx a \<noteq> ri_mapidx b then UNKNOWN
      else let known = (ri_known a \<and> ri_known b \<and> ri_off a = ri_off b);
               c = (if ri_const a = ri_const b then ri_const a else None)
           in \<lparr>ri_tag = ri_tag a, ri_off = (if known then ri_off a else 0), ri_known = known,
               ri_mapidx = ri_mapidx a, ri_const = c\<rparr>)"

section \<open>Abstract states\<close>

definition NUM_BPF_REGS :: nat where [simp]: "NUM_BPF_REGS = 11"
definition BPF_STACK_SIZE :: nat where [simp]: "BPF_STACK_SIZE = 512"

record abs_state =
  a_reg :: "reg_info list"
  a_slot :: "reg_info list"
  a_live :: bool

definition abs_init :: abs_state where
  "abs_init = \<lparr>a_reg = replicate NUM_BPF_REGS SCALAR,
               a_slot = replicate (BPF_STACK_SIZE + 1) SCALAR, a_live = False\<rparr>"

definition join_from :: "abs_state \<Rightarrow> abs_state \<Rightarrow> abs_state" where
  "join_from s src =
     (if \<not> a_live src then s
      else if \<not> a_live s then s\<lparr>a_reg := a_reg src, a_slot := a_slot src, a_live := True\<rparr>
      else s\<lparr>a_reg := map2 join_reg (a_reg s) (a_reg src),
             a_slot := map2 join_reg (a_slot s) (a_slot src)\<rparr>)"

definition abs_ok :: "abs_state \<Rightarrow> bool" where
  "abs_ok s \<longleftrightarrow> length (a_reg s) = NUM_BPF_REGS \<and> length (a_slot s) = BPF_STACK_SIZE + 1"

section \<open>The join as an interface\<close>

locale join_semilattice =
  fixes join :: "'a \<Rightarrow> 'a \<Rightarrow> 'a" and norm :: "'a \<Rightarrow> bool"
  assumes join_commute: "join a b = join b a"
    and join_assoc: "join (join a b) c = join a (join b c)"
    and norm_join: "norm (join a b)"
    and join_idem: "norm a \<Longrightarrow> join a a = a"
begin

lemma join_left_commute: "join a (join b c) = join b (join a c)"
  by (metis join_commute join_assoc)

lemma join_absorb: "join a (join a b) = join a b"
  by (metis join_commute join_assoc join_idem norm_join)

text \<open>The order of the lattice, written with the join: \<open>a\<close> is below \<open>b\<close>.\<close>

lemma below_join: "join a (join a b) = join a b \<and> join b (join a b) = join a b"
  by (metis join_absorb join_commute)

lemma join_least:
  "join a c = c \<Longrightarrow> join b c = c \<Longrightarrow> join (join a b) c = c"
  by (simp add: join_assoc)

lemma below_trans: "join a b = b \<Longrightarrow> join b c = c \<Longrightarrow> join a c = c"
  by (metis join_assoc)

lemma below_antisym: "join a b = b \<Longrightarrow> join b a = a \<Longrightarrow> a = b"
  by (simp add: join_commute)

text \<open>Joining in several states is independent of their order.\<close>

lemma fold_join_commute: "fold join xs (join a b) = join b (fold join xs a)"
proof (induction xs arbitrary: a)
  case Nil
  show ?case by (simp add: join_commute)
next
  case (Cons x xs)
  have "join x (join a b) = join (join x a) b"
    by (simp only: join_assoc)
  then show ?case by (simp only: fold.simps o_apply Cons.IH)
qed

lemma fold_join_perm: "mset xs = mset ys \<Longrightarrow> fold join xs a = fold join ys a"
  by (rule fold_permuted_eq [where P = "\<lambda>_. True"]) (auto simp: join_left_commute)

end

section \<open>The interpretation\<close>

text \<open>
  A \<open>RegInfo\<close> is normal when an unknown offset is recorded as 0.  \<open>join_reg\<close> only produces normal
  values; \<open>replace(d, off_known=False)\<close> in the ALU code does not, and on such a value the join is
  not idempotent (it forgets the stale offset, which nothing reads).
\<close>

definition ri_normal :: "reg_info \<Rightarrow> bool" where
  "ri_normal a \<longleftrightarrow> (ri_known a \<or> ri_off a = 0)"

lemma join_reg_same:
  "ri_tag a = ri_tag b \<Longrightarrow> ri_mapidx a = ri_mapidx b \<Longrightarrow>
   join_reg a b =
     \<lparr>ri_tag = ri_tag a,
      ri_off = (if ri_known a \<and> ri_known b \<and> ri_off a = ri_off b then ri_off a else 0),
      ri_known = (ri_known a \<and> ri_known b \<and> ri_off a = ri_off b),
      ri_mapidx = ri_mapidx a,
      ri_const = (if ri_const a = ri_const b then ri_const a else None)\<rparr>"
  by (simp add: join_reg_def Let_def)

lemma join_reg_differ:
  "\<not> (ri_tag a = ri_tag b \<and> ri_mapidx a = ri_mapidx b) \<Longrightarrow> join_reg a b = UNKNOWN"
  by (auto simp: join_reg_def)

lemma join_reg_UNKNOWN [simp]: "join_reg UNKNOWN a = UNKNOWN" "join_reg a UNKNOWN = UNKNOWN"
  by (auto simp: join_reg_def UNKNOWN_def Let_def)

lemma join_reg_fields:
  "ri_tag a = ri_tag b \<Longrightarrow> ri_mapidx a = ri_mapidx b \<Longrightarrow>
   ri_tag (join_reg a b) = ri_tag a \<and> ri_mapidx (join_reg a b) = ri_mapidx a"
  by (simp add: join_reg_same)

lemma join_reg_known:
  "ri_tag a = ri_tag b \<Longrightarrow> ri_mapidx a = ri_mapidx b \<Longrightarrow>
   ri_known (join_reg a b) \<longleftrightarrow> ri_known a \<and> ri_known b \<and> ri_off a = ri_off b"
  by (simp add: join_reg_same)

lemma join_reg_off:
  "ri_tag a = ri_tag b \<Longrightarrow> ri_mapidx a = ri_mapidx b \<Longrightarrow>
   ri_off (join_reg a b) = (if ri_known (join_reg a b) then ri_off a else 0)"
  by (simp add: join_reg_same)

lemma join_reg_const:
  "ri_tag a = ri_tag b \<Longrightarrow> ri_mapidx a = ri_mapidx b \<Longrightarrow>
   ri_const (join_reg a b) = (if ri_const a = ri_const b then ri_const a else None)"
  by (simp add: join_reg_same)

lemma join_reg_commute: "join_reg a b = join_reg b a"
  by (cases "ri_tag a = ri_tag b \<and> ri_mapidx a = ri_mapidx b")
    (auto simp: join_reg_same join_reg_differ)

lemma join_reg_assoc: "join_reg (join_reg a b) c = join_reg a (join_reg b c)"
proof (cases "ri_tag a = ri_tag b \<and> ri_mapidx a = ri_mapidx b")
  case ab: True
  show ?thesis
  proof (cases "ri_tag b = ri_tag c \<and> ri_mapidx b = ri_mapidx c")
    case True
    let ?l = "join_reg (join_reg a b) c" and ?r = "join_reg a (join_reg b c)"
    have ab': "ri_tag (join_reg a b) = ri_tag c" "ri_mapidx (join_reg a b) = ri_mapidx c"
      and bc': "ri_tag a = ri_tag (join_reg b c)" "ri_mapidx a = ri_mapidx (join_reg b c)"
      using True ab by (simp_all add: join_reg_fields)
    have known: "ri_known ?l = ri_known ?r"
      using True ab by (auto simp: join_reg_known ab' bc' join_reg_off)
    have "ri_off ?l = ri_off ?r"
      using True ab known by (auto simp: join_reg_known ab' bc' join_reg_off)
    moreover have "ri_const ?l = ri_const ?r"
      using True ab by (cases "ri_const c"; auto simp: join_reg_const ab' bc')
    ultimately show ?thesis
      using known True ab by (intro reg_info.equality) (simp_all add: join_reg_fields ab' bc')
  next
    case False
    with ab have "join_reg (join_reg a b) c = UNKNOWN"
      by (intro join_reg_differ) (simp add: join_reg_fields)
    with False show ?thesis by (simp add: join_reg_differ)
  qed
next
  case ab: False
  show ?thesis
  proof (cases "ri_tag b = ri_tag c \<and> ri_mapidx b = ri_mapidx c")
    case True
    with ab have "join_reg a (join_reg b c) = UNKNOWN"
      by (intro join_reg_differ) (simp add: join_reg_fields)
    with ab show ?thesis by (simp add: join_reg_differ)
  next
    case False
    with ab show ?thesis by (simp add: join_reg_differ)
  qed
qed

interpretation prov: join_semilattice join_reg ri_normal
proof unfold_locales
  show "join_reg a b = join_reg b a" for a b by (rule join_reg_commute)
  show "join_reg (join_reg a b) c = join_reg a (join_reg b c)" for a b c by (rule join_reg_assoc)
  show "ri_normal (join_reg a b)" for a b
    by (simp add: join_reg_def UNKNOWN_def ri_normal_def Let_def)
  show "ri_normal a \<Longrightarrow> join_reg a a = a" for a
    by (auto simp: join_reg_same ri_normal_def)
qed

section \<open>What an abstract value says about a concrete one\<close>

text \<open>
  A concrete register is a 64-bit value together with the object it points into, if any: the tag,
  the map's index and the offset from the object's start.
\<close>

record prov_value =
  pv_tag :: tag
  pv_mapidx :: int
  pv_off :: int
  pv_val :: int

definition describes :: "reg_info \<Rightarrow> prov_value \<Rightarrow> bool" where
  "describes a v \<longleftrightarrow>
     ri_tag a = T_UNKNOWN
     \<or> (ri_tag a = pv_tag v \<and> ri_mapidx a = pv_mapidx v
        \<and> (ri_known a \<longrightarrow> ri_off a = pv_off v)
        \<and> (\<forall>k. ri_const a = Some k \<longrightarrow> pv_val v = k))"

lemma describes_join: "describes a v \<Longrightarrow> describes (join_reg a b) v"
  by (auto simp: describes_def join_reg_def UNKNOWN_def Let_def split: if_splits)

lemma describes_join': "describes b v \<Longrightarrow> describes (join_reg a b) v"
  using describes_join [of b v a] by (simp add: prov.join_commute)

lemma join_from_ok: "abs_ok s \<Longrightarrow> abs_ok src \<Longrightarrow> abs_ok (join_from s src)"
  by (simp add: abs_ok_def join_from_def)

lemma abs_init_ok [simp]: "abs_ok abs_init"
  by (simp add: abs_ok_def abs_init_def)

lemma nth_join_from:
  assumes "abs_ok s" "abs_ok src" "a_live s" "a_live src" "n < NUM_BPF_REGS"
  shows "a_reg (join_from s src) ! n = join_reg (a_reg s ! n) (a_reg src ! n)"
  using assms by (simp add: join_from_def abs_ok_def)

end
