(* ===== verification/Translator_State.thy ===== *)
theory Translator_State
  imports Op_Eval Layout Provenance
begin

text \<open>
  The state of a \<open>Translator\<close> object and its small operations: diagnostics, the scratch pool, the
  stack-slot headers, the regions, and the checks on a context access.

  A method that mutates \<open>self\<close> takes the state and returns the new one, after its result if it has
  one.  Python lists that a method indexes raise \<open>IndexError\<close> out of range; nothing in
  \<open>src/pybpf\<close> catches it, so it ends the run: a method that can raise returns an \<open>option\<close>, with
  \<open>None\<close> for the exception, and is composed with the option monad.
\<close>

section \<open>Diagnostics\<close>

text \<open>Why an instruction was refused, with the values its message shows.\<close>

datatype reason =
    ScratchExhausted
  | ArshRange int nat
  | RegisterRange
  | ShiftByRegister
  | EndWidth int
  | AluOp int
  | StackNonConst string
  | StackOutside string int
  | RegionUnknown string nat
  | CtxOutside string int int
  | AtomicOp
  | LdMode int
  | InsnClass int
  | TruncatedImm64
  | Imm64Src nat
  | LdPkt64
  | JumpRange int
  | BackwardJump int
  | JumpOp int
  | SubprogramCall
  | HelperCall int
  | NotAMap string
  | MapFamily string nat
  | MapLru string nat
  | MapKeySize string nat
  | ArrayComputedKey string
  | ArrayKeyAliased string int
  | ArrayUpdateComputedKey string
  | MapKeyNonConst
  | MapKeyOutside int
  | MapKeyRegion
  | ValueStackSize nat
  | ValueNonConst
  | ValueOutside
  | ValueRegion
  | ValueTooBig nat
  | FlagsNotConst
  | FlagsValue int

datatype diagnostic =
    Unsupported nat reason
  | TooManyMaps
  | BtfBroken
  | MapNotStruct string
  | MapUnsized string nat nat
  | MapBudget string nat nat

section \<open>The state\<close>

text \<open>
  \<open>t_maps\<close>, \<open>t_insn_map_idx\<close>, \<open>t_ops\<close> and the others are the attributes of the source's object of
  the same name; \<open>t_diags\<close> is what has been printed on stderr.
\<close>

record tstate =
  t_had_error :: bool
  t_map_slots :: "nat option"
  t_site_hint :: "(string \<rightharpoonup> nat) option"
  t_quiet :: bool
  t_ctx :: ctx_layout
  t_maps :: "map_info list"
  t_insn_map_idx :: "nat \<rightharpoonup> nat"
  t_modules :: "ir_module list"
  t_next_mod :: nat
  t_stack_hdr_of :: "int \<rightharpoonup> nat"
  t_next_stack_hdr :: nat
  t_reg_used :: "bool list"
  t_ops :: ops
  t_tmp_next :: nat
  t_map_const_keys :: "nat \<rightharpoonup> (int \<rightharpoonup> int)"
  t_map_sites :: "nat \<rightharpoonup> nat"
  t_diags :: "diagnostic list"

definition translator_init :: "ctx_layout \<Rightarrow> nat option \<Rightarrow> tstate" where
  "translator_init ctx_layout map_slots =
     \<lparr>t_had_error = False, t_map_slots = map_slots, t_site_hint = None, t_quiet = False,
      t_ctx = ctx_layout, t_maps = [], t_insn_map_idx = Map.empty, t_modules = [],
      t_next_mod = MOD_FIRST_XFRM, t_stack_hdr_of = Map.empty,
      t_next_stack_hdr = H_STACK_BASE, t_reg_used = replicate NUM_BPF_REGS False,
      t_ops = [], t_tmp_next = 0, t_map_const_keys = Map.empty, t_map_sites = Map.empty,
      t_diags = []\<rparr>"

definition report :: "diagnostic \<Rightarrow> tstate \<Rightarrow> tstate" where
  "report d s = s\<lparr>t_diags := (if t_quiet s then t_diags s else t_diags s @ [d]),
                  t_had_error := True\<rparr>"

definition unsupported :: "nat \<Rightarrow> reason \<Rightarrow> tstate \<Rightarrow> tstate" where
  "unsupported idx msg s = report (Unsupported idx msg) s"

text \<open>Appending to the block's op list: \<open>self.ops.binop(...)\<close> and the like.\<close>

definition emit :: "(ops \<Rightarrow> ops) \<Rightarrow> tstate \<Rightarrow> tstate" where
  "emit f s = s\<lparr>t_ops := f (t_ops s)\<rparr>"

section \<open>Maps\<close>

definition find_map :: "string \<Rightarrow> tstate \<Rightarrow> nat option" where
  "find_map name s =
     (case filter (\<lambda>i. m_name (t_maps s ! i) = name) [0..<length (t_maps s)] of
        [] \<Rightarrow> None | i # _ \<Rightarrow> Some i)"

definition add_map :: "string \<Rightarrow> nat \<Rightarrow> nat \<Rightarrow> nat \<Rightarrow> nat \<Rightarrow> tstate \<Rightarrow> tstate" where
  "add_map name ty ks vs me s =
     (if find_map name s \<noteq> None then s
      else if length (t_maps s) \<ge> MAX_MAPS then report TooManyMaps s
      else s\<lparr>t_maps := t_maps s @
         [\<lparr>m_name = name, m_type = ty, m_key_size = ks, m_value_size = vs,
           m_max_entries = me,
           m_slots_budget = (case t_map_slots s of
                               None \<Rightarrow> MAP_MAX_SLOTS
                             | Some n \<Rightarrow> if n = 0 then MAP_MAX_SLOTS else n)\<rparr>]\<rparr>)"

definition count_map_site :: "nat \<Rightarrow> tstate \<Rightarrow> tstate" where
  "count_map_site m s =
     s\<lparr>t_map_sites := (t_map_sites s)(m \<mapsto> (case t_map_sites s m of None \<Rightarrow> 0 | Some n \<Rightarrow> n) + 1)\<rparr>"

section \<open>Scratch and stack headers\<close>

definition fresh_tmp :: "nat \<Rightarrow> tstate \<Rightarrow> nat \<times> tstate" where
  "fresh_tmp idx s =
     (let s = (if t_tmp_next s \<ge> NUM_TMPS
               then (unsupported idx ScratchExhausted s)\<lparr>t_tmp_next := 0\<rparr> else s)
      in (H_TMP (t_tmp_next s), s\<lparr>t_tmp_next := t_tmp_next s + 1\<rparr>))"

text \<open>0 for a slot outside the frame; otherwise the slot's header, allocated on first use.\<close>

definition stack_header :: "int \<Rightarrow> tstate \<Rightarrow> nat \<times> tstate" where
  "stack_header slot s =
     (if slot < 0 \<or> slot > int BPF_STACK_SIZE then (0, s)
      else case t_stack_hdr_of s slot of
        Some h \<Rightarrow> (h, s)
      | None \<Rightarrow>
          (t_next_stack_hdr s,
           s\<lparr>t_stack_hdr_of := (t_stack_hdr_of s)(slot \<mapsto> t_next_stack_hdr s),
             t_next_stack_hdr := t_next_stack_hdr s + 1\<rparr>))"

section \<open>Regions\<close>

definition region_of :: "reg_info \<Rightarrow> tstate \<Rightarrow> nat" where
  "region_of r s =
     (if ri_tag r = T_CTX then REGION_CTX
      else if ri_tag r = T_PKT then REGION_PKT
      else if ri_tag r = T_MAPVAL then
        (if 0 \<le> ri_mapidx r \<and> ri_mapidx r < int (length (t_maps s))
         then REGION_MAP (nat (ri_mapidx r)) else REGION_NONE)
      else REGION_NONE)"

definition ctx_field_is_pkt_ptr :: "int \<Rightarrow> tstate \<Rightarrow> bool" where
  "ctx_field_is_pkt_ptr ofs s \<longleftrightarrow> ofs \<in> {c_data_off (t_ctx s), c_data_end_off (t_ctx s)}"

definition ctx_access_ok :: "nat \<Rightarrow> reg_info \<Rightarrow> int \<Rightarrow> int \<Rightarrow> string \<Rightarrow> tstate \<Rightarrow> bool \<times> tstate" where
  "ctx_access_ok idx base insn_off nbytes what s =
     (if ri_tag base \<noteq> T_CTX \<or> \<not> ri_known base then (True, s)
      else let lo = ri_off base + insn_off
      in if lo \<ge> 0 \<and> lo + nbytes \<le> int (c_length (t_ctx s)) then (True, s)
         else (False, unsupported idx (CtxOutside what lo (lo + nbytes)) s))"

section \<open>Frame facts\<close>

lemma report_fields [simp]:
  "t_had_error (report d s)"
  "t_ops (report d s) = t_ops s" "t_tmp_next (report d s) = t_tmp_next s"
  "t_maps (report d s) = t_maps s" "t_insn_map_idx (report d s) = t_insn_map_idx s"
  "t_modules (report d s) = t_modules s" "t_next_mod (report d s) = t_next_mod s"
  "t_stack_hdr_of (report d s) = t_stack_hdr_of s"
  "t_next_stack_hdr (report d s) = t_next_stack_hdr s"
  "t_reg_used (report d s) = t_reg_used s" "t_ctx (report d s) = t_ctx s"
  "t_map_sites (report d s) = t_map_sites s" "t_quiet (report d s) = t_quiet s"
  by (simp_all add: report_def)

lemma unsupported_fields [simp]:
  "t_had_error (unsupported i d s)"
  "t_ops (unsupported i d s) = t_ops s" "t_tmp_next (unsupported i d s) = t_tmp_next s"
  "t_maps (unsupported i d s) = t_maps s" "t_insn_map_idx (unsupported i d s) = t_insn_map_idx s"
  "t_modules (unsupported i d s) = t_modules s" "t_next_mod (unsupported i d s) = t_next_mod s"
  "t_stack_hdr_of (unsupported i d s) = t_stack_hdr_of s"
  "t_next_stack_hdr (unsupported i d s) = t_next_stack_hdr s"
  "t_reg_used (unsupported i d s) = t_reg_used s" "t_ctx (unsupported i d s) = t_ctx s"
  "t_map_sites (unsupported i d s) = t_map_sites s" "t_quiet (unsupported i d s) = t_quiet s"
  by (simp_all add: unsupported_def)

lemma emit_fields [simp]:
  "t_ops (emit f s) = f (t_ops s)"
  "t_had_error (emit f s) = t_had_error s" "t_tmp_next (emit f s) = t_tmp_next s"
  "t_maps (emit f s) = t_maps s" "t_insn_map_idx (emit f s) = t_insn_map_idx s"
  "t_modules (emit f s) = t_modules s" "t_next_mod (emit f s) = t_next_mod s"
  "t_stack_hdr_of (emit f s) = t_stack_hdr_of s"
  "t_next_stack_hdr (emit f s) = t_next_stack_hdr s"
  "t_reg_used (emit f s) = t_reg_used s" "t_ctx (emit f s) = t_ctx s"
  "t_map_sites (emit f s) = t_map_sites s" "t_quiet (emit f s) = t_quiet s"
  by (simp_all add: emit_def)

text \<open>With scratch left in the pool, \<open>fresh_tmp\<close> hands out the next header and nothing else moves.\<close>

lemma fresh_tmp_ok [simp]:
  "t_tmp_next s < 64 \<Longrightarrow>
   fresh_tmp idx s = (30 + t_tmp_next s, s\<lparr>t_tmp_next := Suc (t_tmp_next s)\<rparr>)"
  by (simp add: fresh_tmp_def)

lemma fresh_tmp_range:
  "fresh_tmp idx s = (t, s') \<Longrightarrow> 30 \<le> t \<and> t < 94"
  by (auto simp: fresh_tmp_def Let_def split: if_splits)

section \<open>Symbolic execution of emitted ops\<close>

text \<open>
  The header map after the ops emitted so far, when the block is entered with \<open>h\<close>.  Emitting one
  more op is one update of it; these rules run an emitter symbolically under \<open>simp\<close>.
\<close>

abbreviation after :: "tstate \<Rightarrow> hdrs \<Rightarrow> hdrs" where
  "after s h \<equiv> eval_ops (t_ops s) h"

lemma eval_op_binop [simp]:
  "eval_ops (op_binop f w a b t ops) h =
     (eval_ops ops h)(t \<mapsto> take_bit (width_bits w)
        (eval_binop f (take_bit (width_bits w) (eval_operand a (eval_ops ops h)))
                      (take_bit (width_bits w) (eval_operand b (eval_ops ops h)))))"
  by (simp add: op_binop_def Let_def)

lemma eval_op_cast [simp]:
  "eval_ops (op_cast w w' a t ops) h =
     (eval_ops ops h)(t \<mapsto> take_bit (width_bits w')
        (take_bit (width_bits w) (eval_operand a (eval_ops ops h))))"
  by (simp add: op_cast_def)

lemma eval_op_set [simp]:
  "eval_ops (op_set t v ops) h = (eval_ops ops h)(t \<mapsto> take_bit 64 v)"
  by (simp add: op_set_def konst_take_bit)

lemma eval_op_move [simp]:
  "eval_ops (op_move t r ops) h = (eval_ops ops h)(t \<mapsto> take_bit 64 (rd (eval_ops ops h) r))"
  by (simp add: op_move_def konst_take_bit hdr_def)

lemma eval_op_load [simp]: "eval_ops (op_load w rg a t ops) h = eval_ops ops h"
  by (simp add: op_load_def)

lemma eval_op_store [simp]: "eval_ops (op_store w rg a v ops) h = eval_ops ops h"
  by (simp add: op_store_def)

lemma eval_op_raw [simp]: "eval_ops (op_raw i ops) h = eval_op i (eval_ops ops h)"
  by (simp add: op_raw_def)

lemma eval_hdr [simp]: "eval_operand (hdr r) s = rd s r"
  by (simp add: hdr_def)

lemma eval_konst [simp]: "eval_operand (konst v) s = take_bit 64 v"
  by (simp add: konst_take_bit)

end
