(* ===== verification/Bpf_VM.thy ===== *)
theory Bpf_VM
  imports Bpf_Insn
begin

text \<open>
  The reference interpreter \<open>src/tests/bpfvm.py\<close>, "deliberately written from the ISA rather than
  from the translator".  Its registers are the 11 elements of a Python list, its program counter
  is a Python integer (a negative one indexes from the end, as \<open>insns[pc]\<close> does), and every
  exception it can raise is a value of \<open>vm_exn\<close>.  The loop \<open>for _ in range(fuel)\<close> is recursion on
  the fuel.
\<close>

datatype vm_exn = Halt | AssertionError | KeyError | IndexError | ValueError | OverflowError

section \<open>Arithmetic\<close>

text \<open>\<open>_s\<close>: reinterpret an unsigned value as signed at \<open>bits\<close> width.\<close>

definition vm_s :: "int \<Rightarrow> nat \<Rightarrow> int" where
  "vm_s v bits = (if drop_bit (bits - 1) v \<noteq> 0 then v - push_bit bits 1 else v)"

definition vm_alu :: "int \<Rightarrow> int \<Rightarrow> int \<Rightarrow> nat \<Rightarrow> int option" where
  "vm_alu opc x y bits =
     (let m = push_bit bits 1 - 1
      in if opc = BPF_ADD then Some ((x + y) AND m)
         else if opc = BPF_SUB then Some ((x - y) AND m)
         else if opc = BPF_AND then Some (x AND y)
         else if opc = BPF_OR then Some (x OR y)
         else if opc = BPF_XOR then Some (x XOR y)
         else if opc = BPF_MUL then Some ((x * y) AND m)
         else if opc = BPF_DIV then Some (if y = 0 then 0 else (x div y) AND m)
         else if opc = BPF_MOD then Some (if y = 0 then x else (x mod y) AND m)
         else if opc = BPF_MOV then Some (y AND m)
         else if opc = BPF_NEG then Some ((- x) AND m)
         else if opc = BPF_LSH then Some (push_bit (nat (y AND int (bits - 1))) x AND m)
         else if opc = BPF_RSH then Some (drop_bit (nat (y AND int (bits - 1))) x AND m)
         else if opc = BPF_ARSH then Some (drop_bit (nat (y AND int (bits - 1))) (vm_s x bits) AND m)
         else None)"

definition vm_cmp :: "int \<Rightarrow> int \<Rightarrow> int \<Rightarrow> nat \<Rightarrow> bool option" where
  "vm_cmp opc a b bits =
     (let sa = vm_s a bits; sb = vm_s b bits
      in if opc = BPF_JEQ then Some (a = b)
         else if opc = BPF_JNE then Some (a \<noteq> b)
         else if opc = BPF_JGT then Some (a > b)
         else if opc = BPF_JGE then Some (a \<ge> b)
         else if opc = BPF_JLT then Some (a < b)
         else if opc = BPF_JLE then Some (a \<le> b)
         else if opc = BPF_JSGT then Some (sa > sb)
         else if opc = BPF_JSGE then Some (sa \<ge> sb)
         else if opc = BPF_JSLT then Some (sa < sb)
         else if opc = BPF_JSLE then Some (sa \<le> sb)
         else if opc = BPF_JSET then Some (a AND b \<noteq> 0)
         else None)"

text \<open>\<open>v.to_bytes(nb, "little")\<close> and \<open>int.from_bytes(bs, "big")\<close>.\<close>

definition to_bytes_little :: "int \<Rightarrow> int \<Rightarrow> vm_exn + int list" where
  "to_bytes_little v nb =
     (if nb < 0 then Inl ValueError
      else if v < 0 \<or> 256 ^ nat nb \<le> v then Inl OverflowError
      else Inr (map (\<lambda>k. v div 256 ^ k mod 256) [0..<nat nb]))"

definition from_bytes_big :: "int list \<Rightarrow> int" where
  "from_bytes_big bs = foldl (\<lambda>acc b. acc * 256 + b) 0 bs"

definition vm_M64 :: int where "vm_M64 = push_bit 64 1 - 1"
definition vm_M32 :: int where "vm_M32 = push_bit 32 1 - 1"

text \<open>The byte-order branch of the ALU case: \<open>rd\<close> is the destination register's value.\<close>

definition vm_end :: "insn \<Rightarrow> int \<Rightarrow> vm_exn + int" where
  "vm_end i r =
     (let nb = imm i div 8
      in if imm i < 0 then Inl ValueError
         else let v = (if imm i \<noteq> 64 then r AND (push_bit (nat (imm i)) 1 - 1) else r)
              in if i_cls i = BPF_ALU64 \<or> src_field (code i) = BPF_X
                 then (case to_bytes_little v nb of Inl e \<Rightarrow> Inl e
                       | Inr bs \<Rightarrow> Inr (from_bytes_big bs AND vm_M64))
                 else Inr (v AND vm_M64))"

section \<open>One step and the run\<close>

datatype vm_next = Done int | Next "int list" int | Raise vm_exn

text \<open>\<open>insns[pc]\<close> with Python's reading of a negative index.\<close>

definition py_nth :: "'a list \<Rightarrow> int \<Rightarrow> 'a option" where
  "py_nth xs i =
     (let j = (if i < 0 then int (length xs) + i else i)
      in if 0 \<le> j \<and> j < int (length xs) then Some (xs ! nat j) else None)"

text \<open>The ALU case of the loop body: the new register list.\<close>

definition vm_alu_step :: "insn \<Rightarrow> int list \<Rightarrow> vm_exn + int list" where
  "vm_alu_step i r =
     (let bits = (if i_cls i = BPF_ALU64 then 64 else 32 :: nat); opc = i_op i
      in if dst i \<ge> length r then Inl IndexError
         else let x = r ! dst i AND (push_bit bits 1 - 1)
         in if opc = BPF_END
            then (case vm_end i (r ! dst i) of Inl e \<Rightarrow> Inl e | Inr v \<Rightarrow> Inr (r[dst i := v]))
            else if opc \<noteq> BPF_NEG \<and> \<not> is_imm i \<and> src i \<ge> length r then Inl IndexError
            else let y = (if opc = BPF_NEG then 0
                          else if is_imm i then (if bits = 64 then imm i AND vm_M64
                                                 else imm i AND vm_M32)
                          else r ! src i AND (push_bit bits 1 - 1))
            in case vm_alu opc x y bits of
                 None \<Rightarrow> Inl AssertionError
               | Some res \<Rightarrow> Inr (r[dst i := (if bits = 64 then res else res AND vm_M32)]))"

text \<open>The jump case: the next program counter, or the end of the run.\<close>

definition vm_jmp_step :: "insn \<Rightarrow> int list \<Rightarrow> int \<Rightarrow> vm_next" where
  "vm_jmp_step i r pc =
     (let opc = i_op i
      in if opc = BPF_EXIT then Done (r ! 0)
         else if opc = BPF_JA then Next r (pc + 1 + off i)
         else if opc = BPF_CALL then Raise Halt
         else let bits = (if i_cls i = BPF_JMP32 then 32 else 64 :: nat)
         in if dst i \<ge> length r \<or> (\<not> is_imm i \<and> src i \<ge> length r) then Raise IndexError
            else let a = r ! dst i AND (push_bit bits 1 - 1);
                     b = (if is_imm i then (if bits = 64 then imm i AND vm_M64
                                            else imm i AND vm_M32)
                          else r ! src i AND (push_bit bits 1 - 1))
            in case vm_cmp opc a b bits of
                 None \<Rightarrow> Raise KeyError
               | Some t \<Rightarrow> Next r (pc + 1 + (if t then off i else 0)))"

definition vm_step :: "insn list \<Rightarrow> int list \<Rightarrow> int \<Rightarrow> vm_next" where
  "vm_step insns r pc =
     (if pc \<ge> int (length insns) then Done (r ! 0)
      else case py_nth insns pc of
        None \<Rightarrow> Raise IndexError
      | Some i \<Rightarrow>
          if code i = LD_IMM64 then
            (case py_nth insns (pc + 1) of
               None \<Rightarrow> Raise IndexError
             | Some i' \<Rightarrow>
                 if dst i \<ge> length r then Raise IndexError
                 else Next (r[dst i := push_bit 32 (imm i' AND vm_M32) OR (imm i AND vm_M32)])
                        (pc + 2))
          else if i_cls i = BPF_ALU \<or> i_cls i = BPF_ALU64 then
            (case vm_alu_step i r of Inl e \<Rightarrow> Raise e | Inr r' \<Rightarrow> Next r' (pc + 1))
          else if i_cls i = BPF_JMP \<or> i_cls i = BPF_JMP32 then vm_jmp_step i r pc
          else Raise Halt)"

fun vm_loop :: "nat \<Rightarrow> insn list \<Rightarrow> int list \<Rightarrow> int \<Rightarrow> vm_exn + int" where
  "vm_loop 0 insns r pc = Inl Halt"
| "vm_loop (Suc fuel) insns r pc =
     (case vm_step insns r pc of
        Done v \<Rightarrow> Inr v
      | Next r' pc' \<Rightarrow> vm_loop fuel insns r' pc'
      | Raise e \<Rightarrow> Inl e)"

text \<open>\<open>run(insns)\<close>: all registers 0 at entry, and fuel 100000 by default.\<close>

definition vm_run :: "insn list \<Rightarrow> nat \<Rightarrow> vm_exn + int" where
  "vm_run insns fuel = vm_loop fuel insns (replicate 11 0) 0"

section \<open>Facts\<close>

lemma vm_M64_and [mask_simps, simp]: "v AND vm_M64 = take_bit 64 v"
  unfolding vm_M64_def by (rule and_push_bit_minus_one)

lemma vm_M32_and [mask_simps, simp]: "v AND vm_M32 = take_bit 32 v"
  unfolding vm_M32_def by (rule and_push_bit_minus_one)

lemma py_nth_nonneg: "0 \<le> i \<Longrightarrow> py_nth xs i = (if nat i < length xs then Some (xs ! nat i) else None)"
  by (auto simp: py_nth_def Let_def)

text \<open>More fuel never changes a result that has been reached.\<close>

lemma vm_loop_mono:
  "vm_loop fuel insns r pc = Inr v \<Longrightarrow> vm_loop (fuel + k) insns r pc = Inr v"
  by (induction fuel insns r pc rule: vm_loop.induct) (auto split: vm_next.splits)

lemma vm_run_det: "vm_run insns f = Inr v \<Longrightarrow> vm_run insns g = Inr w \<Longrightarrow> v = w"
  unfolding vm_run_def by (metis vm_loop_mono add.commute sum.inject(2))

definition reg_ok :: "int list \<Rightarrow> bool" where
  "reg_ok r \<longleftrightarrow> length r = 11 \<and> (\<forall>x \<in> set r. 0 \<le> x \<and> x < 2 ^ 64)"

lemma reg_okD: "reg_ok r \<Longrightarrow> n < 11 \<Longrightarrow> 0 \<le> r ! n \<and> r ! n < 2 ^ 64"
  by (simp add: reg_ok_def)

lemma reg_ok_update: "reg_ok r \<Longrightarrow> 0 \<le> v \<Longrightarrow> v < 2 ^ 64 \<Longrightarrow> reg_ok (r[n := v])"
  by (auto simp: reg_ok_def dest!: set_update_subset_insert [THEN subsetD])

end
