(* ===== verification/Synth_Ops.thy ===== *)
theory Synth_Ops
  imports Translator_State Bpf_VM
begin

text \<open>
  The synthesized operators: \<open>emit_arsh_const\<close> and \<open>emit_bswap\<close> of \<open>src/pybpf/translate.py\<close>, which
  build an arithmetic right shift and a byte swap out of divide, multiply, and, or.  The lemmas say
  that running the emitted ops with the repository's evaluator gives what the reference
  interpreter computes, and that only the target and scratch headers are written.
\<close>

section \<open>The emitters\<close>

definition emit_arsh_const :: "nat \<Rightarrow> nat \<Rightarrow> int \<Rightarrow> nat \<Rightarrow> tstate \<Rightarrow> tstate" where
  "emit_arsh_const idx reg k wb s =
     (if k \<le> 0 \<or> k \<ge> int wb
      then (if k \<noteq> 0 then unsupported idx (ArshRange k wb) s else s)
      else
        let w = (if wb = 32 then W32 else W64);
            (t_sign, s) = fresh_tmp idx s;
            (t_mask, s) = fresh_tmp idx s;
            sign_div = push_bit (if wb = 32 then 31 else 63) 1;
            mask = push_bit (wb - nat k) (push_bit (nat k) 1 - 1);
            mask = (if wb = 32 then mask AND 0xffffffff else mask);
            s = emit (op_binop DivOp w (hdr reg) (konst sign_div) t_sign) s;
            s = emit (op_binop MulOp w (hdr t_sign) (konst mask) t_mask) s;
            s = emit (op_binop DivOp w (hdr reg) (konst (push_bit (nat k) 1)) reg) s
        in emit (op_binop OrOp w (hdr reg) (hdr t_mask) reg) s)"

text \<open>The body of the byte loop of \<open>emit_bswap\<close>, for byte \<open>i\<close>.\<close>

definition bswap_byte :: "nat \<Rightarrow> nat \<Rightarrow> nat \<Rightarrow> nat \<Rightarrow> nat \<Rightarrow> tstate \<Rightarrow> tstate" where
  "bswap_byte nbytes t_src t_acc t_b i s =
     (let up = 8 * (nbytes - 1 - i);
          s = (if i = 0 then emit (op_move t_b t_src) s
               else emit (op_binop DivOp W64 (hdr t_src) (konst (push_bit (8 * i) 1)) t_b) s);
          s = emit (op_binop AndOp W64 (hdr t_b) (konst 0xff) t_b) s;
          s = (if up \<noteq> 0 then emit (op_binop MulOp W64 (hdr t_b) (konst (push_bit up 1)) t_b) s
               else s)
      in emit (op_binop OrOp W64 (hdr t_acc) (hdr t_b) t_acc) s)"

definition emit_bswap :: "nat \<Rightarrow> nat \<Rightarrow> nat \<Rightarrow> nat \<Rightarrow> tstate \<Rightarrow> tstate" where
  "emit_bswap idx sr nbytes target s =
     (if nbytes \<le> 1 then (if sr \<noteq> target then emit (op_move target sr) s else s)
      else
        let (t_src, s) = fresh_tmp idx s;
            (t_acc, s) = fresh_tmp idx s;
            (t_b, s) = fresh_tmp idx s;
            s = emit (op_move t_src sr) s;
            s = emit (op_set t_acc 0) s;
            s = fold (bswap_byte nbytes t_src t_acc t_b) [0..<nbytes] s
        in emit (op_move target t_acc) s)"

section \<open>Arithmetic behind the shift\<close>

text \<open>The signed value of a \<open>Suc b\<close>-bit pattern, shifted right, back in \<open>Suc b\<close> bits.\<close>

definition arsh :: "nat \<Rightarrow> int \<Rightarrow> nat \<Rightarrow> int" where
  "arsh bits x k = take_bit bits (drop_bit k (vm_s x bits))"

lemma vm_s_cases:
  assumes "0 \<le> x" "x < 2 ^ Suc b"
  shows "vm_s x (Suc b) = (if x < 2 ^ b then x else x - 2 ^ Suc b)"
  using assms by (auto simp: vm_s_def drop_bit_eq_div push_bit_of_1 div_eq_0_iff
      zdiv_eq_0_iff not_less)

lemma sign_bit:
  assumes "0 \<le> (x::int)" "x < 2 ^ Suc b"
  shows "x div 2 ^ b = (if x < 2 ^ b then 0 else 1)"
proof (cases "x < 2 ^ b")
  case True
  with assms show ?thesis by simp
next
  case False
  then have "x div 2 ^ b = (x - 2 ^ b) div 2 ^ b + 1"
    using div_add_self2 [of "2 ^ b" "x - 2 ^ b"] by simp
  moreover have "(x - 2 ^ b) div 2 ^ b = 0"
    using assms False by (simp add: div_pos_pos_trivial)
  ultimately show ?thesis using False by simp
qed

text \<open>
  The two partial results of the source's comment occupy disjoint bits: the logical shift is below
  \<open>2^(n-k)\<close> and the sign mask is a multiple of it.
\<close>

lemma arsh_synth:
  assumes x: "0 \<le> x" "x < 2 ^ n" and k: "0 < k" "k < n"
  shows "(x div 2 ^ k) OR ((x div 2 ^ (n - 1)) * ((2 ^ k - 1) * 2 ^ (n - k))) = arsh n x k"
proof -
  obtain b where n: "n = Suc b" using k by (cases n) auto
  have two: "(2::int) ^ n = 2 ^ k * 2 ^ (n - k)"
    using k by (simp flip: power_add)
  have lo: "0 \<le> x div 2 ^ k"
    using x by (simp add: pos_imp_zdiv_nonneg_iff)
  have hi: "x div 2 ^ k < 2 ^ (n - k)"
    using x two by (intro int_div_less) simp_all
  note lo = lo hi
  show ?thesis
  proof (cases "x < 2 ^ b")
    case True
    then have "x div 2 ^ k < 2 ^ n"
      by (intro order.strict_trans2 [OF lo(2)]) simp
    with True x n lo show ?thesis
      by (simp add: sign_bit arsh_def vm_s_cases drop_bit_eq_div take_bit_int_id)
  next
    case False
    have "(x div 2 ^ k) OR ((2 ^ k - 1) * 2 ^ (n - k)) = x div 2 ^ k + (2 ^ k - 1) * 2 ^ (n - k)"
      using lo by (intro or_shifted_eq_add)
    also have "\<dots> = x div 2 ^ k - 2 ^ (n - k) + 2 ^ n"
      by (simp add: two left_diff_distrib)
    also have "\<dots> = (x - 2 ^ n) div 2 ^ k + 2 ^ n"
      using div_mult_self2 [of "2 ^ k" x "- (2 ^ (n - k)) :: int"] by (simp add: two)
    finally have eq: "(x div 2 ^ k) OR ((2 ^ k - 1) * 2 ^ (n - k)) = (x - 2 ^ n) div 2 ^ k + 2 ^ n" .
    moreover have "0 \<le> (x div 2 ^ k) OR ((2 ^ k - 1) * 2 ^ (n - k))"
      using lo by simp
    moreover have "(x - 2 ^ n) div 2 ^ k < 0"
      using x by (simp add: pos_imp_zdiv_neg_iff)
    ultimately have "take_bit n ((x - 2 ^ n) div 2 ^ k)
        = (x div 2 ^ k) OR ((2 ^ k - 1) * 2 ^ (n - k))"
      using take_bit_int_id [of "(x - 2 ^ n) div 2 ^ k + 2 ^ n" n]
      by (simp add: take_bit_eq_mod)
    with False x n show ?thesis
      by (simp add: sign_bit arsh_def vm_s_cases drop_bit_eq_div)
  qed
qed

section \<open>The shift, run\<close>

text \<open>
  What an emitter may disturb: nothing but the header map at its target and in the scratch pool
  (headers 30 to 93), the op list and the scratch cursor.
\<close>

lemma emit_arsh_const_eval:
  fixes s :: tstate and idx :: nat
  assumes wb: "wb = 32 \<or> wb = 64" and k: "0 < k" "k < wb"
    and tmp: "t_tmp_next s + 2 \<le> 64" and reg: "reg < 30 + t_tmp_next s"
    and x: "0 \<le> rd (after s h) reg" "rd (after s h) reg < 2 ^ wb"
  defines "s' \<equiv> emit_arsh_const idx reg (int k) wb s"
  shows "rd (after s' h) reg = arsh wb (rd (after s h) reg) k"
    and "r < 30 \<Longrightarrow> r \<noteq> reg \<Longrightarrow> rd (after s' h) r = rd (after s h) r"
    and "t_had_error s' = t_had_error s"
proof -
  let ?x = "rd (after s h) reg"
  let ?m = "(2 ^ k - 1) * 2 ^ (wb - k) :: int"
  obtain w where w: "(if wb = 32 then W32 else W64) = w" "width_bits w = wb"
    using wb by auto
  have wb64: "wb \<le> 64" and wb1: "wb - Suc 0 < 64" using wb by auto
  have sd: "push_bit (if wb = 32 then 31 else 63) 1 = (2::int) ^ (wb - 1)"
    using wb by (auto simp: push_bit_of_1)
  have two: "(2::int) ^ wb = 2 ^ k * 2 ^ (wb - k)"
    using k by (simp flip: power_add)
  have mask: "take_bit wb ?m = ?m"
    by (rule take_bit_int_id) (simp_all add: two left_diff_distrib)
  then have mask': "(if wb = 32 then ?m AND 0xffffffff else ?m) = ?m"
    using wb by (auto simp: and_m32)
  have sgn: "take_bit wb (?x div 2 ^ (wb - Suc 0)) = ?x div 2 ^ (wb - Suc 0)"
    using x k sign_bit [of ?x "wb - 1"] by (intro take_bit_int_id) (simp_all split: if_splits)
  have tb: "take_bit wb (take_bit 64 (v::int)) = take_bit wb v" for v
    using wb64 by (simp add: min_def)
  have x': "take_bit wb ?x = ?x"
    using x by (rule take_bit_int_id)
  have s': "s' = emit (op_binop OrOp w (hdr reg) (hdr (31 + t_tmp_next s)) reg)
      (emit (op_binop DivOp w (hdr reg) (konst (2 ^ k)) reg)
      (emit (op_binop MulOp w (hdr (30 + t_tmp_next s)) (konst ?m) (31 + t_tmp_next s))
      (emit (op_binop DivOp w (hdr reg) (konst (2 ^ (wb - 1))) (30 + t_tmp_next s))
      (s\<lparr>t_tmp_next := t_tmp_next s + 2\<rparr>))))"
    using k tmp mask' w(1) sd
    by (simp add: s'_def emit_arsh_const_def Let_def push_bit_eq_mult)
  have "rd (after s' h) reg = take_bit wb ((?x div 2 ^ k) OR ((?x div 2 ^ (wb - 1)) * ?m))"
    using reg k x mask wb64 wb1 sgn by (simp add: s' w(2) tb x' take_bit_or)
  also have "\<dots> = take_bit wb (arsh wb ?x k)"
    by (simp only: arsh_synth [OF x k])
  also have "\<dots> = arsh wb ?x k"
    by (simp add: arsh_def)
  finally show "rd (after s' h) reg = arsh wb ?x k" .
  show "r < 30 \<Longrightarrow> r \<noteq> reg \<Longrightarrow> rd (after s' h) r = rd (after s h) r"
    by (simp add: s')
  show "t_had_error s' = t_had_error s"
    by (simp add: s')
qed

section \<open>The byte swap, run\<close>

text \<open>Byte \<open>i\<close> of a value, and the first \<open>i\<close> bytes read big-endian.\<close>

abbreviation byte_of :: "int \<Rightarrow> nat \<Rightarrow> int" where
  "byte_of x i \<equiv> x div 256 ^ i mod 256"

definition big_prefix :: "int \<Rightarrow> nat \<Rightarrow> int" where
  "big_prefix x i = from_bytes_big (map (byte_of x) [0..<i])"

lemma big_prefix_0 [simp]: "big_prefix x 0 = 0"
  by (simp add: big_prefix_def from_bytes_big_def)

lemma big_prefix_Suc [simp]: "big_prefix x (Suc i) = big_prefix x i * 256 + byte_of x i"
  by (simp add: big_prefix_def from_bytes_big_def)

lemma byte_of_bounds: "0 \<le> byte_of x i" "byte_of x i < 256"
  by simp_all

lemma big_prefix_bounds: "0 \<le> big_prefix x i \<and> big_prefix x i < 256 ^ i"
proof (induction i)
  case 0
  show ?case by simp
next
  case (Suc i)
  have "0 \<le> byte_of x i" "byte_of x i < 256" by (rule byte_of_bounds)+
  moreover have "big_prefix x i * 256 \<le> (256 ^ i - 1) * 256"
    using Suc.IH by simp
  ultimately show ?case
    using Suc.IH unfolding big_prefix_Suc power_Suc by linarith
qed

text \<open>
  The loop invariant: after \<open>i\<close> bytes the accumulator holds the first \<open>i\<close> bytes, most significant
  first, at the top of an \<open>n\<close>-byte field.  The new byte lies strictly below it, so the \<open>or\<close> adds.
\<close>

lemma bswap_accumulate:
  assumes "i < n"
  shows "(big_prefix x i * 256 ^ (n - i)) OR (byte_of x i * 256 ^ (n - Suc i))
         = big_prefix x (Suc i) * 256 ^ (n - Suc i)"
proof -
  have pow: "(256::int) ^ m = 2 ^ (8 * m)" for m
    by (simp add: power_mult)
  have step: "(256::int) ^ (n - i) = 256 * 256 ^ (n - Suc i)"
    using assms by (simp flip: power_Suc add: Suc_diff_Suc)
  have "byte_of x i * 256 ^ (n - Suc i) < 256 ^ (n - i)"
    using byte_of_bounds [of x i] by (simp add: step)
  then have "(big_prefix x i * 256 ^ (n - i)) OR (byte_of x i * 256 ^ (n - Suc i))
      = byte_of x i * 256 ^ (n - Suc i) + big_prefix x i * 256 ^ (n - i)"
    using byte_of_bounds [of x i] unfolding pow by (intro or_shifted_eq_add') simp_all
  then show ?thesis
    by (simp add: step algebra_simps)
qed

lemma bswap_acc_bound:
  assumes "i \<le> n" "n \<le> 8"
  shows "0 \<le> big_prefix x i * 256 ^ (n - i)" "big_prefix x i * 256 ^ (n - i) < 2 ^ 64"
proof -
  have "big_prefix x i * 256 ^ (n - i) < 256 ^ i * 256 ^ (n - i)"
    using big_prefix_bounds [of x i] by (intro mult_strict_right_mono) simp_all
  also have "\<dots> = 256 ^ n"
    using assms by (simp flip: power_add)
  also have "\<dots> \<le> 256 ^ 8"
    using assms by (intro power_increasing) simp_all
  finally show "big_prefix x i * 256 ^ (n - i) < 2 ^ 64" by simp
  show "0 \<le> big_prefix x i * 256 ^ (n - i)"
    using big_prefix_bounds [of x i] by simp
qed

lemma bswap_byte_eval:
  fixes s :: tstate
  assumes d: "t_src \<noteq> t_acc" "t_src \<noteq> t_b" "t_acc \<noteq> t_b" and n: "i < n" "n \<le> 8"
    and x: "rd (after s h) t_src = x" "0 \<le> x" "x < 2 ^ 64"
    and acc: "rd (after s h) t_acc = big_prefix x i * 256 ^ (n - i)"
  defines "s' \<equiv> bswap_byte n t_src t_acc t_b i s"
  shows "rd (after s' h) t_src = x"
    and "rd (after s' h) t_acc = big_prefix x (Suc i) * 256 ^ (n - Suc i)"
    and "r \<notin> {t_acc, t_b} \<Longrightarrow> rd (after s' h) r = rd (after s h) r"
    and "t_had_error s' = t_had_error s" "t_tmp_next s' = t_tmp_next s"
proof -
  let ?sh = "\<lambda>s. if i = 0 then emit (op_move t_b t_src) s
               else emit (op_binop DivOp W64 (hdr t_src) (konst (push_bit (8 * i) 1)) t_b) s"
  let ?an = "emit (op_binop AndOp W64 (hdr t_b) (konst 0xff) t_b)"
  let ?mu = "\<lambda>s. if 8 * (n - 1 - i) \<noteq> 0
               then emit (op_binop MulOp W64 (hdr t_b) (konst (push_bit (8 * (n - 1 - i)) 1)) t_b) s
               else s"
  have s': "s' = emit (op_binop OrOp W64 (hdr t_acc) (hdr t_b) t_acc) (?mu (?an (?sh s)))"
    by (simp add: s'_def bswap_byte_def Let_def)
  have pow: "(2::int) ^ (8 * m) = 256 ^ m" for m
    by (simp add: power_mult)
  have p64: "take_bit 64 (256 ^ m) = (256 ^ m :: int)" if "m < 8" for m
    using that unfolding pow [symmetric] by simp
  have x64: "take_bit 64 x = x" using x by (intro take_bit_int_id)
  have q: "take_bit 64 (x div 256 ^ i) = x div 256 ^ i"
    using int_div_bounds [OF x(2,3), of "256 ^ i"] by (intro take_bit_int_id) simp_all
  have keep: "rd (after (?mu (?an (?sh s))) h) r = rd (after s h) r" if "r \<noteq> t_b" for r
    using that by simp
  have "rd (after (?sh s) h) t_b = x div 256 ^ i"
    using n x(1) x64 q p64 [of i] by (simp add: push_bit_of_1 pow)
  then have an: "rd (after (?an (?sh s)) h) t_b = byte_of x i"
    using q and_exp_minus_one [of "x div 256 ^ i" 8]
    by (simp add: take_bit_eq_mod del: eval_op_move)
  have by64: "take_bit 64 (byte_of x i) = byte_of x i"
    using byte_of_bounds [of x i] by (intro take_bit_int_id) simp_all
  have top: "byte_of x i * 256 ^ (n - Suc i) < 2 ^ 64"
  proof -
    have "byte_of x i * 256 ^ (n - Suc i) < 256 * 256 ^ (n - Suc i)"
      using byte_of_bounds [of x i] by (intro mult_strict_right_mono) simp_all
    also have "\<dots> = 256 ^ Suc (n - Suc i)" by simp
    also have "\<dots> \<le> 256 ^ 8"
      using n by (intro power_increasing) simp_all
    finally show ?thesis by simp
  qed
  have mu: "rd (after (?mu (?an (?sh s))) h) t_b = byte_of x i * 256 ^ (n - Suc i)"
  proof (cases "8 * (n - 1 - i) = 0")
    case True
    with an n by64 show ?thesis by simp
  next
    case False
    have "take_bit 64 (256 ^ (n - Suc i)) = (256 ^ (n - Suc i) :: int)"
      using n by (intro p64) simp
    moreover note by64
    moreover have "take_bit 64 (byte_of x i * 256 ^ (n - Suc i)) = byte_of x i * 256 ^ (n - Suc i)"
      using top byte_of_bounds [of x i] by (intro take_bit_int_id) simp_all
    ultimately show ?thesis
      using an False by (simp add: push_bit_of_1 pow del: eval_op_move)
  qed
  show "rd (after s' h) t_src = x"
    using keep [of t_src] d x by (simp add: s')
  show "r \<notin> {t_acc, t_b} \<Longrightarrow> rd (after s' h) r = rd (after s h) r"
    using keep [of r] by (simp add: s')
  have "rd (after s' h) t_acc
      = take_bit 64 ((big_prefix x i * 256 ^ (n - i)) OR (byte_of x i * 256 ^ (n - Suc i)))"
    using keep [of t_acc] d acc mu by (simp add: s' take_bit_or)
  also have "\<dots> = big_prefix x (Suc i) * 256 ^ (n - Suc i)"
    using bswap_accumulate [OF n(1)] bswap_acc_bound [of "Suc i" n x] n
    by (simp only: take_bit_int_id Suc_leI)
  finally show "rd (after s' h) t_acc = big_prefix x (Suc i) * 256 ^ (n - Suc i)" .
  show "t_had_error s' = t_had_error s" "t_tmp_next s' = t_tmp_next s" 
    by (simp_all add: s')
qed

lemma bswap_loop_eval:
  fixes s :: tstate
  assumes d: "t_src \<noteq> t_acc" "t_src \<noteq> t_b" "t_acc \<noteq> t_b" and n: "m \<le> n" "n \<le> 8"
    and x: "rd (after s h) t_src = x" "0 \<le> x" "x < 2 ^ 64"
    and acc: "rd (after s h) t_acc = 0"
  defines "s' \<equiv> \<lambda>m. fold (bswap_byte n t_src t_acc t_b) [0..<m] s"
  shows "rd (after (s' m) h) t_src = x
     \<and> rd (after (s' m) h) t_acc = big_prefix x m * 256 ^ (n - m)
     \<and> (\<forall>r. r \<notin> {t_acc, t_b} \<longrightarrow> rd (after (s' m) h) r = rd (after s h) r)
     \<and> t_had_error (s' m) = t_had_error s \<and> t_tmp_next (s' m) = t_tmp_next s"
  using n(1)
proof (induction m)
  case 0
  show ?case using x acc by (simp add: s'_def)
next
  case (Suc m)
  have st: "s' (Suc m) = bswap_byte n t_src t_acc t_b m (s' m)"
    by (simp add: s'_def)
  have ih: "rd (after (s' m) h) t_src = x" "rd (after (s' m) h) t_acc = big_prefix x m * 256 ^ (n - m)"
    "\<forall>r. r \<notin> {t_acc, t_b} \<longrightarrow> rd (after (s' m) h) r = rd (after s h) r"
    "t_had_error (s' m) = t_had_error s" "t_tmp_next (s' m) = t_tmp_next s"
    using Suc.IH Suc.prems by simp_all
  have "m < n" using Suc.prems by simp
  note e = bswap_byte_eval [OF d this n(2) ih(1) x(2,3) ih(2)]
  show ?case
  proof (intro conjI)
    show "\<forall>r. r \<notin> {t_acc, t_b} \<longrightarrow> rd (after (s' (Suc m)) h) r = rd (after s h) r"
      unfolding st using e(3) ih(3) by (intro allI impI) (simp only: not_False_eq_True)
    show "rd (after (s' (Suc m)) h) t_src = x" unfolding st by (rule e(1))
    show "rd (after (s' (Suc m)) h) t_acc = big_prefix x (Suc m) * 256 ^ (n - Suc m)" unfolding st by (rule e(2))
    show "t_had_error (s' (Suc m)) = t_had_error s" "t_tmp_next (s' (Suc m)) = t_tmp_next s"
      unfolding st using e(4,5) ih(4,5) by (simp_all only:)
  qed
qed

text \<open>The \<open>n\<close>-byte swap of a header: the same header may be source and target.\<close>

lemma emit_bswap_eval:
  fixes s :: tstate and idx :: nat
  assumes n: "2 \<le> n" "n \<le> 8" and tmp: "t_tmp_next s + 3 \<le> 64"
    and t: "target < 30" and sr: "sr < 30 + t_tmp_next s"
    and x: "0 \<le> rd (after s h) sr" "rd (after s h) sr < 2 ^ 64"
  defines "s' \<equiv> emit_bswap idx sr n target s"
  shows "rd (after s' h) target = big_prefix (rd (after s h) sr) n"
    and "r < 30 \<Longrightarrow> r \<noteq> target \<Longrightarrow> rd (after s' h) r = rd (after s h) r"
    and "t_had_error s' = t_had_error s"
proof -
  let ?x = "rd (after s h) sr"
  let ?a = "30 + t_tmp_next s" and ?b = "31 + t_tmp_next s" and ?c = "32 + t_tmp_next s"
  let ?s1 = "emit (op_set ?b 0) (emit (op_move ?a sr) (s\<lparr>t_tmp_next := t_tmp_next s + 3\<rparr>))"
  let ?s2 = "fold (bswap_byte n ?a ?b ?c) [0..<n] ?s1"
  have s': "s' = emit (op_move target ?b) ?s2"
    using n tmp by (simp add: s'_def emit_bswap_def Let_def numeral_3_eq_3)
  have "rd (after ?s1 h) ?a = ?x" "rd (after ?s1 h) ?b = 0"
    using x by (simp_all add: take_bit_int_id)
  then have loop: "rd (after ?s2 h) ?b = big_prefix ?x n"
    "\<And>r. r \<notin> {?b, ?c} \<Longrightarrow> rd (after ?s2 h) r = rd (after ?s1 h) r"
    "t_had_error ?s2 = t_had_error ?s1"
    using bswap_loop_eval [of ?a ?b ?c n n ?s1 h ?x] n x by simp_all
  have "take_bit 64 (big_prefix ?x n) = big_prefix ?x n"
    using bswap_acc_bound [of n n ?x] n by (intro take_bit_int_id) simp_all
  with loop(1) show "rd (after s' h) target = big_prefix ?x n"
    by (simp add: s')
  show "r < 30 \<Longrightarrow> r \<noteq> target \<Longrightarrow> rd (after s' h) r = rd (after s h) r"
    by (simp add: s' loop(2))
  show "t_had_error s' = t_had_error s"
    by (simp add: s' loop(3))
qed

text \<open>What the reference interpreter computes for the same swap.\<close>

lemma from_bytes_big_to_bytes_little:
  assumes "0 \<le> v" "v < 256 ^ n"
  shows "to_bytes_little v (int n) = Inr (map (byte_of v) [0..<n])"
    and "from_bytes_big (map (byte_of v) [0..<n]) = big_prefix v n"
  using assms by (simp_all add: to_bytes_little_def big_prefix_def)

text \<open>The low \<open>n\<close> bytes of a value are all its swap depends on.\<close>

lemma byte_of_take_bit:
  assumes "i < n" shows "byte_of (take_bit (8 * n) x) i = byte_of x i"
proof -
  have "byte_of y i = take_bit 8 (drop_bit (8 * i) y)" for y :: int
    by (simp add: take_bit_eq_mod drop_bit_eq_div power_mult)
  moreover have "8 \<le> 8 * n - 8 * i"
    using assms by simp
  then have "take_bit 8 (drop_bit (8 * i) (take_bit (8 * n) x)) = take_bit 8 (drop_bit (8 * i) x)"
    by (simp add: drop_bit_take_bit min_def)
  ultimately show ?thesis by simp
qed

lemma big_prefix_take_bit: "m \<le> n \<Longrightarrow> big_prefix (take_bit (8 * n) x) m = big_prefix x m"
  by (induction m) (simp_all add: byte_of_take_bit)

end
