(* ===== verification/Alu.thy ===== *)
theory Alu
  imports Synth_Ops
begin

text \<open>
  \<open>translate_alu\<close> of \<open>src/pybpf/translate.py\<close>: the abstract effect of an ALU instruction on the
  provenance state, and the ops emitted for it.  The simulation lemma says that whenever the
  translator reports nothing, the reference interpreter executes the instruction without an
  exception and the emitted ops change the register headers exactly as it changes its registers.
\<close>

section \<open>The translation\<close>

definition set_reg :: "nat \<Rightarrow> reg_info \<Rightarrow> abs_state \<Rightarrow> abs_state" where
  "set_reg n v st = st\<lparr>a_reg := (a_reg st)[n := v]\<rparr>"

text \<open>"Abstract effect first": the registers' provenance after the instruction.\<close>

definition alu_abstract :: "insn \<Rightarrow> bool \<Rightarrow> abs_state \<Rightarrow> abs_state" where
  "alu_abstract i is64 st =
     (let opc = i_op i; d = a_reg st ! dst i; sr = a_reg st ! src i; im = imm i AND MASK64
      in if opc = BPF_MOV then
           (let st = (if is_imm i
                      then set_reg (dst i) (scalar_const (if is64 then im else imm i AND 0xffffffff)) st
                      else set_reg (dst i) sr st)
            in if \<not> is64 \<and> \<not> is_imm i then set_reg (dst i) SCALAR st else st)
         else if opc = BPF_ADD \<and> is64 then
           (if is_imm i then
              (if ri_tag d \<noteq> T_SCALAR \<and> ri_known d
               then set_reg (dst i) (d\<lparr>ri_off := ri_off d + imm i\<rparr>) st
               else if ri_tag d \<noteq> T_SCALAR then set_reg (dst i) (d\<lparr>ri_known := False\<rparr>) st
               else st)
            else if ri_tag d \<noteq> T_SCALAR \<and> ri_tag sr = T_SCALAR
            then set_reg (dst i) (d\<lparr>ri_known := False\<rparr>) st
            else if ri_tag d = T_SCALAR \<and> ri_tag sr \<noteq> T_SCALAR
            then set_reg (dst i) (sr\<lparr>ri_known := False\<rparr>) st
            else set_reg (dst i) SCALAR st)
         else set_reg (dst i) SCALAR st)"

definition alu_emit :: "nat \<Rightarrow> insn \<Rightarrow> bool \<Rightarrow> tstate \<Rightarrow> tstate" where
  "alu_emit idx i is64 s =
     (let opc = i_op i; hd = H_REG (dst i); hs = H_REG (src i);
          im = imm i AND MASK64;
          w = (if is64 then W64 else W32);
          width_bits = (if is64 then 64 else 32 :: nat)
      in
      if opc = BPF_MOV then
        (if is64 then
           (if is_imm i then emit (op_set hd im) s else emit (op_move hd hs) s)
         else if is_imm i then emit (op_set hd (imm i AND 0xffffffff)) s
         else let (t, s) = fresh_tmp idx s;
                  s = emit (op_cast W64 W32 (hdr hs) t) s
              in emit (op_cast W32 W64 (hdr t) hd) s)
      else if opc = BPF_NEG then
        (if is64 then emit (op_binop SubOp W64 (konst 0) (hdr hd) hd) s
         else let (t, s) = fresh_tmp idx s;
                  s = emit (op_cast W64 W32 (hdr hd) t) s;
                  s = emit (op_binop SubOp W32 (konst 0) (hdr t) t) s
              in emit (op_cast W32 W64 (hdr t) hd) s)
      else if opc = BPF_LSH \<or> opc = BPF_RSH \<or> opc = BPF_ARSH then
        (if \<not> is_imm i then unsupported idx ShiftByRegister s
         else let k = imm i AND (int width_bits - 1);
                  (t, s) = (if is64 then (hd, s) else fresh_tmp idx s);
                  s = (if \<not> is64 then emit (op_cast W64 W32 (hdr hd) t) s else s);
                  s = (if opc = BPF_ARSH then emit_arsh_const idx t k width_bits s
                       else if k \<noteq> 0 then
                         emit (op_binop (if opc = BPF_LSH then MulOp else DivOp) w
                                 (hdr t) (konst (push_bit (nat k) 1)) t) s
                       else s)
              in if \<not> is64 then emit (op_cast W32 W64 (hdr t) hd) s else s)
      else if opc = BPF_END then
        (let bits = imm i
         in if bits \<notin> {16, 32, 64} then unsupported idx (EndWidth bits) s
            else let s = (if bits \<noteq> 64
                          then emit (op_binop AndOp W64 (hdr hd)
                                       (konst (push_bit (nat bits) 1 - 1)) hd) s
                          else s)
            in if is64 \<or> src_field (code i) = BPF_X
               then emit_bswap idx hd (nat (bits div 8)) hd s else s)
      else
        (case ALU_BINOP opc of
           None \<Rightarrow> unsupported idx (AluOp opc) s
         | Some binop \<Rightarrow>
             if is64 then
               emit (op_binop binop W64 (hdr hd) (if is_imm i then konst im else hdr hs) hd) s
             else
               let (t1, s) = fresh_tmp idx s;
                   s = emit (op_cast W64 W32 (hdr hd) t1) s;
                   s = (if is_imm i
                        then emit (op_binop binop W32 (hdr t1) (konst (imm i AND 0xffffffff)) t1) s
                        else let (t2, s) = fresh_tmp idx s;
                                 s = emit (op_cast W64 W32 (hdr hs) t2) s
                             in emit (op_binop binop W32 (hdr t1) (hdr t2) t1) s)
               in emit (op_cast W32 W64 (hdr t1) hd) s))"

definition translate_alu :: "nat \<Rightarrow> insn \<Rightarrow> bool \<Rightarrow> abs_state \<Rightarrow> tstate \<Rightarrow> abs_state \<times> tstate" where
  "translate_alu idx i is64 st s =
     (if dst i \<ge> NUM_BPF_REGS \<or> src i \<ge> NUM_BPF_REGS
      then (st, unsupported idx RegisterRange s)
      else (alu_abstract i is64 st, alu_emit idx i is64 s))"

section \<open>The simulation relation\<close>

text \<open>
  The register headers hold the interpreter's registers, each a canonical 64-bit value.
\<close>

definition sim :: "int list \<Rightarrow> hdrs \<Rightarrow> bool" where
  "sim r h \<longleftrightarrow> reg_ok r \<and> (\<forall>n < 11. rd h (H_REG n) = r ! n)"

lemma simD: "sim r h \<Longrightarrow> n < 11 \<Longrightarrow> rd h (10 + n) = r ! n"
  by (simp add: sim_def)

lemma sim_range: "sim r h \<Longrightarrow> n < 11 \<Longrightarrow> 0 \<le> r ! n \<and> r ! n < 2 ^ 64"
  using reg_okD [of r n] by (simp add: sim_def)

lemma sim_length: "sim r h \<Longrightarrow> length r = 11"
  by (simp add: sim_def reg_ok_def)

text \<open>
  \<open>sets_reg d v h h'\<close>: \<open>h'\<close> is \<open>h\<close> with register header \<open>d\<close> set to \<open>v\<close>; only scratch headers (from
  30 on) may differ otherwise.  This is what one translated instruction does.
\<close>

definition sets_reg :: "nat \<Rightarrow> int \<Rightarrow> hdrs \<Rightarrow> hdrs \<Rightarrow> bool" where
  "sets_reg d v h h' \<longleftrightarrow>
     rd h' (10 + d) = v \<and> (\<forall>n < 30. n \<noteq> 10 + d \<longrightarrow> rd h' n = rd h n)"

lemma sim_sets_reg:
  assumes "sim r h" "sets_reg d v h h'" "d < 11" "0 \<le> v" "v < 2 ^ 64"
  shows "sim (r[d := v]) h'" "rd h' 1 = rd h 1"
proof -
  have "rd h' (10 + n) = r[d := v] ! n" if "n < 11" for n
    using assms that by (cases "n = d") (auto simp: sets_reg_def sim_def reg_ok_def)
  then show "sim (r[d := v]) h'"
    using assms by (simp add: sim_def reg_ok_update)
  show "rd h' 1 = rd h 1"
    using assms by (simp add: sets_reg_def)
qed

section \<open>The interpreter's arithmetic in take-bit form\<close>

lemma vm_alu_binop:
  assumes "ALU_BINOP opc = Some f" "0 \<le> x" "x < 2 ^ b" "0 \<le> y" "y < 2 ^ b"
  shows "vm_alu opc x y b = Some (take_bit b (eval_binop f x y))"
proof -
  have x: "take_bit b x = x" and y: "take_bit b y = y"
    using assms by (simp_all add: take_bit_int_id)
  show ?thesis
    using assms(1) unfolding ALU_BINOP_def vm_alu_def Let_def and_push_bit_minus_one
    by (auto simp: x y take_bit_and take_bit_or take_bit_xor split: if_splits)
qed

lemma and_shift_mask: "(v::int) AND 63 = take_bit 6 v" "(v::int) AND 31 = take_bit 5 v"
  using and_exp_minus_one [of v 6] and_exp_minus_one [of v 5] by simp_all

lemma take_bit_small: "take_bit 6 (v::int) < 64" "take_bit 5 (v::int) < 32"
  using take_bit_int_less_exp [of 6 v] take_bit_int_less_exp [of 5 v] by simp_all

text \<open>One ALU step of the interpreter, byte swaps aside.\<close>

lemma vm_alu_step_main:
  assumes "sim r h" "dst i < 11" "src i < 11" "i_op i \<noteq> BPF_END"
    and bits: "bits = (if i_cls i = BPF_ALU64 then 64 else 32)"
    and y: "y = (if i_op i = BPF_NEG then 0 else if is_imm i then take_bit bits (imm i)
                 else take_bit bits (r ! src i))"
    and res: "vm_alu (i_op i) (take_bit bits (r ! dst i)) y bits = Some v" "0 \<le> v" "v < 2 ^ bits"
  shows "vm_alu_step i r = Inr (r[dst i := v])"
proof -
  have len: "length r = 11" using assms(1) by (rule sim_length)
  have v: "take_bit bits v = v" using res(2,3) by (rule take_bit_int_id)
  show ?thesis
    using assms(2-4) bits y res(1) v
    by (cases "i_cls i = BPF_ALU64"; cases "is_imm i"; cases "i_op i = BPF_NEG")
      (simp_all add: vm_alu_step_def Let_def len and_m64 and_m32 push_bit_of_1)
qed

lemma alu_binop_sim:
  fixes s :: tstate and idx :: nat
  assumes sim: "sim r (after s h)" and tmp: "t_tmp_next s = 0"
    and regs: "dst i < 11" "src i < 11"
    and cls: "i_cls i = (if is64 then BPF_ALU64 else BPF_ALU)"
    and f: "ALU_BINOP (i_op i) = Some f"
  defines "s' \<equiv> alu_emit idx i is64 s"
  shows "\<exists>v. vm_alu_step i r = Inr (r[dst i := v]) \<and> sets_reg (dst i) v (after s h) (after s' h)
             \<and> 0 \<le> v \<and> v < 2 ^ 64"
    and "t_had_error s' = t_had_error s"
proof -
  let ?b = "if is64 then 64 else 32 :: nat"
  let ?x = "take_bit ?b (r ! dst i)"
  let ?y = "if is_imm i then take_bit ?b (imm i) else take_bit ?b (r ! src i)"
  let ?v = "take_bit ?b (eval_binop f ?x ?y)"
  have op: "i_op i \<notin> {BPF_MOV, BPF_NEG, BPF_LSH, BPF_RSH, BPF_ARSH, BPF_END}"
    using f by (auto simp: ALU_BINOP_def)
  have rd: "rd (after s h) (10 + dst i) = r ! dst i" "rd (after s h) (10 + src i) = r ! src i"
    using sim regs by (simp_all add: simD)
  have "vm_alu (i_op i) ?x ?y ?b = Some ?v"
    using f by (intro vm_alu_binop) (simp_all add: take_bit_int_less_exp)
  then have "vm_alu_step i r = Inr (r[dst i := ?v])"
    using op cls by (intro vm_alu_step_main [OF sim regs, where bits = ?b and y = ?y])
      (auto simp: take_bit_int_less_exp)
  moreover have "sets_reg (dst i) ?v (after s h) (after s' h)"
    using op f tmp regs rd
    by (cases is64; cases "is_imm i")
      (auto simp: s'_def alu_emit_def sets_reg_def Let_def and_m32 simp del: BPF_MOV_def)
  moreover have "0 \<le> ?v" "?v < 2 ^ 64"
    by simp_all
  ultimately show "\<exists>v. vm_alu_step i r = Inr (r[dst i := v])
      \<and> sets_reg (dst i) v (after s h) (after s' h) \<and> 0 \<le> v \<and> v < 2 ^ 64"
    by blast
  show "t_had_error s' = t_had_error s"
    using op f tmp by (cases is64; cases "is_imm i") (auto simp: s'_def alu_emit_def Let_def)
qed

lemma alu_mov_neg_sim:
  fixes s :: tstate and idx :: nat
  assumes sim: "sim r (after s h)" and tmp: "t_tmp_next s = 0"
    and regs: "dst i < 11" "src i < 11"
    and cls: "i_cls i = (if is64 then BPF_ALU64 else BPF_ALU)"
    and f: "i_op i = BPF_MOV \<or> i_op i = BPF_NEG"
  defines "s' \<equiv> alu_emit idx i is64 s"
  shows "\<exists>v. vm_alu_step i r = Inr (r[dst i := v]) \<and> sets_reg (dst i) v (after s h) (after s' h)
             \<and> 0 \<le> v \<and> v < 2 ^ 64"
    and "t_had_error s' = t_had_error s"
proof -
  let ?b = "if is64 then 64 else 32 :: nat"
  let ?x = "take_bit ?b (r ! dst i)"
  let ?y = "if i_op i = BPF_NEG then 0
            else if is_imm i then take_bit ?b (imm i) else take_bit ?b (r ! src i)"
  let ?v = "if i_op i = BPF_NEG then take_bit ?b (- ?x) else ?y"
  have rd: "rd (after s h) (10 + dst i) = r ! dst i" "rd (after s h) (10 + src i) = r ! src i"
    using sim regs by (simp_all add: simD)
  have "vm_alu (i_op i) ?x ?y ?b = Some ?v"
    using f unfolding vm_alu_def Let_def and_push_bit_minus_one
    by (elim disjE) (simp_all cong: if_weak_cong)
  then have "vm_alu_step i r = Inr (r[dst i := ?v])"
    using f cls by (intro vm_alu_step_main [OF sim regs, where bits = ?b and y = ?y])
      (auto simp: take_bit_int_less_exp)
  moreover have "sets_reg (dst i) ?v (after s h) (after s' h)"
    using f
  proof
    assume "i_op i = BPF_MOV"
    then show ?thesis
      using tmp regs rd
      by (cases is64; cases "is_imm i")
        (simp_all add: s'_def alu_emit_def sets_reg_def Let_def and_m32)
  next
    assume "i_op i = BPF_NEG"
    then show ?thesis
      using tmp regs rd
      by (cases is64) (simp_all add: s'_def alu_emit_def sets_reg_def Let_def)
  qed
  moreover have "0 \<le> ?v" "?v < 2 ^ 64"
    by simp_all
  ultimately show "\<exists>v. vm_alu_step i r = Inr (r[dst i := v])
      \<and> sets_reg (dst i) v (after s h) (after s' h) \<and> 0 \<le> v \<and> v < 2 ^ 64"
    by blast
  show "t_had_error s' = t_had_error s"
    using f tmp by (cases is64; cases "is_imm i") (auto simp: s'_def alu_emit_def Let_def)
qed

lemma arsh_0: "0 \<le> x \<Longrightarrow> x < 2 ^ b \<Longrightarrow> arsh b x 0 = x"
  by (auto simp: arsh_def vm_s_def push_bit_of_1 take_bit_int_id take_bit_eq_mod)

lemma alu_shift_sim:
  fixes s :: tstate and idx :: nat
  assumes sim: "sim r (after s h)" and tmp: "t_tmp_next s = 0"
    and regs: "dst i < 11" "src i < 11"
    and cls: "i_cls i = (if is64 then BPF_ALU64 else BPF_ALU)"
    and f: "i_op i \<in> {BPF_LSH, BPF_RSH, BPF_ARSH}" and imm: "is_imm i"
  defines "s' \<equiv> alu_emit idx i is64 s"
  shows "\<exists>v. vm_alu_step i r = Inr (r[dst i := v]) \<and> sets_reg (dst i) v (after s h) (after s' h)
             \<and> 0 \<le> v \<and> v < 2 ^ 64"
    and "t_had_error s' = t_had_error s"
proof -
  define b :: nat where "b = (if is64 then 64 else 32)"
  define k :: nat where "k = nat (imm i AND (int b - 1))"
  define t where "t = (if is64 then 10 + dst i else 30)"
  define x where "x = take_bit b (r ! dst i)"
  define s1 where "s1 = (if is64 then s else emit (op_cast W64 W32 (hdr (10 + dst i)) 30) (s\<lparr>t_tmp_next := 1\<rparr>))"
  have k: "int k = imm i AND (int b - 1)" "k < b"
    using take_bit_small [of "imm i"] by (auto simp: k_def b_def and_shift_mask)
  have k63: "is64 \<Longrightarrow> imm i AND 63 = int k" "\<not> is64 \<Longrightarrow> imm i AND 31 = int k"
    using k(1) by (auto simp: b_def)
  have rd: "rd (after s h) (10 + dst i) = r ! dst i"
    using sim regs by (simp_all add: simD)
  have r64: "take_bit 64 (r ! dst i) = r ! dst i"
    using sim_range [OF sim regs(1)] by (intro take_bit_int_id) simp_all
  have x: "0 \<le> x" "x < 2 ^ b"
    by (simp_all add: x_def)
  have s1: "rd (after s1 h) t = x" "t_tmp_next s1 \<le> 1" "t_had_error s1 = t_had_error s"
      "\<And>n. n < 30 \<Longrightarrow> rd (after s1 h) n = rd (after s h) n"
    using tmp rd r64 by (auto simp: s1_def t_def x_def b_def)
  have wb: "(if is64 then W64 else W32) = (if b = 64 then W64 else W32)"
    by (simp add: b_def)
  define s2 where "s2 = (if i_op i = BPF_ARSH then emit_arsh_const idx t (int k) b s1
      else if k \<noteq> 0 then emit (op_binop (if i_op i = BPF_LSH then MulOp else DivOp)
        (if is64 then W64 else W32) (hdr t) (konst (push_bit k 1)) t) s1 else s1)"
  define v where "v = (if i_op i = BPF_LSH then take_bit b (push_bit k x)
     else if i_op i = BPF_RSH then take_bit b (drop_bit k x) else arsh b x k)"
  have s': "s' = (if is64 then s2 else emit (op_cast W32 W64 (hdr t) (10 + dst i)) s2)"
    using f imm tmp k63
    by (cases is64) (auto simp: s'_def alu_emit_def Let_def s2_def s1_def t_def b_def)
  have v: "0 \<le> v" "v < 2 ^ b"
    by (auto simp: v_def arsh_def take_bit_int_less_exp)
  have b64: "(2::int) ^ b \<le> 2 ^ 64" by (simp add: b_def)
  have vm: "vm_alu_step i r = Inr (r[dst i := v])"
  proof (rule vm_alu_step_main [OF sim regs, where bits = b and y = "take_bit b (imm i)"])
    have "take_bit b (imm i) AND (int b - 1) = int k"
      unfolding k(1) by (auto simp: b_def and_shift_mask)
    then have kk: "nat (take_bit b (imm i) AND int (b - 1)) = k" by (auto simp: b_def)
    have "vm_alu (i_op i) x (take_bit b (imm i)) b = Some v"
      using f kk unfolding vm_alu_def Let_def and_push_bit_minus_one
      by (auto simp: v_def arsh_def)
    then show "vm_alu (i_op i) (take_bit b (r ! dst i)) (take_bit b (imm i)) b = Some v"
      by (simp add: x_def)
  qed (use f imm cls v in \<open>auto simp: b_def\<close>)
  have pk: "take_bit b (take_bit 64 (2 ^ k)) = (2 ^ k :: int)"
    using k(2) by (auto simp: b_def split: if_splits)
  have s2: "rd (after s2 h) t = v \<and> (\<forall>n < 30. n \<noteq> t \<longrightarrow> rd (after s2 h) n = rd (after s h) n)
      \<and> t_had_error s2 = t_had_error s"
  proof (cases "k = 0")
    case True
    then show ?thesis
      using f x s1 by (auto simp: s2_def v_def emit_arsh_const_def arsh_0 take_bit_int_id)
  next
    case False
    show ?thesis
    proof (cases "i_op i = BPF_ARSH")
      case True
      have pre: "b = 32 \<or> b = 64" "0 < k" "k < b" "t_tmp_next s1 + 2 \<le> 64"
        "t < 30 + t_tmp_next s1" "0 \<le> rd (after s1 h) t" "rd (after s1 h) t < 2 ^ b"
        using regs tmp s1(1,2) x k(2) \<open>k \<noteq> 0\<close> by (auto simp: b_def t_def s1_def)
      have eq: "s2 = emit_arsh_const idx t (int k) b s1" "v = arsh b x k"
        using True by (simp_all add: s2_def v_def)
      have "rd (after s2 h) t = v" "t_had_error s2 = t_had_error s1"
        unfolding eq using emit_arsh_const_eval(1,3) [OF pre, where idx = idx] s1(1) by simp_all
      moreover have "rd (after s2 h) n = rd (after s h) n" if "n < 30" "n \<noteq> t" for n
        using emit_arsh_const_eval(2) [OF pre that, of idx] s1(4) [OF that(1)] eq(1) by simp
      ultimately show ?thesis
        using s1(3) by simp
    next
      case False
      have "(if is64 then W64 else W32) = (if b = 64 then W64 else W32)"
        by (simp add: b_def)
      with False show ?thesis
        using f \<open>k \<noteq> 0\<close> s1 x pk
        by (cases "i_op i = BPF_LSH"; cases is64)
           (simp_all add: s2_def v_def b_def push_bit_of_1 push_bit_eq_mult drop_bit_eq_div take_bit_int_id)
    qed
  qed
  have dist: "sets_reg (dst i) v (after s h) (after s' h) \<and> t_had_error s' = t_had_error s"
    using s2 regs v by (auto simp: s' sets_reg_def t_def b_def take_bit_int_id)
  then show "t_had_error s' = t_had_error s" by simp
  show "\<exists>v. vm_alu_step i r = Inr (r[dst i := v]) \<and> sets_reg (dst i) v (after s h) (after s' h)
             \<and> 0 \<le> v \<and> v < 2 ^ 64"
    using vm dist v b64 by (intro exI [of _ v]) auto
qed

lemma vm_end_eq:
  assumes "imm i \<in> {16, 32, 64}" "0 \<le> x" "x < 2 ^ 64"
  defines "v \<equiv> take_bit (nat (imm i)) x"
  shows "vm_end i x = Inr (if i_cls i = BPF_ALU64 \<or> src_field (code i) = BPF_X
                          then big_prefix v (nat (imm i) div 8) else v)"
proof -
  define n where "n = nat (imm i) div 8"
  have n: "n \<in> {2, 4, 8}" "nat (imm i) = 8 * n" "imm i = 8 * int n" "imm i div 8 = int n" "n \<le> 8"
    using assms(1) by (auto simp: n_def)
  have x: "take_bit 64 x = x" using assms(2,3) by (rule take_bit_int_id)
  have v: "(if imm i \<noteq> 64 then x AND (push_bit (nat (imm i)) 1 - 1) else x) = v"
    unfolding v_def and_push_bit_minus_one using x by auto
  have vn: "0 \<le> v" "v < 256 ^ n"
    using take_bit_int_less_exp [of "8 * n" x] by (simp_all add: v_def n(2) power_mult)
  have big: "take_bit 64 (big_prefix v n) = big_prefix v n"
    using bswap_acc_bound [of n n v] n by (intro take_bit_int_id) simp_all
  have v64: "take_bit 64 v = v"
    using n by (simp add: v_def min_def)
  show ?thesis
    using from_bytes_big_to_bytes_little [OF vn] big v64 assms(1)
    unfolding vm_end_def v n(4) n_def [symmetric] by (auto simp: Let_def v)
qed

lemma alu_end_sim:
  fixes s :: tstate and idx :: nat
  assumes sim: "sim r (after s h)" and tmp: "t_tmp_next s = 0"
    and regs: "dst i < 11" "src i < 11"
    and cls: "i_cls i = (if is64 then BPF_ALU64 else BPF_ALU)"
    and f: "i_op i = BPF_END" and imm: "imm i \<in> {16, 32, 64}"
  defines "s' \<equiv> alu_emit idx i is64 s"
  shows "\<exists>v. vm_alu_step i r = Inr (r[dst i := v]) \<and> sets_reg (dst i) v (after s h) (after s' h)
             \<and> 0 \<le> v \<and> v < 2 ^ 64"
    and "t_had_error s' = t_had_error s"
proof -
  let ?hd = "10 + dst i" and ?n = "nat (imm i) div 8"
  define swap where "swap \<longleftrightarrow> is64 \<or> src_field (code i) = BPF_X"
  define x where "x = take_bit (nat (imm i)) (r ! dst i)"
  define v where "v = (if swap then big_prefix x ?n else x)"
  define s1 where "s1 = (if imm i \<noteq> 64
      then emit (op_binop AndOp W64 (hdr ?hd) (konst (push_bit (nat (imm i)) 1 - 1)) ?hd) s else s)"
  have n: "2 \<le> ?n" "?n \<le> 8" using imm by auto
  have rng: "0 \<le> r ! dst i" "r ! dst i < 2 ^ 64"
    using sim_range [OF sim regs(1)] by simp_all
  have rd: "rd (after s h) ?hd = r ! dst i"
    using sim regs by (simp add: simD)
  have r64: "take_bit 64 (r ! dst i) = r ! dst i"
    using rng by (intro take_bit_int_id) simp_all
  have m: "(v::int) AND 65535 = take_bit 16 v" for v
    using and_exp_minus_one [of v 16] by simp
  have s1: "rd (after s1 h) ?hd = x" "t_tmp_next s1 = 0" "t_had_error s1 = t_had_error s"
      "\<And>n. n < 30 \<Longrightarrow> n \<noteq> ?hd \<Longrightarrow> rd (after s1 h) n = rd (after s h) n"
    using tmp rd r64 imm by (auto simp: s1_def x_def push_bit_of_1 m and_m32)
  have x: "0 \<le> x" "x < 2 ^ 64"
    using imm rng r64 by (auto simp: x_def intro: order.strict_trans2 [OF take_bit_int_less_exp])
  have s': "s' = (if swap then emit_bswap idx ?hd ?n ?hd s1 else s1)"
    using f imm by (auto simp: s'_def alu_emit_def Let_def s1_def swap_def)
  have "sets_reg (dst i) v (after s h) (after s' h) \<and> t_had_error s' = t_had_error s"
  proof (cases swap)
    case True
    then have e: "s' = emit_bswap idx ?hd ?n ?hd s1" "v = big_prefix (rd (after s1 h) ?hd) ?n"
      using s' s1(1) by (simp_all only: v_def if_True)
    have pre: "t_tmp_next s1 + 3 \<le> 64" "?hd < 30" "?hd < 30 + t_tmp_next s1"
        "0 \<le> rd (after s1 h) ?hd" "rd (after s1 h) ?hd < 2 ^ 64"
      using s1(1,2) x regs(1) by simp_all
    note b = emit_bswap_eval [OF n pre, where idx = idx, folded e]
    with s1 show ?thesis by (simp add: sets_reg_def)
  next
    case False
    with s1 show ?thesis by (simp add: s' v_def sets_reg_def)
  qed
  moreover have "vm_alu_step i r = Inr (r[dst i := v])"
    using f cls regs vm_end_eq [OF imm rng] sim_length [OF sim]
    by (simp add: vm_alu_step_def Let_def v_def swap_def x_def)
  moreover have "0 \<le> v" "v < 2 ^ 64"
    using x bswap_acc_bound [of ?n ?n x] n by (auto simp: v_def)
  ultimately show "\<exists>v. vm_alu_step i r = Inr (r[dst i := v])
      \<and> sets_reg (dst i) v (after s h) (after s' h) \<and> 0 \<le> v \<and> v < 2 ^ 64"
    and "t_had_error s' = t_had_error s" by blast+
qed

text \<open>
  The simulation for one ALU instruction.  The only hypothesis on the instruction is its class:
  that the translator reports nothing is enough for the interpreter not to raise.
\<close>

lemma alu_emit_error:
  assumes "\<not> t_had_error (alu_emit idx i is64 s)"
    and "i_op i \<notin> {BPF_MOV, BPF_NEG, BPF_LSH, BPF_RSH, BPF_ARSH, BPF_END}"
  shows "\<exists>f. ALU_BINOP (i_op i) = Some f"
  using assms by (cases "ALU_BINOP (i_op i)") (auto simp: alu_emit_def Let_def)

lemma translate_alu_sim:
  fixes s :: tstate and idx :: nat
  assumes sim: "sim r (after s h)" and tmp: "t_tmp_next s = 0"
    and cls: "i_cls i = (if is64 then BPF_ALU64 else BPF_ALU)"
    and ok: "\<not> t_had_error (snd (translate_alu idx i is64 st s))"
  defines "s' \<equiv> snd (translate_alu idx i is64 st s)"
  shows "\<exists>r'. vm_alu_step i r = Inr r' \<and> sim r' (after s' h) \<and> rd (after s' h) 1 = rd (after s h) 1"
    and "\<not> t_had_error s"
proof -
  have regs: "dst i < 11" "src i < 11" and s': "s' = alu_emit idx i is64 s"
    and ok': "\<not> t_had_error (alu_emit idx i is64 s)"
    using ok by (auto simp: s'_def translate_alu_def split: if_splits)
  have "(\<exists>v. vm_alu_step i r = Inr (r[dst i := v]) \<and> sets_reg (dst i) v (after s h) (after s' h)
             \<and> 0 \<le> v \<and> v < 2 ^ 64) \<and> t_had_error s' = t_had_error s"
  proof -
    consider "i_op i = BPF_MOV \<or> i_op i = BPF_NEG" | "i_op i \<in> {BPF_LSH, BPF_RSH, BPF_ARSH}"
      | "i_op i = BPF_END" | f where "ALU_BINOP (i_op i) = Some f"
      using alu_emit_error [OF ok'] by blast
    then show ?thesis
    proof cases
      case 1
      then show ?thesis
        unfolding s' using alu_mov_neg_sim [OF sim tmp regs cls] by blast
    next
      case 2
      then have "is_imm i"
        using ok' by (auto simp: alu_emit_def Let_def split: if_splits)
      with 2 show ?thesis
        unfolding s' using alu_shift_sim [OF sim tmp regs cls] by blast
    next
      case 3
      then have "imm i \<in> {16, 32, 64}"
        using ok' by (auto simp: alu_emit_def Let_def split: if_splits)
      with 3 show ?thesis
        unfolding s' using alu_end_sim [OF sim tmp regs cls] by blast
    next
      case 4
      then show ?thesis
        unfolding s' using alu_binop_sim [OF sim tmp regs cls] by blast
    qed
  qed
  then obtain v where v: "vm_alu_step i r = Inr (r[dst i := v])"
      "sets_reg (dst i) v (after s h) (after s' h)" "0 \<le> v" "v < 2 ^ 64"
    and e: "t_had_error s' = t_had_error s" by blast
  from sim_sets_reg [OF sim v(2) regs(1) v(3,4)] v(1)
  show "\<exists>r'. vm_alu_step i r = Inr r' \<and> sim r' (after s' h) \<and> rd (after s' h) 1 = rd (after s h) 1"
    by blast
  show "\<not> t_had_error s"
    using e ok by (simp add: s'_def)
qed

end
