(* ===== verification/Conditions.thy ===== *)
theory Conditions
  imports Alu
begin

text \<open>
  \<open>emit_condition\<close> of \<open>src/pybpf/translate.py\<close>: the condition of a conditional jump as one entry of a
  match pattern and a flag that says whether the entry selects the fallthrough.  Patterns have no
  negation and only unsigned comparisons: "or equal" and "not equal" test the complementary
  condition with the arms swapped, and a signed comparison flips the sign bit of both sides.
\<close>

section \<open>The translation\<close>

definition cond_table :: "int \<Rightarrow> (cmp \<times> bool) option" where
  "cond_table opc =
     (if opc = BPF_JEQ then Some (CmpEq, False) else if opc = BPF_JNE then Some (CmpEq, True)
      else if opc = BPF_JGT then Some (CmpGt, False) else if opc = BPF_JSGT then Some (CmpGt, False)
      else if opc = BPF_JLT then Some (CmpLt, False) else if opc = BPF_JSLT then Some (CmpLt, False)
      else if opc = BPF_JGE then Some (CmpLt, True) else if opc = BPF_JSGE then Some (CmpLt, True)
      else if opc = BPF_JLE then Some (CmpGt, True) else if opc = BPF_JSLE then Some (CmpGt, True)
      else None)"

text \<open>The \<open>JSET\<close> branch: the masked value is computed and tested against zero.\<close>

definition emit_jset :: "nat \<Rightarrow> insn \<Rightarrow> tstate \<Rightarrow> (match_entry \<times> bool) \<times> tstate" where
  "emit_jset idx i s =
     (let lhs = H_REG (dst i);
          is32 = (i_cls i = BPF_JMP32);
          im = (if is32 then imm i AND 0xffffffff else imm i AND MASK64);
          (t, s) = fresh_tmp idx s
      in if is32 then
           (let (t2, s) = fresh_tmp idx s;
                s = emit (op_cast W64 W32 (hdr lhs) t2) s;
                s = (if is_imm i then emit (op_binop AndOp W32 (hdr t2) (konst im) t) s
                     else let (t3, s) = fresh_tmp idx s;
                              s = emit (op_cast W64 W32 (hdr (H_REG (src i))) t3) s
                          in emit (op_binop AndOp W32 (hdr t2) (hdr t3) t) s)
            in ((cmp_entry t CmpEq (match_const 0 W32), True), s))
         else
           (let s = (if is_imm i then emit (op_binop AndOp W64 (hdr lhs) (konst im) t) s
                     else emit (op_binop AndOp W64 (hdr lhs) (hdr (H_REG (src i))) t) s)
            in ((cmp_entry t CmpEq (match_const 0 W64), True), s)))"

text \<open>
  The two sides of the comparison: narrowed to 32 bits and/or biased by the sign bit in scratch
  headers when needed, and the registers or the immediate themselves otherwise.
\<close>

definition emit_operands :: "nat \<Rightarrow> insn \<Rightarrow> tstate \<Rightarrow> (nat \<times> match_value) \<times> tstate" where
  "emit_operands idx i s =
     (let is32 = (i_cls i = BPF_JMP32);
          w = (if is32 then W32 else W64);
          im = (if is32 then imm i AND 0xffffffff else imm i AND MASK64);
          lhs = H_REG (dst i);
          is_signed = (i_op i \<in> {BPF_JSGT, BPF_JSGE, BPF_JSLT, BPF_JSLE})
      in if is32 \<or> is_signed then
           (let bias = (if is32 then 0x80000000 else 0x8000000000000000);
                (tl, s) = fresh_tmp idx s;
                s = (if is32 then emit (op_cast W64 W32 (hdr lhs) tl) s
                     else emit (op_move tl lhs) s);
                s = (if is_signed then emit (op_binop XorOp w (hdr tl) (konst bias) tl) s else s)
            in if is_imm i then
                 (let k = (if is32 then imm i AND 0xffffffff else im);
                      k = (if is_signed then k XOR bias else k)
                  in ((tl, match_const k w), s))
               else
                 (let (tr, s) = fresh_tmp idx s;
                      s = (if is32 then emit (op_cast W64 W32 (hdr (H_REG (src i))) tr) s
                           else emit (op_move tr (H_REG (src i))) s);
                      s = (if is_signed then emit (op_binop XorOp w (hdr tr) (konst bias) tr) s
                           else s)
                  in ((tl, match_header tr), s)))
         else ((lhs, if is_imm i then match_const im W64 else match_header (H_REG (src i))), s))"

text \<open>\<open>None\<close> is the source's \<open>(None, False)\<close>: the jump op is unsupported.\<close>

definition emit_condition :: "nat \<Rightarrow> insn \<Rightarrow> tstate \<Rightarrow> (match_entry \<times> bool) option \<times> tstate" where
  "emit_condition idx i s =
     (let s = s\<lparr>t_tmp_next := 0\<rparr>
      in if i_op i = BPF_JSET then
           (let (r, s) = emit_jset idx i s in (Some r, s))
         else
           (let ((lhs, rhs), s) = emit_operands idx i s
            in case cond_table (i_op i) of
                 None \<Rightarrow> (None, unsupported idx (JumpOp (i_op i)) s)
               | Some (c, swap) \<Rightarrow> (Some (cmp_entry lhs c rhs, swap), s)))"

section \<open>Flipping the sign bit turns signed order into unsigned order\<close>

lemma xor_sign_bit:
  assumes "0 \<le> (x::int)" "x < 2 ^ Suc b"
  shows "x XOR 2 ^ b = vm_s x (Suc b) + 2 ^ b"
proof (cases "x < 2 ^ b")
  case True
  then have "x XOR 2 ^ b = x OR 1 * 2 ^ b"
  proof -
    have "x AND 1 * 2 ^ b = 0"
    proof (rule bit_eqI)
      fix m
      have "take_bit b x = x" using assms(1) True by (rule take_bit_int_id)
      then have "bit x m \<Longrightarrow> m < b" by (metis bit_take_bit_iff)
      then show "bit (x AND 1 * 2 ^ b) m \<longleftrightarrow> bit (0::int) m"
        by (auto simp: bit_and_iff bit_exp_iff)
    qed
    then show ?thesis by (simp add: disjunctive_xor_eq_or)
  qed
  also have "\<dots> = x + 1 * 2 ^ b"
    using assms(1) True by (rule or_shifted_eq_add)
  finally show ?thesis using assms True by (simp add: vm_s_cases)
next
  case False
  define y where "y = x - 2 ^ b"
  have y: "0 \<le> y" "y < 2 ^ b" using assms False by (simp_all add: y_def)
  have yd: "y AND 1 * 2 ^ b = 0"
  proof (rule bit_eqI)
    fix m
    have "take_bit b y = y" using y by (rule take_bit_int_id)
    then have "bit y m \<Longrightarrow> m < b" by (metis bit_take_bit_iff)
    then show "bit (y AND 1 * 2 ^ b) m \<longleftrightarrow> bit (0::int) m"
      by (auto simp: bit_and_iff bit_exp_iff)
  qed
  have "x = y OR 1 * 2 ^ b"
    using or_shifted_eq_add [OF y, of 1] by (simp add: y_def)
  also have "\<dots> = y XOR 1 * 2 ^ b"
    using yd by (simp add: disjunctive_xor_eq_or)
  finally have "x XOR 2 ^ b = y"
    by (simp add: xor.assoc)
  with assms False show ?thesis by (simp add: vm_s_cases y_def)
qed

lemma xor_sign_bit_bounds:
  assumes "0 \<le> (x::int)" "x < 2 ^ Suc b"
  shows "0 \<le> x XOR 2 ^ b" "x XOR 2 ^ b < 2 ^ Suc b"
  using assms by (simp_all add: xor_sign_bit vm_s_cases)

section \<open>The condition, decided\<close>

text \<open>The two values the interpreter compares, and its answer.\<close>

definition jmp_bits :: "insn \<Rightarrow> nat" where
  "jmp_bits i = (if i_cls i = BPF_JMP32 then 32 else 64)"

definition jmp_lhs :: "insn \<Rightarrow> int list \<Rightarrow> int" where
  "jmp_lhs i r = take_bit (jmp_bits i) (r ! dst i)"

definition jmp_rhs :: "insn \<Rightarrow> int list \<Rightarrow> int" where
  "jmp_rhs i r = (if is_imm i then take_bit (jmp_bits i) (imm i) else take_bit (jmp_bits i) (r ! src i))"

definition jmp_taken :: "insn \<Rightarrow> int list \<Rightarrow> bool option" where
  "jmp_taken i r = vm_cmp (i_op i) (jmp_lhs i r) (jmp_rhs i r) (jmp_bits i)"

fun cmp_rel :: "cmp \<Rightarrow> int \<Rightarrow> int \<Rightarrow> bool" where
  "cmp_rel CmpEq x y \<longleftrightarrow> x = y" | "cmp_rel CmpGt x y \<longleftrightarrow> x > y" | "cmp_rel CmpLt x y \<longleftrightarrow> x < y"

definition signed_jump :: "insn \<Rightarrow> bool" where
  "signed_jump i \<longleftrightarrow> i_op i \<in> {BPF_JSGT, BPF_JSGE, BPF_JSLT, BPF_JSLE}"

definition biased :: "insn \<Rightarrow> int \<Rightarrow> int" where
  "biased i x = (if signed_jump i then x XOR 2 ^ (jmp_bits i - 1) else x)"

lemma jmp_bits_Suc: "jmp_bits i = Suc (jmp_bits i - 1)"
  by (simp add: jmp_bits_def)

lemma jmp_bits_cases: "jmp_bits i = 32 \<or> jmp_bits i = 64"
  by (simp add: jmp_bits_def)

lemma jmp_lhs_bounds: "0 \<le> jmp_lhs i r" "jmp_lhs i r < 2 ^ jmp_bits i"
  by (simp_all add: jmp_lhs_def)

lemma jmp_rhs_bounds: "0 \<le> jmp_rhs i r" "jmp_rhs i r < 2 ^ jmp_bits i"
  by (simp_all add: jmp_rhs_def)

lemma biased_bounds:
  "0 \<le> x \<Longrightarrow> x < 2 ^ jmp_bits i \<Longrightarrow> 0 \<le> biased i x \<and> biased i x < 2 ^ jmp_bits i"
  using xor_sign_bit_bounds [of x "jmp_bits i - 1"] jmp_bits_Suc [of i] by (simp add: biased_def)

text \<open>The table of arms is right: the comparison it names, on the biased values, is the jump's.\<close>

lemma cond_table_correct:
  assumes tab: "cond_table (i_op i) = Some (c, swap)"
    and a: "0 \<le> a" "a < 2 ^ jmp_bits i" and b: "0 \<le> b" "b < 2 ^ jmp_bits i"
  shows "vm_cmp (i_op i) a b (jmp_bits i) = Some (cmp_rel c (biased i a) (biased i b) \<noteq> swap)"
proof -
  let ?m = "jmp_bits i - 1"
  have s: "vm_s x (jmp_bits i) = (x XOR 2 ^ ?m) - 2 ^ ?m" if "0 \<le> x" "x < 2 ^ jmp_bits i" for x
    using xor_sign_bit [of x ?m] that jmp_bits_Suc [of i] by simp
  show ?thesis
    using tab s [OF a] s [OF b]
    by (auto simp: cond_table_def vm_cmp_def biased_def signed_jump_def split: if_splits)
qed

lemma cond_table_not_jset: "cond_table opc = Some x \<Longrightarrow> opc \<noteq> BPF_JSET"
  by (auto simp: cond_table_def)

fun rhs_value :: "match_value \<Rightarrow> hdrs \<Rightarrow> int" where
  "rhs_value (MatchConst k w) h = k" | "rhs_value (MatchHeader n) h = rd h n"

fun rhs_ok :: "nat \<Rightarrow> match_value \<Rightarrow> bool" where
  "rhs_ok bits (MatchConst k w) \<longleftrightarrow> width_bits w = bits" | "rhs_ok bits (MatchHeader n) \<longleftrightarrow> n \<noteq> 1"

lemma emit_operands_eval:
  fixes s :: tstate and idx :: nat
  assumes sim: "sim r (after s h)" and tmp: "t_tmp_next s = 0"
    and regs: "dst i < 11" "is_imm i \<or> src i < 11"
    and em: "emit_operands idx i s = ((lhs, rhs), s')"
  shows "rd (after s' h) lhs = biased i (jmp_lhs i r) \<and> lhs \<noteq> 1"
    and "rhs_value rhs (after s' h) = biased i (jmp_rhs i r) \<and> rhs_ok (jmp_bits i) rhs"
    and "n < 30 \<Longrightarrow> rd (after s' h) n = rd (after s h) n"
    and "t_had_error s' = t_had_error s"
proof -
  have d: "rd (after s h) (10 + dst i) = r ! dst i" "take_bit 64 (r ! dst i) = r ! dst i"
    using simD [OF sim regs(1)] sim_range [OF sim regs(1)] by (auto intro!: take_bit_int_id)
  have sr: "src i < 11 \<and> rd (after s h) (10 + src i) = r ! src i \<and> take_bit 64 (r ! src i) = r ! src i" if "\<not> is_imm i"
    using simD [OF sim, of "src i"] sim_range [OF sim, of "src i"] regs(2) that
    by (auto intro!: take_bit_int_id)
  note unf = emit_operands_def [folded signed_jump_def] Let_def tmp d biased_def jmp_lhs_def
    jmp_rhs_def jmp_bits_def and_m32 take_bit_xor match_const_def match_header_def
  have all: "rd (after s' h) lhs = biased i (jmp_lhs i r) \<and> lhs \<noteq> 1
     \<and> rhs_value rhs (after s' h) = biased i (jmp_rhs i r) \<and> rhs_ok (jmp_bits i) rhs
     \<and> (\<forall>n < 30. rd (after s' h) n = rd (after s h) n) \<and> t_had_error s' = t_had_error s"
  proof (cases "is_imm i")
    case True
    then show ?thesis
      using em d by (cases "i_cls i = BPF_JMP32"; cases "signed_jump i") (auto simp: unf)
  next
    case False
    then show ?thesis
      using em d sr by (cases "i_cls i = BPF_JMP32"; cases "signed_jump i") (auto simp: unf)
  qed
  then show "rd (after s' h) lhs = biased i (jmp_lhs i r) \<and> lhs \<noteq> 1"
    and "rhs_value rhs (after s' h) = biased i (jmp_rhs i r) \<and> rhs_ok (jmp_bits i) rhs"
    and "n < 30 \<Longrightarrow> rd (after s' h) n = rd (after s h) n"
    and "t_had_error s' = t_had_error s"
    by blast+
qed

lemma emit_jset_eval:
  fixes s :: tstate and idx :: nat
  assumes sim: "sim r (after s h)" and tmp: "t_tmp_next s = 0"
    and regs: "dst i < 11" "is_imm i \<or> src i < 11"
    and em: "emit_jset idx i s = ((e, swap), s')"
  shows "\<exists>t w. e = Entry t CmpEq (MatchConst 0 w) \<and> t \<noteq> 1 \<and> swap \<and> width_bits w = jmp_bits i
      \<and> rd (after s' h) t = jmp_lhs i r AND jmp_rhs i r
      \<and> (\<forall>n < 30. rd (after s' h) n = rd (after s h) n) \<and> t_had_error s' = t_had_error s"
proof -
  have d: "rd (after s h) (10 + dst i) = r ! dst i" "take_bit 64 (r ! dst i) = r ! dst i"
    using simD [OF sim regs(1)] sim_range [OF sim regs(1)] by (auto intro!: take_bit_int_id)
  have sr: "src i < 11 \<and> rd (after s h) (10 + src i) = r ! src i \<and> take_bit 64 (r ! src i) = r ! src i" if "\<not> is_imm i"
    using simD [OF sim, of "src i"] sim_range [OF sim, of "src i"] regs(2) that
    by (auto intro!: take_bit_int_id)
  note unf = emit_jset_def Let_def tmp d jmp_lhs_def jmp_rhs_def jmp_bits_def and_m32 take_bit_and
    match_const_def cmp_entry_def
  show ?thesis
  proof (cases "is_imm i")
    case True
    then show ?thesis
      using em d by (cases "i_cls i = BPF_JMP32") (auto simp: unf)
  next
    case False
    then show ?thesis
      using em d sr by (cases "i_cls i = BPF_JMP32") (auto simp: unf)
  qed
qed

context first_match
begin

text \<open>An entry over canonical values means its comparison.\<close>

lemma holds_entry:
  assumes "0 \<le> rd h lhs" "rd h lhs < 2 ^ bits" "0 \<le> rhs_value rhs h" "rhs_value rhs h < 2 ^ bits"
    and "rhs_ok bits rhs" "bits = 32 \<or> bits = 64"
  shows "holds (Entry lhs c rhs) h \<longleftrightarrow> cmp_rel c (rd h lhs) (rhs_value rhs h)"
proof (cases rhs)
  case (MatchConst k w)
  with assms show ?thesis by (cases c) (simp_all add: holds_const)
next
  case (MatchHeader n)
  have "(2::int) ^ bits \<le> 2 ^ 64" using assms(6) by auto
  with MatchHeader assms show ?thesis by (cases c) (simp_all add: holds_header)
qed

text \<open>
  The condition the translator emits, read in any header map that agrees with the one the block
  leaves except at the program counter, selects the jump target exactly when the interpreter jumps.
\<close>

lemma emit_condition_sim:
  fixes s :: tstate and idx :: nat
  assumes sim: "sim r (after s h)" and regs: "dst i < 11" "is_imm i \<or> src i < 11"
    and em: "emit_condition idx i s = (Some (e, swap), s')"
    and agree: "\<And>n. n \<noteq> 1 \<Longrightarrow> rd h' n = rd (after s' h) n"
  shows "jmp_taken i r = Some (holds e h' \<noteq> swap)"
    and "n < 30 \<Longrightarrow> rd (after s' h) n = rd (after s h) n"
    and "t_had_error s' = t_had_error s"
proof -
  let ?s = "s\<lparr>t_tmp_next := 0\<rparr>"
  have pre: "sim r (after ?s h)" "t_tmp_next ?s = 0" using sim by simp_all
  have "jmp_taken i r = Some (holds e h' \<noteq> swap)
     \<and> (\<forall>n < 30. rd (after s' h) n = rd (after s h) n) \<and> t_had_error s' = t_had_error s"
  proof (cases "i_op i = BPF_JSET")
    case True
    then have "emit_jset idx i ?s = ((e, swap), s')"
      using em by (auto simp: emit_condition_def Let_def split: prod.splits)
    from emit_jset_eval [OF pre regs this] obtain t w where
      e: "e = Entry t CmpEq (MatchConst 0 w)" "t \<noteq> 1" swap "width_bits w = jmp_bits i"
        "rd (after s' h) t = jmp_lhs i r AND jmp_rhs i r"
      and rest: "\<forall>n < 30. rd (after s' h) n = rd (after s h) n" "t_had_error s' = t_had_error s"
      by auto
    have "0 \<le> rd h' t" "rd h' t < 2 ^ jmp_bits i"
      using e(2,5) agree [of t] jmp_lhs_bounds [of i r] AND_upper1 [of "jmp_lhs i r" "jmp_rhs i r"]
      by auto
    then have "holds e h' \<longleftrightarrow> jmp_lhs i r AND jmp_rhs i r = 0"
      using holds_entry [of h' t "jmp_bits i" "MatchConst 0 w" CmpEq] e agree [of t]
        jmp_bits_cases [of i] by simp
    then show ?thesis
      using True e(3) rest by (simp add: jmp_taken_def vm_cmp_def)
  next
    case False
    then obtain lhs rhs c where ops: "emit_operands idx i ?s = ((lhs, rhs), s')"
      and tab: "cond_table (i_op i) = Some (c, swap)" and e: "e = Entry lhs c rhs"
      using em by (auto simp: emit_condition_def Let_def cmp_entry_def split: prod.splits option.splits)
    note ev = emit_operands_eval [OF pre regs ops]
    have rh: "rhs_value rhs h' = biased i (jmp_rhs i r)"
      using ev(2) agree by (cases rhs) auto
    have "holds e h' \<longleftrightarrow> cmp_rel c (biased i (jmp_lhs i r)) (biased i (jmp_rhs i r))"
      using holds_entry [of h' lhs "jmp_bits i" rhs c] ev(1,2) rh agree [of lhs] e
        biased_bounds [OF jmp_lhs_bounds] biased_bounds [OF jmp_rhs_bounds] jmp_bits_cases [of i]
      by simp
    with cond_table_correct [OF tab jmp_lhs_bounds jmp_rhs_bounds] ev(3,4) show ?thesis
      by (simp add: jmp_taken_def)
  qed
  then show "jmp_taken i r = Some (holds e h' \<noteq> swap)"
    and "n < 30 \<Longrightarrow> rd (after s' h) n = rd (after s h) n"
    and "t_had_error s' = t_had_error s"
    by blast+
qed

end

text \<open>An unsupported jump op is reported; nothing else is.\<close>

lemma emit_condition_error:
  "\<not> t_had_error (snd (emit_condition idx i s)) \<Longrightarrow> fst (emit_condition idx i s) \<noteq> None"
  by (auto simp: emit_condition_def Let_def split: prod.splits option.splits if_splits)

end
