(* ===== verification/Memory.thy ===== *)
theory Memory
  imports Alu "HOL-Library.Monad_Syntax"
begin

text \<open>
  The memory instructions of \<open>src/pybpf/translate.py\<close>: \<open>translate_ldx\<close>, \<open>translate_store\<close> and the
  classic-BPF packet loads \<open>translate_ld_pkt\<close>.  A load or store names its region statically, from
  the provenance of its base register; a stack slot is a header of its own.

  \<open>st.reg[n]\<close> raises \<open>IndexError\<close> for the register numbers 11 to 15 that the encoding can hold;
  nothing catches it, so the methods that index return \<open>None\<close> there.
\<close>

definition get_reg :: "nat \<Rightarrow> abs_state \<Rightarrow> reg_info option" where
  "get_reg n st = (if n < length (a_reg st) then Some (a_reg st ! n) else None)"

definition put_reg :: "nat \<Rightarrow> reg_info \<Rightarrow> abs_state \<Rightarrow> abs_state option" where
  "put_reg n v st = (if n < length (a_reg st) then Some (set_reg n v st) else None)"

definition set_slot :: "int \<Rightarrow> reg_info \<Rightarrow> abs_state \<Rightarrow> abs_state" where
  "set_slot slot v st = st\<lparr>a_slot := (a_slot st)[nat slot := v]\<rparr>"

text \<open>\<open>for r in range(1, 6): st.reg[r] = SCALAR\<close>: the registers a call clobbers.\<close>

definition clobber :: "abs_state \<Rightarrow> abs_state" where
  "clobber st = fold (\<lambda>r. set_reg r SCALAR) [1..<6] st"

definition emit_address :: "nat \<Rightarrow> nat \<Rightarrow> int \<Rightarrow> tstate \<Rightarrow> nat \<times> tstate" where
  "emit_address idx base_hdr ofs s =
     (let (t, s) = fresh_tmp idx s
      in (t, emit (op_binop AddOp W64 (hdr base_hdr) (konst ofs) t) s))"

definition translate_ldx :: "nat \<Rightarrow> insn \<Rightarrow> abs_state \<Rightarrow> tstate \<Rightarrow> (abs_state \<times> tstate) option" where
  "translate_ldx idx i st s =
     (let nbytes = size_bytes (code i); w = width_name nbytes
      in do {
        base \<leftarrow> get_reg (src i) st;
        if ri_tag base = T_STACK then
          (if \<not> ri_known base then do {
             st \<leftarrow> put_reg (dst i) SCALAR st;
             Some (st, unsupported idx (StackNonConst ''load'') s) }
           else
             let slot = - (ri_off base + off i);
                 (sh, s) = stack_header slot s
             in if sh = 0 then do {
                  st \<leftarrow> put_reg (dst i) SCALAR st;
                  Some (st, unsupported idx (StackOutside ''load'' slot) s) }
                else
                  let s = emit (op_cast w W64 (hdr sh) (H_REG (dst i))) s
                  in do {
                    st \<leftarrow> put_reg (dst i) (a_slot st ! nat slot) st;
                    Some (st, s) })
        else
          let region = region_of base s;
              s = (if region = REGION_NONE then unsupported idx (RegionUnknown ''load'' (src i)) s else s);
              (_, s) = ctx_access_ok idx base (off i) nbytes ''load'' s;
              (t_addr, s) = emit_address idx (H_REG (src i)) (off i) s;
              (t_val, s) = fresh_tmp idx s;
              s = emit (op_load w region (hdr t_addr) t_val) s;
              s = emit (op_cast w W64 (hdr t_val) (H_REG (dst i))) s;
              v = (if ri_tag base = T_CTX \<and> ri_known base
                      \<and> ctx_field_is_pkt_ptr (ri_off base + off i) s
                   then \<lparr>ri_tag = T_PKT, ri_off = 0, ri_known = False, ri_mapidx = -1, ri_const = None\<rparr>
                   else SCALAR)
          in do {
            st \<leftarrow> put_reg (dst i) v st;
            Some (st, s) } })"

definition translate_store ::
  "nat \<Rightarrow> insn \<Rightarrow> abs_state \<Rightarrow> bool \<Rightarrow> tstate \<Rightarrow> (abs_state \<times> tstate) option" where
  "translate_store idx i st from_reg s =
     (let nbytes = size_bytes (code i); w = width_name nbytes; im = imm i AND MASK64
      in do {
        base \<leftarrow> get_reg (dst i) st;
        if ri_tag base = T_STACK then
          (if \<not> ri_known base then Some (st, unsupported idx (StackNonConst ''store'') s)
           else
             let slot = - (ri_off base + off i);
                 (sh, s) = stack_header slot s
             in if sh = 0 then Some (st, unsupported idx (StackOutside ''store'' slot) s)
                else if from_reg then
                  let s = emit (op_cast W64 w (hdr (H_REG (src i))) sh) s
                  in do {
                    v \<leftarrow> get_reg (src i) st;
                    Some (set_slot slot v st, s) }
                else
                  let s = emit (op_binop AddOp w (konst im) (konst 0) sh) s
                  in Some (set_slot slot (scalar_const im) st, s))
        else
          let region = region_of base s;
              s = (if region = REGION_NONE then unsupported idx (RegionUnknown ''store'' (dst i)) s else s);
              (_, s) = ctx_access_ok idx base (off i) nbytes ''store'' s;
              (t_addr, s) = emit_address idx (H_REG (dst i)) (off i) s
          in if from_reg then
               let (t_val, s) = fresh_tmp idx s;
                   s = emit (op_cast W64 w (hdr (H_REG (src i))) t_val) s
               in Some (st, emit (op_store w region (hdr t_addr) (hdr t_val)) s)
             else Some (st, emit (op_store w region (hdr t_addr) (konst im)) s) })"

definition translate_ld_pkt :: "nat \<Rightarrow> insn \<Rightarrow> abs_state \<Rightarrow> tstate \<Rightarrow> abs_state \<times> tstate" where
  "translate_ld_pkt idx i st s =
     (let nbytes = size_bytes (code i)
      in if nbytes = 8 then (st, unsupported idx LdPkt64 s)
         else
           let w = width_name nbytes;
               (t_addr, s) = fresh_tmp idx s;
               s = (if i_mode i = BPF_IND
                    then emit (op_binop AddOp W64 (hdr (H_REG (src i))) (konst (imm i)) t_addr) s
                    else emit (op_set t_addr (imm i AND MASK64)) s);
               (t_val, s) = fresh_tmp idx s;
               s = emit (op_load w REGION_PKT (hdr t_addr) t_val) s;
               s = emit (op_cast w W64 (hdr t_val) t_val) s;
               s = emit_bswap idx t_val (nat nbytes) (H_REG 0) s
           in (clobber (set_reg 0 SCALAR st), s))"

end
