(* ===== verification/Map_Helpers.thy ===== *)
theory Map_Helpers
  imports Memory
begin

text \<open>
  The two map helpers of \<open>src/pybpf/translate.py\<close> that are translated: \<open>emit_map_lookup\<close> and
  \<open>emit_map_update\<close>, with the functions they share.  A decision comes back as a list of arms
  \<open>(match entries, ops)\<close> in first-match order; everything the decision reads is emitted into the
  current block.

  An arm list of the source, or its \<open>None\<close>, is an \<open>option\<close>; the option around the whole result of
  \<open>emit_map_lookup\<close> and \<open>emit_map_update\<close> is \<open>IndexError\<close> of \<open>self.maps[m]\<close>.
\<close>

type_synonym arm = "match_entry list \<times> ops"

section \<open>Keys and slots\<close>

definition check_map_modelled :: "nat \<Rightarrow> map_info \<Rightarrow> tstate \<Rightarrow> bool \<times> tstate" where
  "check_map_modelled idx mi s =
     (if m_family mi = None then (False, unsupported idx (MapFamily (m_name mi) (m_type mi)) s)
      else if m_family mi = Some FAMILY_LRU
      then (False, unsupported idx (MapLru (m_name mi) (m_type mi)) s)
      else (True, s))"

definition const_key :: "reg_info \<Rightarrow> abs_state \<Rightarrow> int option" where
  "const_key kp st =
     (if ri_tag kp \<noteq> T_STACK \<or> \<not> ri_known kp then None
      else let slot = - ri_off kp
           in if 0 \<le> slot \<and> slot \<le> int BPF_STACK_SIZE then ri_const (a_slot st ! nat slot) else None)"

definition check_array_key :: "nat \<Rightarrow> nat \<Rightarrow> int option \<Rightarrow> tstate \<Rightarrow> bool \<times> tstate" where
  "check_array_key idx m key s =
     (let mi = t_maps s ! m
      in case key of
           None \<Rightarrow>
             if m_max_entries mi > m_nslots mi
             then (False, unsupported idx (ArrayComputedKey (m_name mi)) s) else (True, s)
         | Some k \<Rightarrow>
             if k \<ge> int (m_nslots mi)
             then (False, unsupported idx (ArrayKeyAliased (m_name mi) k) s)
             else (True, s\<lparr>t_map_const_keys := (t_map_const_keys s)
                     (m \<mapsto> (case t_map_const_keys s m of None \<Rightarrow> Map.empty | Some f \<Rightarrow> f)
                           (k mod int (m_nslots mi) \<mapsto> k))\<rparr>))"

definition read_map_key :: "nat \<Rightarrow> reg_info \<Rightarrow> width \<Rightarrow> tstate \<Rightarrow> nat option \<times> tstate" where
  "read_map_key idx kp kw s =
     (let (t_key, s) = fresh_tmp idx s
      in if ri_tag kp = T_STACK then
           (if \<not> ri_known kp then (None, unsupported idx MapKeyNonConst s)
            else let slot = - ri_off kp;
                     (sh, s) = stack_header slot s
                 in if sh = 0 then (None, unsupported idx (MapKeyOutside slot) s)
                    else (Some t_key, emit (op_cast kw W64 (hdr sh) t_key) s))
         else
           (let region = region_of kp s
            in if region = REGION_NONE then (None, unsupported idx MapKeyRegion s)
               else let (t_raw, s) = fresh_tmp idx s;
                        s = emit (op_load kw region (hdr (H_REG 2)) t_raw) s;
                        s = emit (op_cast kw W64 (hdr t_raw) t_key) s
                    in (Some t_key, s)))"

text \<open>The slot a key selects (\<open>None\<close> when the key cannot be read), and the key if it is constant.\<close>

definition emit_slot ::
  "nat \<Rightarrow> nat \<Rightarrow> reg_info \<Rightarrow> abs_state \<Rightarrow> width \<Rightarrow> tstate \<Rightarrow> (nat option \<times> int option) \<times> tstate" where
  "emit_slot idx m kp st kw s =
     (let mi = t_maps s ! m; key = const_key kp st; (t_slot, s) = fresh_tmp idx s
      in case key of
           Some k \<Rightarrow> ((Some t_slot, Some k), emit (op_set t_slot (k mod int (m_nslots mi))) s)
         | None \<Rightarrow>
             (let (t_key, s) = read_map_key idx kp kw s
              in case t_key of
                   None \<Rightarrow> ((None, None), s)
                 | Some t_key \<Rightarrow>
                     ((Some t_slot, None),
                      emit (op_binop ModOp W64 (hdr t_key) (konst (int (m_nslots mi))) t_slot) s)))"

text \<open>
  The two loops of \<open>emit_slot_headers\<close>: each cell of a list of offsets is loaded through \<open>t_raw\<close>
  and widened into a header of its own.
\<close>

fun read_cells :: "nat \<Rightarrow> nat \<Rightarrow> width \<Rightarrow> nat \<Rightarrow> nat list \<Rightarrow> tstate \<Rightarrow> nat list \<times> tstate" where
  "read_cells idx region w t_raw [] s = ([], s)"
| "read_cells idx region w t_raw (ofs # rest) s =
     (let (t, s) = fresh_tmp idx s;
          s = emit (op_load w region (konst (int ofs)) t_raw) s;
          s = emit (op_cast w W64 (hdr t_raw) t) s;
          (ts, s) = read_cells idx region w t_raw rest s
      in (t # ts, s))"

definition emit_slot_headers ::
  "nat \<Rightarrow> nat \<Rightarrow> map_info \<Rightarrow> width \<Rightarrow> tstate \<Rightarrow> (nat list \<times> nat list) \<times> tstate" where
  "emit_slot_headers idx m mi kw s =
     (let region = REGION_MAP m;
          (t_raw, s) = fresh_tmp idx s;
          (pres, s) = read_cells idx region W8 t_raw [0..<m_nslots mi] s;
          (tags, s) = read_cells idx region kw t_raw (map (m_tag_off mi) [0..<m_nslots mi]) s
      in ((pres, tags), s))"

section \<open>Lookup\<close>

definition emit_array_lookup ::
  "nat \<Rightarrow> nat \<Rightarrow> map_info \<Rightarrow> reg_info \<Rightarrow> abs_state \<Rightarrow> width \<Rightarrow> tstate \<Rightarrow> arm list option \<times> tstate" where
  "emit_array_lookup idx m mi kp st kw s =
     (let (ok, s) = check_array_key idx m (const_key kp st) s
      in if \<not> ok then (None, s)
         else let ((slot, const), s) = emit_slot idx m kp st kw s
         in case slot of
              None \<Rightarrow> (None, s)
            | Some t_slot \<Rightarrow>
                let (t_vp, s) = fresh_tmp idx s;
                    s = emit (op_binop MulOp W64 (hdr t_slot) (konst (int (m_value_size mi))) t_vp) s;
                    s = emit (op_binop AddOp W64 (hdr t_vp) (konst (int (m_value_base mi))) t_vp) s;
                    (cond, s) =
                      (case const of
                         Some k \<Rightarrow>
                           (cmp_entry t_slot CmpEq (match_const (k mod int (m_nslots mi)) W64), s)
                       | None \<Rightarrow>
                           let (t_key, s) = fresh_tmp idx s;
                               s = emit (op_cast W64 W64 (hdr t_slot) t_key) s
                           in (cmp_entry t_key CmpLt (match_const (int (m_max_entries mi)) W64), s))
                in (Some [([cond], [assign_op (H_REG 0) t_vp]), ([], [zero_op (H_REG 0)])], s))"

definition lookup_arms :: "map_info \<Rightarrow> nat \<Rightarrow> nat list \<Rightarrow> nat list \<Rightarrow> arm list" where
  "lookup_arms mi t_key pres tags =
     map (\<lambda>i. ([cmp_entry (pres ! i) CmpEq (match_const 1 W64),
                cmp_entry (tags ! i) CmpEq (match_header t_key)],
               [const_op (H_REG 0) (int (m_value_off mi i))])) [0..<m_nslots mi]
     @ [([], [zero_op (H_REG 0)])]"

definition emit_tagged_lookup ::
  "nat \<Rightarrow> nat \<Rightarrow> map_info \<Rightarrow> reg_info \<Rightarrow> width \<Rightarrow> tstate \<Rightarrow> arm list option \<times> tstate" where
  "emit_tagged_lookup idx m mi kp kw s =
     (let (key, s) = read_map_key idx kp kw s
      in case key of
           None \<Rightarrow> (None, s)
         | Some t_key \<Rightarrow>
             let ((pres, tags), s) = emit_slot_headers idx m mi kw s
             in (Some (lookup_arms mi t_key pres tags), s))"

definition emit_map_lookup ::
  "nat \<Rightarrow> abs_state \<Rightarrow> tstate \<Rightarrow> (arm list option \<times> abs_state \<times> tstate) option" where
  "emit_map_lookup idx st s =
     (let mp = a_reg st ! 1; kp = a_reg st ! 2
      in if ri_tag mp \<noteq> T_MAP \<or> ri_mapidx mp < 0
         then Some (None, st, unsupported idx (NotAMap ''bpf_map_lookup_elem'') s)
         else let m = nat (ri_mapidx mp)
         in if m \<ge> length (t_maps s) then None
         else let mi = t_maps s ! m;
                  (ok, s) = check_map_modelled idx mi s
         in if \<not> ok then Some (None, st, s)
         else if m_key_size mi \<notin> {1, 2, 4, 8}
         then Some (None, st, unsupported idx (MapKeySize (m_name mi) (m_key_size mi)) s)
         else let kw = width_name (int (m_key_size mi));
                  s = count_map_site m (s\<lparr>t_tmp_next := 0\<rparr>);
                  (arms, s) = (if m_is_array mi then emit_array_lookup idx m mi kp st kw s
                               else emit_tagged_lookup idx m mi kp kw s)
         in case arms of
              None \<Rightarrow> Some (None, st, s)
            | Some arms \<Rightarrow>
                Some (Some arms, clobber (set_reg 0 (map_pointer T_MAPVAL 0 (int m)) st), s))"

section \<open>Update\<close>

text \<open>
  The source's \<open>o\<close> is the op list to emit into: the block's, or an arm's own.  It is returned
  updated.
\<close>

definition copy_map_value ::
  "nat \<Rightarrow> reg_info \<Rightarrow> map_info \<Rightarrow> nat \<Rightarrow> operand \<Rightarrow> ops \<Rightarrow> tstate \<Rightarrow> (bool \<times> ops) \<times> tstate" where
  "copy_map_value idx vp mi m dest ops s =
     (let vs = m_value_size mi; dst_region = REGION_MAP m
      in if ri_tag vp = T_STACK then
           (if vs \<notin> {1, 2, 4, 8} then ((False, ops), unsupported idx (ValueStackSize vs) s)
            else if \<not> ri_known vp then ((False, ops), unsupported idx ValueNonConst s)
            else let (sh, s) = stack_header (- ri_off vp) s
                 in if sh = 0 then ((False, ops), unsupported idx ValueOutside s)
                    else ((True, op_store (width_name (int vs)) dst_region dest (hdr sh) ops), s))
         else
           let src_region = region_of vp s
           in if src_region = REGION_NONE then ((False, ops), unsupported idx ValueRegion s)
              else if vs \<in> {1, 2, 4, 8} then
                let vw = width_name (int vs);
                    (t_val, s) = fresh_tmp idx s;
                    ops = op_load vw src_region (hdr (H_REG 3)) t_val ops;
                    ops = op_store vw dst_region dest (hdr t_val) ops
                in ((True, ops), s)
              else if vs > MAP_MAX_VALUE_COPY
              then ((False, ops), unsupported idx (ValueTooBig vs) s)
              else
                let (t_sa, s) = fresh_tmp idx s; (t_da, s) = fresh_tmp idx s;
                    (t_b, s) = fresh_tmp idx s;
                    ops = fold (\<lambda>i ops.
                        op_store W8 dst_region (hdr t_da) (hdr t_b)
                        (op_load W8 src_region (hdr t_sa) t_b
                        (op_binop AddOp W64 dest (konst (int i)) t_da
                        (op_binop AddOp W64 (hdr (H_REG 3)) (konst (int i)) t_sa ops))))
                      [0..<vs] ops
                in ((True, ops), s))"

text \<open>What the arm for slot \<open>i\<close> does: an insert claims the slot first.\<close>

definition arm_ops ::
  "nat \<Rightarrow> nat \<Rightarrow> map_info \<Rightarrow> reg_info \<Rightarrow> width \<Rightarrow> nat \<Rightarrow> nat \<Rightarrow> nat \<Rightarrow> bool \<Rightarrow> tstate \<Rightarrow> ops option \<times> tstate" where
  "arm_ops idx m mi vp kw t_tag mark i ins s =
     (let region = REGION_MAP m;
          s = s\<lparr>t_tmp_next := mark\<rparr>;
          ops = (if ins
                 then op_store W8 region (konst (int i)) (konst 1)
                      (op_store kw region (konst (int (m_tag_off mi i))) (hdr t_tag) [])
                 else []);
          ((ok, ops), s) = copy_map_value idx vp mi m (konst (int (m_value_off mi i))) ops s
      in if \<not> ok then (None, s) else (Some (op_set (H_REG 0) 0 ops), s))"

text \<open>A loop over the slots that builds one arm each and gives up at the first that fails.\<close>

fun slot_arms ::
  "(nat \<Rightarrow> tstate \<Rightarrow> ops option \<times> tstate) \<Rightarrow> (nat \<Rightarrow> match_entry list) \<Rightarrow> nat list \<Rightarrow> tstate
     \<Rightarrow> arm list option \<times> tstate" where
  "slot_arms mk entries [] s = (Some [], s)"
| "slot_arms mk entries (i # is) s =
     (let (ops, s) = mk i s
      in case ops of
           None \<Rightarrow> (None, s)
         | Some ops \<Rightarrow>
             let (arms, s) = slot_arms mk entries is s
             in (map_option (\<lambda>arms. (entries i, ops) # arms) arms, s))"

definition emit_tagged_update ::
  "nat \<Rightarrow> nat \<Rightarrow> map_info \<Rightarrow> reg_info \<Rightarrow> reg_info \<Rightarrow> width \<Rightarrow> tstate \<Rightarrow> arm list option \<times> tstate" where
  "emit_tagged_update idx m mi kp vp kw s =
     (let region = REGION_MAP m;
          (key, s) = read_map_key idx kp kw s
      in case key of
           None \<Rightarrow> (None, s)
         | Some t_key \<Rightarrow>
             let ((pres, tags), s) = emit_slot_headers idx m mi kw s;
                 (t_tag, s) = fresh_tmp idx s;
                 s = emit (op_cast W64 kw (hdr t_key) t_tag) s;
                 (t_full_raw, s) = fresh_tmp idx s;
                 (t_full, s) = fresh_tmp idx s;
                 s = emit (op_load W8 region (konst (int (m_full_off mi))) t_full_raw) s;
                 s = emit (op_cast W8 W64 (hdr t_full_raw) t_full) s;
                 mark = t_tmp_next s;
                 (hits, s) = slot_arms (\<lambda>i. arm_ops idx m mi vp kw t_tag mark i False)
                   (\<lambda>i. [cmp_entry (pres ! i) CmpEq (match_const 1 W64),
                         cmp_entry (tags ! i) CmpEq (match_header t_key)]) [0..<m_nslots mi] s
             in case hits of
                  None \<Rightarrow> (None, s)
                | Some hits \<Rightarrow>
                    let (inserts, s) = slot_arms (\<lambda>i. arm_ops idx m mi vp kw t_tag mark i True)
                          (\<lambda>i. [cmp_entry (pres ! i) CmpEq (match_const 0 W64)]) [0..<m_nslots mi] s
                    in case inserts of
                         None \<Rightarrow> (None, s)
                       | Some inserts \<Rightarrow>
                           (Some (hits
                              @ [([cmp_entry t_full CmpEq (match_const 1 W64)],
                                  [const_op (H_REG 0) (- E2BIG)])]
                              @ inserts
                              @ [([], [const_op (H_REG 0) (- E2BIG)])]), s))"

text \<open>The straight-line write of an array map, after the checks.\<close>

definition emit_array_update ::
  "nat \<Rightarrow> nat \<Rightarrow> map_info \<Rightarrow> reg_info \<Rightarrow> reg_info \<Rightarrow> abs_state \<Rightarrow> width \<Rightarrow> tstate
     \<Rightarrow> (arm list option \<times> abs_state \<times> tstate)" where
  "emit_array_update idx m mi kp vp st kw s =
     (let ((slot, _), s) = emit_slot idx m kp st kw s
      in case slot of
           None \<Rightarrow> (None, st, s)
         | Some t_slot \<Rightarrow>
             let (t_dst, s) = fresh_tmp idx s;
                 s = emit (op_binop MulOp W64 (hdr t_slot) (konst (int (m_value_size mi))) t_dst) s;
                 s = emit (op_binop AddOp W64 (hdr t_dst) (konst (int (m_value_base mi))) t_dst) s;
                 ((ok, ops), s) = copy_map_value idx vp mi m (hdr t_dst) (t_ops s) s;
                 s = s\<lparr>t_ops := ops\<rparr>
             in if \<not> ok then (None, st, s)
                else (None, set_reg 0 (scalar_const 0) st, emit (op_set (H_REG 0) 0) s))"

definition emit_map_update ::
  "nat \<Rightarrow> abs_state \<Rightarrow> tstate \<Rightarrow> (arm list option \<times> abs_state \<times> tstate) option" where
  "emit_map_update idx st s =
     (let mp = a_reg st ! 1; kp = a_reg st ! 2; vp = a_reg st ! 3; fl = a_reg st ! 4
      in if ri_tag mp \<noteq> T_MAP \<or> ri_mapidx mp < 0
         then Some (None, st, unsupported idx (NotAMap ''bpf_map_update_elem'') s)
         else let m = nat (ri_mapidx mp)
         in if m \<ge> length (t_maps s) then None
         else let mi = t_maps s ! m;
                  (ok, s) = check_map_modelled idx mi s
         in if \<not> ok then Some (None, st, s)
         else if m_key_size mi \<notin> {1, 2, 4, 8}
         then Some (None, st, unsupported idx (MapKeySize (m_name mi) (m_key_size mi)) s)
         else let key = const_key kp st;
                  (ok, s) = (if m_is_array mi then check_array_key idx m key s else (True, s))
         in if \<not> ok then Some (None, st, s)
         else if m_is_array mi \<and> key = None
         then Some (None, st, unsupported idx (ArrayUpdateComputedKey (m_name mi)) s)
         else if m_is_array mi \<and> the key \<ge> int (m_max_entries mi)
         then Some (None, clobber (set_reg 0 SCALAR st),
                    emit (op_set (H_REG 0) ((- E2BIG) AND MASK64)) s)
         else if ri_tag fl \<noteq> T_SCALAR \<or> ri_const fl = None
         then Some (None, st, unsupported idx FlagsNotConst s)
         else if the (ri_const fl) \<noteq> 0
         then Some (None, st, unsupported idx (FlagsValue (the (ri_const fl))) s)
         else let kw = width_name (int (m_key_size mi));
                  s = count_map_site m (s\<lparr>t_tmp_next := 0\<rparr>);
                  st = clobber st
         in if m_is_array mi then Some (emit_array_update idx m mi kp vp st kw s)
            else let (arms, s) = emit_tagged_update idx m mi kp vp kw s
                 in case arms of
                      None \<Rightarrow> Some (None, st, s)
                    | Some arms \<Rightarrow> Some (Some arms, set_reg 0 SCALAR st, s))"

end
