(* ===== verification/Program.thy ===== *)
theory Program
  imports Conditions Map_Helpers
begin

text \<open>
  The translation of a whole program, \<open>src/pybpf/translate.py\<close>: \<open>translate_one\<close> dispatches one
  instruction, \<open>find_leaders\<close> splits the program into basic blocks and refuses backward jumps,
  \<open>scan_used_regs\<close> decides what the preamble seeds, and \<open>translate_program\<close> emits the preamble and
  one transformer per block, or two when the block ends in a decision.
\<close>

section \<open>One instruction\<close>

text \<open>The number of slots consumed, and the new states.\<close>

definition translate_one ::
  "nat \<Rightarrow> insn list \<Rightarrow> abs_state \<Rightarrow> tstate \<Rightarrow> (nat \<times> abs_state \<times> tstate) option" where
  "translate_one idx insns st s =
     (let i = insns ! idx; s = s\<lparr>t_tmp_next := 0\<rparr>; c = i_cls i
      in if is_nop_jump i then Some (1, st, s)
         else if code i = LD_IMM64 then
           (if idx + 1 \<ge> length insns then Some (1, st, unsupported idx TruncatedImm64 s)
            else case t_insn_map_idx s idx of
              Some m \<Rightarrow>
                let s = emit (op_set (H_REG (dst i)) 0) s
                in do { st \<leftarrow> put_reg (dst i) (map_pointer T_MAP 0 (int m)) st; Some (2, st, s) }
            | None \<Rightarrow>
                let s = (if src i \<noteq> 0 then unsupported idx (Imm64Src (src i)) s else s);
                    v = push_bit 32 (imm (insns ! (idx + 1)) AND 0xffffffff)
                        OR (imm i AND 0xffffffff);
                    s = emit (op_set (H_REG (dst i)) v) s
                in do { st \<leftarrow> put_reg (dst i) (scalar_const v) st; Some (2, st, s) })
         else if c = BPF_ALU64 then Some (1, translate_alu idx i True st s)
         else if c = BPF_ALU then Some (1, translate_alu idx i False st s)
         else if c = BPF_LDX then map_option (Pair 1) (translate_ldx idx i st s)
         else if c = BPF_STX then
           (if i_mode i = BPF_ATOMIC then Some (1, st, unsupported idx AtomicOp s)
            else map_option (Pair 1) (translate_store idx i st True s))
         else if c = BPF_ST then map_option (Pair 1) (translate_store idx i st False s)
         else if c = BPF_LD then
           (if i_mode i = BPF_ABS \<or> i_mode i = BPF_IND
            then Some (1, translate_ld_pkt idx i st s)
            else Some (1, st, unsupported idx (LdMode (i_mode i)) s))
         else Some (1, st, unsupported idx (InsnClass c) s))"

lemma translate_one_slots: "translate_one idx insns st s = Some (k, st', s') \<Longrightarrow> k = 1 \<or> k = 2"
  unfolding translate_one_def Let_def
  by (auto split: if_splits option.splits bind_splits)

text \<open>The loop over a block's straight-line instructions, \<open>while i < body_end\<close>.\<close>

function translate_body ::
  "insn list \<Rightarrow> nat \<Rightarrow> nat \<Rightarrow> abs_state \<Rightarrow> tstate \<Rightarrow> (abs_state \<times> tstate) option" where
  "translate_body insns i body_end st s =
     (if i < body_end then
        (case translate_one i insns st s of
           None \<Rightarrow> None
         | Some (k, st, s) \<Rightarrow> translate_body insns (i + k) body_end st s)
      else Some (st, s))"
  by pat_completeness auto
termination
  by (relation "measure (\<lambda>(insns, i, e, st, s). e - i)") (auto dest!: translate_one_slots)

declare translate_body.simps [simp del]

section \<open>The registers a program mentions\<close>

definition mark :: "nat \<Rightarrow> bool list \<Rightarrow> bool list" where
  "mark r used = (if r < NUM_BPF_REGS then used[r := True] else used)"

definition mark_insn :: "insn \<Rightarrow> bool list \<Rightarrow> bool list" where
  "mark_insn i used =
     (let c = i_cls i; opc = i_op i; x = (src_field (code i) = BPF_X)
      in if c = BPF_ALU64 \<or> c = BPF_ALU then
           (let used = mark (dst i) used in if x then mark (src i) used else used)
         else if c = BPF_LDX \<or> c = BPF_STX then mark (src i) (mark (dst i) used)
         else if c = BPF_ST then mark (dst i) used
         else if c = BPF_LD then
           (let used = mark (dst i) used
            in if i_mode i = BPF_IND then mark (src i) used else used)
         else if is_jmp i then
           (if opc = BPF_EXIT then mark 0 used
            else if opc = BPF_CALL then mark 2 (mark 1 (mark 0 used))
            else if opc \<noteq> BPF_JA then
              (let used = mark (dst i) used in if x then mark (src i) used else used)
            else used)
         else used)"

function scan_loop :: "insn list \<Rightarrow> nat \<Rightarrow> bool list \<Rightarrow> bool list" where
  "scan_loop insns i used =
     (if i < length insns then
        (if code (insns ! i) = LD_IMM64 then scan_loop insns (i + 2) (mark (dst (insns ! i)) used)
         else scan_loop insns (i + 1) (mark_insn (insns ! i) used))
      else used)"
  by pat_completeness auto
termination
  by (relation "measure (\<lambda>(insns, i, used). length insns - i)") auto

declare scan_loop.simps [simp del]

definition scan_used_regs :: "insn list \<Rightarrow> tstate \<Rightarrow> tstate" where
  "scan_used_regs insns s =
     s\<lparr>t_reg_used := mark 1 (scan_loop insns 0 (replicate NUM_BPF_REGS False))\<rparr>"

section \<open>Basic blocks\<close>

function leaders_loop :: "insn list \<Rightarrow> nat \<Rightarrow> bool list \<Rightarrow> tstate \<Rightarrow> bool list \<times> tstate" where
  "leaders_loop insns i L s =
     (if i < length insns then
        (let n = length insns; ins = insns ! i
         in if code ins = LD_IMM64 then leaders_loop insns (i + 2) L s
            else if \<not> is_jmp ins then leaders_loop insns (i + 1) L s
            else if i_op ins = BPF_JA \<and> off ins = 0 then leaders_loop insns (i + 1) L s
            else
              let L = (if i + 1 < n then L[i + 1 := True] else L)
              in if i_op ins = BPF_EXIT \<or> i_op ins = BPF_CALL then leaders_loop insns (i + 1) L s
                 else
                   let target = int i + 1 + off ins
                   in if target < 0 \<or> target > int n
                      then leaders_loop insns (i + 1) L (unsupported i (JumpRange target) s)
                      else
                        let s = (if target \<le> int i then unsupported i (BackwardJump target) s else s)
                        in leaders_loop insns (i + 1) (L[nat target := True]) s)
      else (L, s))"
  by pat_completeness auto
termination
  by (relation "measure (\<lambda>(insns, i, L, s). length insns - i)") auto

declare leaders_loop.simps [simp del]

definition leaders :: "insn list \<Rightarrow> tstate \<Rightarrow> bool list \<times> tstate" where
  "leaders insns s =
     (let n = length insns; L = replicate (n + 1) False
      in leaders_loop insns 0 (if n \<noteq> 0 then L[0 := True] else L) s)"

definition find_leaders :: "insn list \<Rightarrow> tstate \<Rightarrow> (nat list \<times> nat list) \<times> tstate" where
  "find_leaders insns s =
     (let (L, s) = leaders insns s; n = length insns
      in ((filter (\<lambda>k. L ! k) [0..<n],
           map (\<lambda>k. length (filter (\<lambda>j. L ! j) [0..<Suc k]) - 1) [0..<n]), s))"

definition jmp_is_conditional :: "insn \<Rightarrow> bool" where
  "jmp_is_conditional i \<longleftrightarrow> is_jmp i \<and> i_op i \<notin> {BPF_JA, BPF_EXIT, BPF_CALL}"

section \<open>Modules\<close>

definition pc_entry :: "nat \<Rightarrow> match_entry" where
  "pc_entry pc = cmp_entry H_PC CmpEq (match_const (int pc) W64)"

definition push_module :: "ir_rule list \<Rightarrow> tstate \<Rightarrow> tstate" where
  "push_module rules s =
     s\<lparr>t_modules := t_modules s @ [TransformerModule (t_next_mod s) rules],
       t_next_mod := t_next_mod s + 1\<rparr>"

definition push_transformer :: "ir_rule list \<Rightarrow> tstate \<Rightarrow> tstate" where
  "push_transformer rules s = push_module (rules @ [default_rule]) s"

section \<open>One block\<close>

text \<open>
  Where control goes after the block that ends before \<open>e\<close>: the fallthrough and the taken
  successor, each as the block it enters (if any) and the program-counter value that selects it.
\<close>

definition jump_target :: "insn list \<Rightarrow> nat list \<Rightarrow> nat \<Rightarrow> insn \<Rightarrow> nat option \<times> nat" where
  "jump_target insns block_of e term =
     (let t = int e + off term
      in if 0 \<le> t \<and> t < int (length insns)
         then (Some (block_of ! nat t), BLOCK_PC (nat t)) else (None, PC_HALT))"

definition successors ::
  "insn list \<Rightarrow> nat list \<Rightarrow> nat \<Rightarrow> bool \<Rightarrow> insn \<Rightarrow> (nat option \<times> nat) \<times> (nat option \<times> nat)" where
  "successors insns block_of e has_term term =
     (let halt = (None, PC_HALT);
          next_blk = (if e < length insns then (Some (block_of ! e), BLOCK_PC e) else halt);
          target = jump_target insns block_of e term
      in if \<not> has_term then (next_blk, halt)
         else if i_op term = BPF_EXIT then (halt, halt)
         else if i_op term = BPF_CALL then (next_blk, (None, snd next_blk))
         else if i_op term = BPF_JA then (halt, target)
         else (next_blk, target))"

definition translate_call ::
  "nat \<Rightarrow> insn \<Rightarrow> abs_state \<Rightarrow> tstate \<Rightarrow> (arm list option \<times> abs_state \<times> tstate) option" where
  "translate_call idx term st s =
     (if src term \<noteq> 0 then Some (None, st, unsupported idx SubprogramCall s)
      else if imm term = BPF_FUNC_map_lookup_elem then emit_map_lookup idx st s
      else if imm term = BPF_FUNC_map_update_elem then emit_map_update idx st s
      else Some (None, st, unsupported idx (HelperCall (imm term)) s))"

text \<open>
  The terminator's decision: the condition of a conditional jump, the arms of a helper call, or
  neither.
\<close>

definition translate_term ::
  "nat \<Rightarrow> bool \<Rightarrow> insn \<Rightarrow> abs_state \<Rightarrow> tstate
     \<Rightarrow> ((match_entry \<times> bool) option \<times> arm list option \<times> abs_state \<times> tstate) option" where
  "translate_term idx has_term term st s =
     (if has_term \<and> jmp_is_conditional term then
        (let (cond, s) = emit_condition idx term s in Some (cond, None, st, s))
      else if has_term \<and> i_op term = BPF_CALL then
        map_option (Pair None) (translate_call idx term st s)
      else Some (None, None, st, s))"

text \<open>The transformers of a block, from its decision and its successors' program counters.\<close>

definition push_block ::
  "nat \<Rightarrow> (match_entry \<times> bool) option \<Rightarrow> arm list option \<Rightarrow> nat \<Rightarrow> nat \<Rightarrow> nat \<Rightarrow> tstate \<Rightarrow> tstate" where
  "push_block start cond map_arms fall_pc take_pc next_pc s =
     (let decide = (\<lambda>arms.
            push_transformer
              (map (\<lambda>(entries, ops, pc).
                      rule (pc_entry (DECIDE_PC start) # entries) (ops @ [set_pc_op pc H_PC])) arms)
              (let s = emit (op_raw (set_pc_op (DECIDE_PC start) H_PC)) s
               in push_transformer [rule [pc_entry (BLOCK_PC start)] (t_ops s)] s))
      in case (map_arms, cond) of
           (Some arms, _) \<Rightarrow> decide (map (\<lambda>(entries, ops). (entries, ops, fall_pc)) arms)
         | (None, Some (entry, swap)) \<Rightarrow>
             decide [([entry], [], if swap then fall_pc else take_pc),
                     ([], [], if swap then take_pc else fall_pc)]
         | (None, None) \<Rightarrow>
             (let s = emit (op_raw (set_pc_op next_pc H_PC)) s
              in push_transformer [rule [pc_entry (BLOCK_PC start)] (t_ops s)] s))"

definition join_succ :: "abs_state \<Rightarrow> nat option \<Rightarrow> abs_state list \<Rightarrow> abs_state list" where
  "join_succ st succ block_in =
     (case succ of None \<Rightarrow> block_in
      | Some b \<Rightarrow> block_in[b := join_from (block_in ! b) (st\<lparr>a_live := True\<rparr>)])"

definition translate_block ::
  "insn list \<Rightarrow> nat list \<Rightarrow> nat list \<Rightarrow> nat \<Rightarrow> abs_state list \<Rightarrow> tstate
     \<Rightarrow> (abs_state list \<times> tstate) option" where
  "translate_block insns block_start block_of b block_in s =
     (let n = length insns;
          start = block_start ! b;
          e = (if b + 1 < length block_start then block_start ! (b + 1) else n);
          st = (if a_live (block_in ! b) then block_in ! b else abs_init);
          term = insns ! (e - 1);
          has_term = (is_jmp term \<and> \<not> is_nop_jump term);
          body_end = (if has_term then e - 1 else e)
      in do {
        (st, s) \<leftarrow> translate_body insns start body_end st (s\<lparr>t_ops := []\<rparr>);
        (cond, map_arms, st, s) \<leftarrow> translate_term (e - 1) has_term term st s;
        let ((fall_blk, fall_pc), (take_blk, take_pc)) = successors insns block_of e has_term term;
        Some (join_succ st take_blk (join_succ st fall_blk block_in),
              push_block start cond map_arms fall_pc take_pc
                (if take_blk \<noteq> None then take_pc else fall_pc) s) })"

section \<open>The program\<close>

definition translate_preamble :: "tstate \<Rightarrow> tstate" where
  "translate_preamble s =
     (let s = fold (\<lambda>r s. if t_reg_used s ! r then emit (op_set (H_REG r) 0) s else s)
                [0..<NUM_BPF_REGS] (s\<lparr>t_ops := []\<rparr>);
          s = emit (op_raw (set_pc_op (BLOCK_PC 0) H_PC)) s
      in push_module [rule [] (t_ops s)] s)"

fun translate_blocks ::
  "insn list \<Rightarrow> nat list \<Rightarrow> nat list \<Rightarrow> nat list \<Rightarrow> abs_state list \<Rightarrow> tstate \<Rightarrow> tstate option" where
  "translate_blocks insns block_start block_of [] block_in s = Some s"
| "translate_blocks insns block_start block_of (b # bs) block_in s =
     (case translate_block insns block_start block_of b block_in s of
        None \<Rightarrow> None
      | Some (block_in, s) \<Rightarrow> translate_blocks insns block_start block_of bs block_in s)"

definition entry_state :: abs_state where
  "entry_state = (set_reg 10 (pointer T_STACK 0) (set_reg 1 (pointer T_CTX 0) abs_init))
     \<lparr>a_live := True\<rparr>"

definition translate_program :: "insn list \<Rightarrow> tstate \<Rightarrow> tstate option" where
  "translate_program insns s =
     (let ((block_start, block_of), s) = find_leaders insns s;
          s = scan_used_regs insns s;
          nblocks = length block_start;
          block_in = replicate nblocks abs_init;
          block_in = (if nblocks \<noteq> 0 then block_in[0 := entry_state] else block_in);
          s = translate_preamble s
      in translate_blocks insns block_start block_of [0..<nblocks] block_in s)"

end
