(* ===== verification/Frame.thy ===== *)
theory Frame
  imports Conditions Map_Helpers
begin

text \<open>
  What no emitter of \<open>src/pybpf/translate.py\<close> does: clear the error flag, drop an op already
  emitted, write the program-counter header, add a module, or touch the map table.  One relation
  on states, \<open>extends\<close>, says all of it; every emitter is shown to respect it.
\<close>

section \<open>Targets\<close>

text \<open>
  The headers the emitted code may write: registers (10 to 25), scratch (30 to 93), stack slots
  (100 and up).  Below are the program counter and the ids the back end keeps.  A register always
  holds a value of 64 bits; scratch headers and stack slots hold other widths too.
\<close>

fun out_width :: "ir_op \<Rightarrow> width" where
  "out_width (StatelessOp f w a b t) = w"
| "out_width (CastHeaderOp frm to a t) = to"
| "out_width (LoadOp w rg a t) = w"
| "out_width (StoreOp w rg a v) = w"

definition safe_op :: "ir_op \<Rightarrow> bool" where
  "safe_op op \<longleftrightarrow> (\<forall>t. op_target op = Some t \<longrightarrow> 10 \<le> t \<and> (t < 30 \<longrightarrow> out_width op = W64))"

definition safe_ops :: "ops \<Rightarrow> bool" where
  "safe_ops ops \<longleftrightarrow> list_all safe_op ops"

lemma safe_op_simps [simp]:
  "safe_op (StatelessOp f w a b t) \<longleftrightarrow> 10 \<le> t \<and> (t < 30 \<longrightarrow> w = W64)"
  "safe_op (CastHeaderOp w w' a t) \<longleftrightarrow> 10 \<le> t \<and> (t < 30 \<longrightarrow> w' = W64)"
  "safe_op (LoadOp w r a t) \<longleftrightarrow> 10 \<le> t \<and> (t < 30 \<longrightarrow> w = W64)"
  "safe_op (StoreOp w r a b)"
  by (simp_all add: safe_op_def)

lemma safe_ops_simps [simp]:
  "safe_ops []" "safe_ops (op # ops) \<longleftrightarrow> safe_op op \<and> safe_ops ops"
  "safe_ops (xs @ ys) \<longleftrightarrow> safe_ops xs \<and> safe_ops ys"
  by (simp_all add: safe_ops_def)

lemma safe_ops_builders [simp]:
  "safe_ops (op_binop f w a b t ops) \<longleftrightarrow> safe_ops ops \<and> 10 \<le> t \<and> (t < 30 \<longrightarrow> w = W64)"
  "safe_ops (op_cast w w' a t ops) \<longleftrightarrow> safe_ops ops \<and> 10 \<le> t \<and> (t < 30 \<longrightarrow> w' = W64)"
  "safe_ops (op_load w r a t ops) \<longleftrightarrow> safe_ops ops \<and> 10 \<le> t \<and> (t < 30 \<longrightarrow> w = W64)"
  "safe_ops (op_store w r a b ops) \<longleftrightarrow> safe_ops ops"
  "safe_ops (op_set t v ops) \<longleftrightarrow> safe_ops ops \<and> 10 \<le> t"
  "safe_ops (op_move t u ops) \<longleftrightarrow> safe_ops ops \<and> 10 \<le> t"
  by (auto simp: op_defs)

lemma safe_ops_pc: "safe_ops ops \<Longrightarrow> rd (eval_ops ops h) H_PC = rd h H_PC"
proof (rule eval_ops_frame)
  assume safe: "safe_ops ops"
  have "op_target op \<noteq> Some H_PC" if "op \<in> set ops" for op
    using safe that by (auto simp: safe_ops_def safe_op_def list_all_iff)
  then show "Some H_PC \<notin> op_target ` set ops" by (metis imageE)
qed

section \<open>The stack-slot headers\<close>

text \<open>
  The invariant of \<open>stack_hdr_of\<close>: slots have distinct headers, all of them from the stack range
  and already handed out.
\<close>

definition stack_ok :: "tstate \<Rightarrow> bool" where
  "stack_ok s \<longleftrightarrow> H_STACK_BASE \<le> t_next_stack_hdr s \<and> inj_on (t_stack_hdr_of s) (dom (t_stack_hdr_of s))
     \<and> (\<forall>h \<in> ran (t_stack_hdr_of s). H_STACK_BASE \<le> h \<and> h < t_next_stack_hdr s)"

lemma stack_ok_init: "stack_ok (translator_init ctx n)"
  by (simp add: stack_ok_def translator_init_def)

lemma stack_ok_cong:
  "t_stack_hdr_of s' = t_stack_hdr_of s \<Longrightarrow> t_next_stack_hdr s' = t_next_stack_hdr s \<Longrightarrow>
   stack_ok s' = stack_ok s"
  by (simp add: stack_ok_def)

lemma stack_ok_simps [simp]:
  "stack_ok (unsupported i d s) = stack_ok s" "stack_ok (emit f s) = stack_ok s"
  "stack_ok (s\<lparr>t_tmp_next := k\<rparr>) = stack_ok s" "stack_ok (snd (fresh_tmp idx s)) = stack_ok s"
  by (rule stack_ok_cong; simp add: fresh_tmp_def Let_def emit_def)+

lemma stack_header_ok:
  assumes "stack_ok s" "stack_header slot s = (h, s')"
  shows "stack_ok s'" and "h \<noteq> 0 \<Longrightarrow> 100 \<le> h \<and> t_stack_hdr_of s' slot = Some h"
proof -
  consider "slot < 0 \<or> slot > int BPF_STACK_SIZE" | x where "t_stack_hdr_of s slot = Some x"
      "\<not> (slot < 0 \<or> slot > int BPF_STACK_SIZE)"
    | "t_stack_hdr_of s slot = None" "\<not> (slot < 0 \<or> slot > int BPF_STACK_SIZE)"
    by fastforce
  then have "stack_ok s' \<and> (h \<noteq> 0 \<longrightarrow> 100 \<le> h \<and> t_stack_hdr_of s' slot = Some h)"
  proof cases
    case 3
    then have s': "h = t_next_stack_hdr s" "s' = s\<lparr>t_stack_hdr_of := (t_stack_hdr_of s)(slot \<mapsto> h),
        t_next_stack_hdr := h + 1\<rparr>"
      using assms(2) by (auto simp: stack_header_def)
    have "inj_on (t_stack_hdr_of s') (dom (t_stack_hdr_of s'))"
      using assms(1) 3 unfolding s' stack_ok_def
      by (auto simp: inj_on_def ran_def dom_def)
    then show ?thesis
      using assms(1) 3 unfolding s' stack_ok_def by (simp add: less_Suc_eq)
  qed (use assms in \<open>auto simp: stack_header_def stack_ok_def ran_def split: if_splits\<close>)
  then show "stack_ok s'" and "h \<noteq> 0 \<Longrightarrow> 100 \<le> h \<and> t_stack_hdr_of s' slot = Some h"
    by blast+
qed


section \<open>The frame relation\<close>

definition extends :: "tstate \<Rightarrow> tstate \<Rightarrow> bool" where
  "extends s s' \<longleftrightarrow>
     (t_had_error s \<longrightarrow> t_had_error s') \<and> t_modules s' = t_modules s
     \<and> t_next_mod s' = t_next_mod s \<and> t_maps s' = t_maps s
     \<and> t_insn_map_idx s' = t_insn_map_idx s \<and> t_reg_used s' = t_reg_used s
     \<and> (stack_ok s \<longrightarrow> stack_ok s' \<and> (\<exists>new. t_ops s' = t_ops s @ new \<and> safe_ops new))"

named_theorems extends_intros \<open>emitters respect extends\<close>

lemma extends_refl [extends_intros]: "extends s s"
  by (auto simp: extends_def)

lemma extends_trans: "extends s0 s \<Longrightarrow> extends s s' \<Longrightarrow> extends s0 s'"
  by (auto simp: extends_def)

lemma extends_stack_ok: "extends s0 s \<Longrightarrow> stack_ok s0 \<Longrightarrow> stack_ok s"
  by (simp add: extends_def)

lemma extends_error: "extends s s' \<Longrightarrow> \<not> t_had_error s' \<Longrightarrow> \<not> t_had_error s"
  by (auto simp: extends_def)

lemma extends_same:
  "extends s0 s \<Longrightarrow> (t_had_error s \<longrightarrow> t_had_error s') \<Longrightarrow> t_modules s' = t_modules s
   \<Longrightarrow> t_next_mod s' = t_next_mod s \<Longrightarrow> t_maps s' = t_maps s
   \<Longrightarrow> t_insn_map_idx s' = t_insn_map_idx s \<Longrightarrow> t_reg_used s' = t_reg_used s
   \<Longrightarrow> t_stack_hdr_of s' = t_stack_hdr_of s \<Longrightarrow> t_next_stack_hdr s' = t_next_stack_hdr s
   \<Longrightarrow> t_ops s' = t_ops s \<Longrightarrow> extends s0 s'"
  by (simp add: extends_def stack_ok_cong [of s' s])

lemma extends_unsupported [extends_intros]: "extends s0 s \<Longrightarrow> extends s0 (unsupported i d s)"
  by (rule extends_same) simp_all

lemma extends_tmp_next [extends_intros]: "extends s0 s \<Longrightarrow> extends s0 (s\<lparr>t_tmp_next := k\<rparr>)"
  by (rule extends_same) simp_all

lemma extends_const_keys [extends_intros]:
  "extends s0 s \<Longrightarrow> extends s0 (s\<lparr>t_map_const_keys := f\<rparr>)"
  by (rule extends_same) simp_all

lemma extends_count_map_site [extends_intros]:
  "extends s0 s \<Longrightarrow> extends s0 (count_map_site m s)"
  by (rule extends_same) (simp_all add: count_map_site_def)

lemma extends_fresh_tmp [extends_intros]: "extends s0 s \<Longrightarrow> extends s0 (snd (fresh_tmp idx s))"
  by (auto simp: fresh_tmp_def Let_def intro: extends_same)

lemma fresh_tmp_ge [simp]: "30 \<le> fst (fresh_tmp idx s)" "\<not> fst (fresh_tmp idx s) < 30" "10 \<le> fst (fresh_tmp idx s)"
  by (auto simp: fresh_tmp_def Let_def)

lemma extends_stack_header [extends_intros]:
  assumes "extends s0 s" shows "extends s0 (snd (stack_header slot s))"
proof -
  obtain h s' where *: "stack_header slot s = (h, s')" by fastforce
  then have "t_had_error s' = t_had_error s" "t_modules s' = t_modules s"
      "t_next_mod s' = t_next_mod s" "t_maps s' = t_maps s"
      "t_insn_map_idx s' = t_insn_map_idx s" "t_reg_used s' = t_reg_used s" "t_ops s' = t_ops s"
    by (auto simp: stack_header_def split: if_splits option.splits)
  with * assms stack_header_ok [OF _ *] show ?thesis
    by (auto simp: extends_def)
qed

lemma stack_header_ge [extends_intros]:
  assumes "fst (stack_header slot s) \<noteq> 0" "stack_ok (snd (stack_header slot s))"
  shows "10 \<le> fst (stack_header slot s) \<and> (fst (stack_header slot s) < 30 \<longrightarrow> w = W64)"
proof -
  have "t_stack_hdr_of (snd (stack_header slot s)) slot = Some (fst (stack_header slot s))"
    using assms(1) by (auto simp: stack_header_def split: option.splits if_splits)
  with assms(2) show ?thesis by (auto simp: stack_ok_def ran_def)
qed

lemma extends_emit:
  assumes "extends s0 s" "\<And>ops. stack_ok s \<Longrightarrow> \<exists>new. f ops = ops @ new \<and> safe_ops new"
  shows "extends s0 (emit f s)"
proof -
  have "\<exists>new. f (t_ops s) = t_ops s0 @ new \<and> safe_ops new" if ok: "stack_ok s0"
  proof -
    obtain a where "t_ops s = t_ops s0 @ a" "safe_ops a" "stack_ok s"
      using assms(1) ok by (auto simp: extends_def)
    moreover obtain b where "f (t_ops s) = t_ops s @ b" "safe_ops b"
      using assms(2) [of "t_ops s"] \<open>stack_ok s\<close> by blast
    ultimately show ?thesis by (auto intro!: exI [of _ "a @ b"])
  qed
  then show ?thesis using assms(1) by (simp add: extends_def)
qed

lemma extends_emit_op [extends_intros]:
  "extends s0 s \<Longrightarrow> (stack_ok s \<Longrightarrow> 10 \<le> t \<and> (t < 30 \<longrightarrow> w = W64)) \<Longrightarrow> extends s0 (emit (op_binop f w a b t) s)"
  "extends s0 s \<Longrightarrow> (stack_ok s \<Longrightarrow> 10 \<le> t \<and> (t < 30 \<longrightarrow> w' = W64)) \<Longrightarrow> extends s0 (emit (op_cast w w' a t) s)"
  "extends s0 s \<Longrightarrow> (stack_ok s \<Longrightarrow> 10 \<le> t \<and> (t < 30 \<longrightarrow> w = W64)) \<Longrightarrow> extends s0 (emit (op_load w r a t) s)"
  "extends s0 s \<Longrightarrow> extends s0 (emit (op_store w r a b) s)"
  "extends s0 s \<Longrightarrow> (stack_ok s \<Longrightarrow> 10 \<le> t) \<Longrightarrow> extends s0 (emit (op_set t v) s)"
  "extends s0 s \<Longrightarrow> (stack_ok s \<Longrightarrow> 10 \<le> t) \<Longrightarrow> extends s0 (emit (op_move t u) s)"
  by (rule extends_emit; simp add: op_defs)+

lemma extends_if [extends_intros]:
  "(c \<Longrightarrow> extends s0 a) \<Longrightarrow> (\<not> c \<Longrightarrow> extends s0 b) \<Longrightarrow> extends s0 (if c then a else b)"
  by simp

lemma extends_snd_if [extends_intros]:
  "(c \<Longrightarrow> extends s0 (snd a)) \<Longrightarrow> (\<not> c \<Longrightarrow> extends s0 (snd b)) \<Longrightarrow> extends s0 (snd (if c then a else b))"
  by simp

lemma extends_fold:
  assumes "extends s0 s" "\<And>x s. extends s0 s \<Longrightarrow> extends s0 (f x s)"
  shows "extends s0 (fold f xs s)"
  using assms by (induction xs arbitrary: s) simp_all

section \<open>Straight-line instructions\<close>

lemma extends_emit_arsh_const [extends_intros]:
  "extends s0 s \<Longrightarrow> (stack_ok s \<Longrightarrow> 10 \<le> reg \<and> (reg < 30 \<longrightarrow> wb = 64)) \<Longrightarrow>
     extends s0 (emit_arsh_const idx reg k wb s)"
  unfolding emit_arsh_const_def Let_def split_beta
  by (intro extends_intros) (auto intro: extends_intros)


lemma extends_emit_bswap [extends_intros]:
  assumes "extends s0 s" "stack_ok s \<Longrightarrow> 10 \<le> target"
  shows "extends s0 (emit_bswap idx sr n target s)"
proof -
  have byte: "extends s0 (bswap_byte n a b c i s)"
    if "extends s0 s" "10 \<le> b" "10 \<le> c" for a b c i s
    using that unfolding bswap_byte_def Let_def by (intro extends_intros) auto
  have loop: "extends s0 (fold (bswap_byte n a b c) xs s)"
    if "extends s0 s" "10 \<le> b" "10 \<le> c" for a b c xs s
    using that by (intro extends_fold byte)
  have stack: "stack_ok (fold (bswap_byte n a b c) xs s) = stack_ok s" for a b c xs s
    by (induction xs arbitrary: s) (simp_all add: bswap_byte_def Let_def)
  show ?thesis
    unfolding emit_bswap_def Let_def split_beta
    by (intro extends_intros loop) (use assms in \<open>auto simp: stack\<close>)
qed

lemma extends_alu_emit [extends_intros]:
  "extends s0 s \<Longrightarrow> extends s0 (alu_emit idx i is64 s)"
  unfolding alu_emit_def Let_def split_beta
  by (intro extends_if) (auto intro!: extends_intros split: option.split)

lemma extends_translate_alu [extends_intros]:
  "extends s0 s \<Longrightarrow> extends s0 (snd (translate_alu idx i is64 st s))"
  unfolding translate_alu_def by (auto intro!: extends_intros)

lemma extends_ctx_access_ok [extends_intros]:
  "extends s0 s \<Longrightarrow> extends s0 (snd (ctx_access_ok idx base o' n what s))"
  unfolding ctx_access_ok_def Let_def by (auto intro!: extends_intros)

lemma extends_emit_address [extends_intros]:
  "extends s0 s \<Longrightarrow> extends s0 (snd (emit_address idx b o' s))"
  unfolding emit_address_def Let_def split_beta by (auto intro!: extends_intros)

lemma stack_ok_ctx_access [simp]: "stack_ok (snd (ctx_access_ok idx base o' n what s)) = stack_ok s"
  by (simp add: ctx_access_ok_def Let_def)

lemma extends_translate_ldx:
  assumes "translate_ldx idx i st s = Some (st', s')" "extends s0 s"
  shows "extends s0 s'"
  using assms unfolding translate_ldx_def Let_def split_beta
  by (auto split: if_splits bind_splits intro!: extends_intros)

lemma extends_translate_store:
  assumes "translate_store idx i st fr s = Some (st', s')" "extends s0 s"
  shows "extends s0 s'"
  using assms unfolding translate_store_def Let_def split_beta
  by (auto split: if_splits bind_splits intro!: extends_intros)

lemma extends_translate_ld_pkt [extends_intros]:
  "extends s0 s \<Longrightarrow> extends s0 (snd (translate_ld_pkt idx i st s))"
  unfolding translate_ld_pkt_def Let_def split_beta by (auto intro!: extends_intros)

section \<open>Conditions and helper calls\<close>

lemma extends_emit_condition [extends_intros]:
  assumes "extends s0 s" shows "extends s0 (snd (emit_condition idx i s))"
proof -
  have jset: "extends s0 (snd (emit_jset idx i s))" if "extends s0 s" for s
    using that unfolding emit_jset_def Let_def split_beta by (auto intro!: extends_intros)
  have operands: "extends s0 (snd (emit_operands idx i s))" if "extends s0 s" for s
    using that unfolding emit_operands_def Let_def split_beta by (auto intro!: extends_intros)
  show ?thesis
    using assms unfolding emit_condition_def Let_def split_beta
    by (auto intro!: extends_intros jset operands split: option.split)
qed

lemma extends_check_map_modelled [extends_intros]:
  "extends s0 s \<Longrightarrow> extends s0 (snd (check_map_modelled idx mi s))"
  unfolding check_map_modelled_def by (auto intro!: extends_intros)

lemma extends_check_array_key [extends_intros]:
  "extends s0 s \<Longrightarrow> extends s0 (snd (check_array_key idx m key s))"
  unfolding check_array_key_def Let_def by (auto intro!: extends_intros split: option.split)

lemma extends_read_map_key [extends_intros]:
  "extends s0 s \<Longrightarrow> extends s0 (snd (read_map_key idx kp kw s))"
  unfolding read_map_key_def Let_def split_beta by (auto intro!: extends_intros)

lemma extends_emit_slot [extends_intros]:
  "extends s0 s \<Longrightarrow> extends s0 (snd (emit_slot idx m kp st kw s))"
  unfolding emit_slot_def Let_def split_beta by (auto intro!: extends_intros split: option.split)

lemma extends_read_cells [extends_intros]:
  "30 \<le> t_raw \<Longrightarrow> extends s0 s \<Longrightarrow> extends s0 (snd (read_cells idx region w t_raw offs s))"
proof (induction offs arbitrary: s)
  case (Cons a offs)
  show ?case
    unfolding read_cells.simps Let_def split_beta snd_conv
    by (rule Cons.IH) (use Cons.prems in \<open>auto intro!: extends_intros\<close>)
qed simp

lemma extends_emit_slot_headers [extends_intros]:
  "extends s0 s \<Longrightarrow> extends s0 (snd (emit_slot_headers idx m mi kw s))"
  unfolding emit_slot_headers_def Let_def split_beta by (auto intro!: extends_intros)

lemma extends_emit_array_lookup [extends_intros]:
  "extends s0 s \<Longrightarrow> extends s0 (snd (emit_array_lookup idx m mi kp st kw s))"
  unfolding emit_array_lookup_def Let_def split_beta
  by (auto intro!: extends_intros split: option.split)

lemma extends_emit_tagged_lookup [extends_intros]:
  "extends s0 s \<Longrightarrow> extends s0 (snd (emit_tagged_lookup idx m mi kp kw s))"
  unfolding emit_tagged_lookup_def Let_def split_beta
  by (auto intro!: extends_intros split: option.split)

lemma extends_emit_map_lookup:
  "emit_map_lookup idx st s = Some (arms, st', s') \<Longrightarrow> extends s s'"
  unfolding emit_map_lookup_def Let_def split_beta
  by (auto split: if_splits option.splits intro!: extends_intros)

lemma copy_map_value_frame:
  assumes "copy_map_value idx vp mi m dest ops s = ((ok, ops'), s')"
  shows "extends s s'" "t_ops s' = t_ops s" "\<exists>new. ops' = ops @ new \<and> safe_ops new"
proof -
  have loop: "\<exists>new. fold (\<lambda>i ops. op_store W8 r (hdr b) (hdr c) (op_load W8 q (hdr a) c
        (op_binop AddOp W64 d (konst (int i)) b (op_binop AddOp W64 (hdr (H_REG 3)) (konst (int i)) a ops)))) xs ops
      = ops @ new \<and> safe_ops new" if "30 \<le> a" "30 \<le> b" "30 \<le> c" for a b c d r q xs ops
  proof (induction xs arbitrary: ops)
    case (Cons x xs)
    show ?case
      using Cons [of "op_store W8 r (hdr b) (hdr c) (op_load W8 q (hdr a) c
        (op_binop AddOp W64 d (konst (int x)) b (op_binop AddOp W64 (hdr (H_REG 3)) (konst (int x)) a ops)))"] that
      by (fastforce simp: op_defs)
  qed simp
  have stack: "t_ops (snd (stack_header sl s)) = t_ops s" for sl s
    by (simp add: stack_header_def split: option.split)
  have tmp: "t_ops (snd (fresh_tmp idx s)) = t_ops s" for s
    by (simp add: fresh_tmp_def Let_def)
  show "extends s s'"
    using assms unfolding copy_map_value_def Let_def split_beta
    by (auto split: if_splits intro!: extends_intros)
  show "t_ops s' = t_ops s"
    using assms unfolding copy_map_value_def Let_def split_beta
    by (auto split: if_splits simp: stack tmp)
  show "\<exists>new. ops' = ops @ new \<and> safe_ops new"
    using assms loop unfolding copy_map_value_def Let_def split_beta
    by (auto split: if_splits simp: op_defs)
qed

definition safe_arms :: "arm list \<Rightarrow> bool" where
  "safe_arms arms \<longleftrightarrow> list_all (\<lambda>(es, ops). safe_ops ops) arms"

lemma arm_ops_frame:
  assumes "arm_ops idx m mi vp kw t_tag mark i ins s = (r, s')"
  shows "extends s s'" "\<And>ops. r = Some ops \<Longrightarrow> safe_ops ops"
proof -
  let ?s = "s\<lparr>t_tmp_next := mark\<rparr>"
  let ?o = "if ins then op_store W8 (REGION_MAP m) (konst (int i)) (konst 1)
       (op_store kw (REGION_MAP m) (konst (int (m_tag_off mi i))) (hdr t_tag) []) else []"
  obtain ok ops' where c: "copy_map_value idx vp mi m (konst (int (m_value_off mi i))) ?o ?s = ((ok, ops'), s')"
    and r: "r = (if ok then Some (op_set (H_REG 0) 0 ops') else None)"
    using assms unfolding arm_ops_def Let_def by (auto split: prod.splits if_splits)
  show "extends s s'"
    using extends_trans [OF extends_tmp_next [OF extends_refl] copy_map_value_frame(1) [OF c]] .
  have "safe_ops ?o" by simp
  with copy_map_value_frame(3) [OF c] have "safe_ops ops'" by force
  then show "\<And>ops. r = Some ops \<Longrightarrow> safe_ops ops"
    using r by (auto split: if_splits)
qed

lemma slot_arms_frame:
  assumes "\<And>i s r s'. mk i s = (r, s') \<Longrightarrow> extends s s' \<and> (\<forall>ops. r = Some ops \<longrightarrow> safe_ops ops)"
  shows "slot_arms mk entries xs s = (r, s') \<Longrightarrow>
     extends s s' \<and> (\<forall>arms. r = Some arms \<longrightarrow> safe_arms arms)"
proof (induction xs arbitrary: s r)
  case (Cons x xs)
  obtain a t where m: "mk x s = (a, t)" by fastforce
  obtain b u where rest: "slot_arms mk entries xs t = (b, u)" by fastforce
  from Cons m rest assms [OF m] Cons.IH [of t b] show ?case
    by (auto simp: safe_arms_def split: option.splits intro: extends_trans)
qed (simp add: extends_refl safe_arms_def)


lemma tagged_arms_frame:
  "slot_arms (\<lambda>i. arm_ops idx m mi vp kw t mk i ins) es xs s = (r, s') \<Longrightarrow>
     extends s s' \<and> (\<forall>arms. r = Some arms \<longrightarrow> safe_arms arms)"
  by (rule slot_arms_frame) (auto dest: arm_ops_frame)

lemma extends_emit_tagged_update [extends_intros]:
  assumes "extends s0 s" shows "extends s0 (snd (emit_tagged_update idx m mi kp vp kw s))"
proof -
  have arms: "extends s0 (snd (slot_arms (\<lambda>i. arm_ops idx m mi vp kw t mk i ins) es xs s))"
    if "extends s0 s" for t mk ins es xs s
    using tagged_arms_frame [of idx m mi vp kw t mk ins es xs s] that extends_trans
    by (metis prod.collapse)
  show ?thesis
    unfolding emit_tagged_update_def Let_def split_beta
    by (auto intro!: extends_intros arms assms split: option.split)
qed

lemma extends_emit_array_update:
  assumes "emit_array_update idx m mi kp vp st kw s = (arms, st', s')" "extends s0 s"
  shows "extends s0 s'" "arms = None"
proof -
  have copy: "extends s0 (snd (copy_map_value idx vp mi m d ops s)
      \<lparr>t_ops := snd (fst (copy_map_value idx vp mi m d ops s))\<rparr>)"
    if "extends s0 s" "ops = t_ops s" for s ops d
  proof -
    obtain ok ops' s' where r: "copy_map_value idx vp mi m d ops s = ((ok, ops'), s')"
      by (metis prod.collapse)
    with that have c: "copy_map_value idx vp mi m d (t_ops s) s = ((ok, ops'), s')" by simp
    obtain new where new: "ops' = t_ops s @ new" "safe_ops new"
      using copy_map_value_frame(3) [OF c] by blast
    have "s'\<lparr>t_ops := ops'\<rparr> = emit (\<lambda>ops. ops @ new) s'"
      using new copy_map_value_frame(2) [OF c] by (simp add: emit_def)
    moreover have "extends s0 (emit (\<lambda>ops. ops @ new) s')"
      using extends_trans [OF that(1) copy_map_value_frame(1) [OF c]] new
      by (intro extends_emit) auto
    ultimately show ?thesis using r by simp
  qed
  show "extends s0 s'"
    using assms unfolding emit_array_update_def Let_def split_beta
    by (auto split: option.splits if_splits intro!: extends_intros copy)
  show "arms = None"
    using assms unfolding emit_array_update_def Let_def split_beta
    by (auto split: option.splits if_splits)
qed

lemma extends_emit_map_update:
  assumes "emit_map_update idx st s = Some (arms, st', s')" shows "extends s s'"
proof -
  have array: "extends s0 (snd (snd (emit_array_update idx m mi kp vp st kw s)))"
    if "extends s0 s" for s0 s m mi kp vp st kw
    using extends_emit_array_update(1) that by (metis prod.collapse)
  show ?thesis
    using assms array unfolding emit_map_update_def Let_def split_beta
    by (auto split: if_splits option.splits intro!: extends_intros) (metis snd_conv extends_intros)+
qed

section \<open>The arms of a helper call\<close>

lemma safe_arms_simps [simp]:
  "safe_arms []" "safe_arms ((es, ops) # arms) \<longleftrightarrow> safe_ops ops \<and> safe_arms arms"
  "safe_arms (xs @ ys) \<longleftrightarrow> safe_arms xs \<and> safe_arms ys"
  by (simp_all add: safe_arms_def)

lemma safe_emit_map_lookup:
  assumes "emit_map_lookup idx st s = Some (Some arms, st', s')" shows "safe_arms arms"
proof -
  have "safe_arms (lookup_arms mi t_key pres tags)" for mi t_key pres tags
    by (auto simp: lookup_arms_def safe_arms_def list_all_iff op_defs)
  with assms show ?thesis
    unfolding emit_map_lookup_def emit_array_lookup_def emit_tagged_lookup_def Let_def split_beta
    by (auto split: if_splits option.splits simp: op_defs)
qed

lemma safe_emit_map_update:
  assumes "emit_map_update idx st s = Some (Some arms, st', s')" shows "safe_arms arms"
proof -
  have arms: "safe_arms a"
    if "fst (slot_arms (\<lambda>i. arm_ops idx m mi vp kw t mk i ins) es xs s) = Some a"
    for m mi vp kw t mk ins es xs s a
    using tagged_arms_frame [of idx m mi vp kw t mk ins es xs s] that by (metis prod.collapse)
  have tagged: "safe_arms a" if "fst (emit_tagged_update idx m mi kp vp kw s) = Some a"
    for m mi kp vp kw s a
    using that unfolding emit_tagged_update_def Let_def split_beta
    by (auto split: option.splits dest!: arms simp: op_defs)
  have array: False if "emit_array_update idx m mi kp vp st kw s = (Some a, r)" for m mi kp vp st kw s a r
    using that unfolding emit_array_update_def Let_def split_beta
    by (auto split: option.splits if_splits)
  from assms show ?thesis
    unfolding emit_map_update_def Let_def split_beta
    by (auto split: if_splits option.splits intro: tagged dest: array)
qed

end
