(* ===== verification/Lowering.thy ===== *)
theory Lowering
  imports Program Frame
begin

text \<open>
  The lowering is correct: the chain of transformers \<open>translate_program\<close> emits computes, in the
  header of register 0, what the interpreter \<open>src/tests/bpfvm.py\<close> returns.  Memory instructions and
  helper calls are outside that interpreter, which stops on them; a run that returns has executed
  none, though the program may hold some.
\<close>

section \<open>One instruction\<close>

lemma extends_translate_one:
  assumes "translate_one idx insns st s = Some (k, st', s')" "extends s0 s"
  shows "extends s0 s'"
proof -
  have alu: "extends s0 t" if "translate_alu idx i b st u = (a, t)" "extends s0 u" for a t i b u
    using extends_translate_alu [OF that(2), of idx i b st] by (simp add: that(1))
  have pkt: "extends s0 t" if "translate_ld_pkt idx i st u = (a, t)" "extends s0 u" for a t i u
    using extends_translate_ld_pkt [OF that(2), of idx i st] by (simp add: that(1))
  show ?thesis
    using assms unfolding translate_one_def Let_def
    by (auto split: if_splits option.splits bind_splits prod.splits intro!: extends_intros
        intro: extends_translate_ldx extends_translate_store alu pkt)
qed

lemma abs_ok_set [simp]:
  "abs_ok (set_reg n v st) = abs_ok st" "abs_ok (set_slot sl v st) = abs_ok st"
  by (simp_all add: set_reg_def set_slot_def abs_ok_def)

lemma abs_ok_clobber [simp]: "abs_ok (clobber st) = abs_ok st"
proof -
  have "abs_ok (fold (\<lambda>r. set_reg r SCALAR) xs st) = abs_ok st" for xs :: "nat list" and st
    by (induction xs arbitrary: st) simp_all
  then show ?thesis by (simp add: clobber_def)
qed

lemma translate_one_abs_ok:
  assumes "translate_one idx insns st s = Some (k, st', s')"
  shows "abs_ok st' = abs_ok st"
proof -
  have alu: "abs_ok a = abs_ok st" if "translate_alu idx i b st u = (a, t)" for a t i b u
    using that by (auto simp: translate_alu_def alu_abstract_def Let_def split: if_splits)
  have pkt: "abs_ok a = abs_ok st" if "translate_ld_pkt idx i st u = (a, t)" for a t i u
    using that by (auto simp: translate_ld_pkt_def Let_def split: if_splits prod.splits)
  have ldx: "abs_ok a = abs_ok st" if "translate_ldx idx i st u = Some (a, t)" for a t i u
    using that unfolding translate_ldx_def Let_def split_beta
    by (auto simp: put_reg_def split: if_splits bind_splits)
  have store: "abs_ok a = abs_ok st" if "translate_store idx i st b u = Some (a, t)" for a t i b u
    using that unfolding translate_store_def Let_def split_beta
    by (auto split: if_splits bind_splits)
  show ?thesis
    using assms unfolding translate_one_def Let_def
    by (auto simp: put_reg_def split: if_splits option.splits bind_splits
        dest: alu pkt ldx store)
qed

text \<open>A jump in the body of a block, or the second slot of a wide load, is reported.\<close>

lemma translate_one_refuses:
  assumes "translate_one idx insns st s = Some (k, st', s')" "\<not> t_had_error s'"
  shows "is_jmp (insns ! idx) \<Longrightarrow> is_nop_jump (insns ! idx)" and "code (insns ! idx) \<noteq> 0"
  using assms unfolding translate_one_def Let_def
  by (auto simp: insn_fields opcode_fields split: if_splits option.splits bind_splits)

text \<open>The instructions the interpreter executes.\<close>

definition computes :: "insn \<Rightarrow> bool" where
  "computes i \<longleftrightarrow> code i = LD_IMM64 \<or> i_cls i \<in> {BPF_ALU, BPF_ALU64}
     \<or> is_jmp i \<and> (i_op i \<in> {BPF_JA, BPF_EXIT}
          \<or> i_op i \<noteq> BPF_CALL \<and> dst i < NUM_BPF_REGS \<and> (is_imm i \<or> src i < NUM_BPF_REGS))"

lemma imm64_class: "code i = LD_IMM64 \<Longrightarrow> i_cls i = BPF_LD \<and> \<not> is_jmp i \<and> \<not> is_nop_jump i"
  by (simp add: insn_fields opcode_fields)

lemma imm64_range:
  "0 \<le> push_bit 32 (take_bit 32 (a::int)) OR take_bit 32 b"
  "push_bit 32 (take_bit 32 (a::int)) OR take_bit 32 b < 2 ^ 64"
proof -
  let ?v = "push_bit 32 (take_bit 32 a) OR take_bit 32 b"
  have "take_bit 64 ?v = ?v"
    by (rule bit_eqI) (auto simp: bit_simps)
  then show "0 \<le> ?v" "?v < 2 ^ 64"
    by (metis take_bit_nonnegative, metis take_bit_int_less_exp)
qed

lemma translate_one_sim:
  assumes tr: "translate_one i insns st s = Some (k, st', s')"
    and ok: "\<not> t_had_error s'" and sim: "sim r (after s h)" and i: "i < length insns"
    and st: "abs_ok st" and maps: "t_insn_map_idx s = Map.empty"
  shows "(\<exists>r'. vm_step insns r (int i) = Next r' (int (i + k)) \<and> sim r' (after s' h)
            \<and> rd (after s' h) 1 = rd (after s h) 1)
         \<or> \<not> computes (insns ! i) \<and> vm_step insns r (int i) = Raise Halt"
proof -
  let ?i = "insns ! i" and ?s = "s\<lparr>t_tmp_next := 0\<rparr>"
  have nth: "py_nth insns (int i) = Some ?i" using i by (simp add: py_nth_nonneg)
  have pre: "sim r (after ?s h)" "t_tmp_next ?s = 0" using sim by simp_all
  consider "is_nop_jump ?i" | "\<not> is_nop_jump ?i" "code ?i = LD_IMM64"
    | b where "code ?i \<noteq> LD_IMM64" "\<not> is_nop_jump ?i" "i_cls ?i = (if b then BPF_ALU64 else BPF_ALU)"
    | "\<not> is_nop_jump ?i" "\<not> computes ?i" "\<not> is_jmp ?i" 
  proof -
    have "i_cls ?i = BPF_ALU \<or> i_cls ?i = BPF_ALU64 \<or> is_nop_jump ?i \<or> code ?i = LD_IMM64
        \<or> \<not> computes ?i \<and> \<not> is_jmp ?i"
      using translate_one_refuses [OF tr ok] by (auto simp: computes_def)
    then show thesis using that by (metis (full_types))
  qed
  then show ?thesis
  proof cases
    case 1
    then have "k = 1" "s' = ?s" using tr by (simp_all add: translate_one_def Let_def)
    moreover have "vm_step insns r (int i) = Next r (int i + 1)"
      using 1 i nth by (auto simp: vm_step_def is_nop_jump_def is_jmp_def vm_jmp_step_def opcode_fields i_cls_def)
    ultimately show ?thesis using sim by simp
  next
    case 2
    then have lt: "i + 1 < length insns"
      using tr ok by (auto simp: translate_one_def Let_def split: if_splits)
    let ?v = "push_bit 32 (imm (insns ! (i + 1)) AND 0xffffffff) OR (imm ?i AND 0xffffffff)"
    have dst: "k = 2" "dst ?i < length (a_reg st)"
        "s' = emit (op_set (H_REG (dst ?i)) ?v) (if src ?i \<noteq> 0 then unsupported i (Imm64Src (src ?i)) ?s else ?s)"
      using tr 2 lt maps by (auto simp: translate_one_def Let_def put_reg_def split: if_splits)
    have "dst ?i < 11" "s' = emit (op_set (H_REG (dst ?i)) ?v) ?s"
      using dst st ok by (auto simp: abs_ok_def split: if_splits)
    moreover have v: "0 \<le> ?v" "?v < 2 ^ 64"
      using imm64_range by (simp_all add: and_m32)
    moreover have "sets_reg (dst ?i) ?v (after ?s h) (after (emit (op_set (H_REG (dst ?i)) ?v) ?s) h)"
      using take_bit_int_id [OF v] by (simp add: sets_reg_def)
    ultimately have "sim (r[dst ?i := ?v]) (after s' h)" "rd (after s' h) 1 = rd (after s h) 1"
      using sim_sets_reg [OF pre(1)] by simp_all
    moreover have "vm_step insns r (int i) = Next (r[dst ?i := ?v]) (int i + 2)"
      using 2 i lt nth sim_length [OF sim] \<open>dst ?i < 11\<close> py_nth_nonneg [of "int i + 1" insns]
      by (simp add: vm_step_def and_m32 nat_add_distrib)
    ultimately show ?thesis using dst(1) by auto
  next
    case 3
    then have k: "k = 1" "s' = snd (translate_alu i ?i b st ?s)"
      using tr by (cases b; auto simp: translate_one_def Let_def)+
    from translate_alu_sim(1) [OF pre 3(3), where idx = i and st = st] ok k
    obtain r' where "vm_alu_step ?i r = Inr r'" "sim r' (after s' h)" "rd (after s' h) 1 = rd (after s h) 1"
      by auto
    with 3 k i nth show ?thesis
      by (cases b) (auto simp: vm_step_def)
  next
    case 4
    then show ?thesis using i nth by (auto simp: vm_step_def computes_def is_jmp_def)
  qed
qed

section \<open>The body of a block\<close>

text \<open>
  \<open>runs_to insns m r i r' e\<close>: from slot \<open>i\<close> with registers \<open>r\<close> the interpreter gets to slot \<open>e\<close>
  with \<open>r'\<close> in \<open>m\<close> steps.  \<open>stuck\<close>: no fuel makes it return.
\<close>

definition runs_to :: "insn list \<Rightarrow> nat \<Rightarrow> int list \<Rightarrow> nat \<Rightarrow> int list \<Rightarrow> nat \<Rightarrow> bool" where
  "runs_to insns m r i r' e \<longleftrightarrow>
     (\<forall>fuel. vm_loop (fuel + m) insns r (int i) = vm_loop fuel insns r' (int e))"

definition stuck :: "insn list \<Rightarrow> int list \<Rightarrow> nat \<Rightarrow> bool" where
  "stuck insns r i \<longleftrightarrow> (\<forall>fuel. \<exists>x. vm_loop fuel insns r (int i) = Inl x)"

definition computing :: "insn list \<Rightarrow> bool" where
  "computing insns \<longleftrightarrow> (\<forall>i \<in> set insns. code i \<noteq> 0 \<longrightarrow> computes i)"

text \<open>Every wide load is followed by its second slot, which has opcode 0.\<close>

definition imm64_pairs :: "insn list \<Rightarrow> bool" where
  "imm64_pairs insns \<longleftrightarrow>
     (\<forall>i. i + 1 < length insns \<longrightarrow> code (insns ! i) = LD_IMM64 \<longrightarrow> code (insns ! (i + 1)) = 0)"

lemma runs_to_refl: "runs_to insns 0 r i r i"
  by (simp add: runs_to_def)

lemma runs_to_trans:
  "runs_to insns m r i r' j \<Longrightarrow> runs_to insns k r' j r'' e \<Longrightarrow> runs_to insns (k + m) r i r'' e"
  unfolding runs_to_def by (metis add.assoc)

lemma runs_to_step: "vm_step insns r (int i) = Next r' (int j) \<Longrightarrow> runs_to insns 1 r i r' j"
  by (simp add: runs_to_def)

lemma runs_to_stuck:
  assumes "runs_to insns m r i r' j" "stuck insns r' j" shows "stuck insns r i"
  unfolding stuck_def
proof
  fix fuel
  show "\<exists>x. vm_loop fuel insns r (int i) = Inl x"
  proof (cases "vm_loop fuel insns r (int i)")
    case (Inr v)
    then have "vm_loop (fuel + m) insns r (int i) = Inr v" by (rule vm_loop_mono)
    then show ?thesis using assms unfolding runs_to_def stuck_def by (metis sum.distinct(1))
  qed simp
qed

lemma stuck_raise: "vm_step insns r (int i) = Raise e \<Longrightarrow> stuck insns r i"
  unfolding stuck_def by (rule allI, case_tac fuel) auto

lemma translate_one_two_slots:
  assumes "translate_one i insns st s = Some (k, st', s')" "\<not> t_had_error s'" "k \<noteq> 1"
  shows "code (insns ! i) = LD_IMM64" "i + 1 < length insns" "k = 2"
  using assms unfolding translate_one_def Let_def
  by (auto split: if_splits option.splits bind_splits)

lemma extends_translate_body:
  "translate_body insns i e st s = Some (st', s') \<Longrightarrow> extends s s'"
proof (induction insns i e st s rule: translate_body.induct)
  case (1 insns i e st s)
  show ?case
  proof (cases "i < e")
    case True
    with 1(2) obtain k st1 s1 where one: "translate_one i insns st s = Some (k, st1, s1)"
      and rest: "translate_body insns (i + k) e st1 s1 = Some (st', s')"
      by (subst (asm) translate_body.simps) (auto split: option.splits)
    from 1(1) [OF True one refl refl rest] extends_translate_one [OF one extends_refl]
    show ?thesis by (blast intro: extends_trans)
  next
    case False
    with 1(2) show ?thesis by (subst (asm) translate_body.simps) (simp add: extends_refl)
  qed
qed

lemma translate_body_abs_ok:
  "translate_body insns i e st s = Some (st', s') \<Longrightarrow> abs_ok st' = abs_ok st"
proof (induction insns i e st s rule: translate_body.induct)
  case (1 insns i e st s)
  show ?case
  proof (cases "i < e")
    case True
    with 1(2) obtain k st1 s1 where one: "translate_one i insns st s = Some (k, st1, s1)"
      and rest: "translate_body insns (i + k) e st1 s1 = Some (st', s')"
      by (subst (asm) translate_body.simps) (auto split: option.splits)
    from 1(1) [OF True one refl refl rest] translate_one_abs_ok [OF one] show ?thesis by simp
  next
    case False
    with 1(2) show ?thesis by (subst (asm) translate_body.simps) simp
  qed
qed

lemma translate_body_first:
  assumes "translate_body insns i e st s = Some (st', s')" "\<not> t_had_error s'" "i < e"
  shows "code (insns ! i) \<noteq> 0"
proof -
  obtain k st1 s1 where one: "translate_one i insns st s = Some (k, st1, s1)"
    and rest: "translate_body insns (i + k) e st1 s1 = Some (st', s')"
    using assms(1,3) by (subst (asm) translate_body.simps) (auto split: option.splits)
  show ?thesis
    using translate_one_refuses(2) [OF one] extends_error [OF extends_translate_body [OF rest] assms(2)]
    by blast
qed

lemma body_sim:
  "translate_body insns i e st s = Some (st', s') \<Longrightarrow> \<not> t_had_error s' \<Longrightarrow> sim r (after s h)
   \<Longrightarrow> abs_ok st \<Longrightarrow> t_insn_map_idx s = Map.empty \<Longrightarrow> imm64_pairs insns
   \<Longrightarrow> e \<le> length insns \<Longrightarrow> i \<le> e \<Longrightarrow> (e < length insns \<longrightarrow> code (insns ! e) \<noteq> 0)
   \<Longrightarrow> \<not> computing insns \<and> stuck insns r i
     \<or> (\<exists>m r'. m \<le> e - i \<and> runs_to insns m r i r' e \<and> sim r' (after s' h)
           \<and> rd (after s' h) 1 = rd (after s h) 1)"
proof (induction insns i e st s arbitrary: r rule: translate_body.induct)
  case (1 insns i e st s)
  show ?case
  proof (cases "i < e")
    case True
    with 1(2) obtain k st1 s1 where one: "translate_one i insns st s = Some (k, st1, s1)"
      and rest: "translate_body insns (i + k) e st1 s1 = Some (st', s')"
      by (subst (asm) translate_body.simps) (auto split: option.splits)
    have ok: "\<not> t_had_error s1"
      using extends_error [OF extends_translate_body [OF rest] 1(3)] .
    have k: "1 \<le> k" "i + k \<le> e"
      using translate_one_two_slots [OF one ok] translate_one_slots [OF one] True 1(7,8,10)
      by (auto simp: imm64_pairs_def)
        (metis Suc_leI Suc_lessI add_2_eq_Suc' less_le_trans)
    have i: "i < length insns" using True 1(8) by simp
    consider (step) r1 where "vm_step insns r (int i) = Next r1 (int (i + k))" "sim r1 (after s1 h)"
        "rd (after s1 h) 1 = rd (after s h) 1"
      | (raise) "\<not> computes (insns ! i)" "vm_step insns r (int i) = Raise Halt"
      using translate_one_sim [OF one ok 1(4) i 1(5,6)] by blast
    then show ?thesis
    proof cases
      case step
      have maps: "t_insn_map_idx s1 = Map.empty"
        using extends_translate_one [OF one extends_refl] 1(6) by (simp add: extends_def)
      have ok1: "abs_ok st1" using translate_one_abs_ok [OF one] 1(5) by simp
      note to = runs_to_step [OF step(1)]
      from 1(1) [OF True one refl refl rest 1(3) step(2) ok1 maps 1(7,8) k(2) 1(10)]
      show ?thesis
      proof (elim disjE exE conjE)
        assume "\<not> computing insns" "stuck insns r1 (i + k)"
        then show ?thesis using runs_to_stuck [OF to] by blast
      next
        fix m r' assume "m \<le> e - (i + k)" "runs_to insns m r1 (i + k) r' e" "sim r' (after s' h)"
          "rd (after s' h) 1 = rd (after s1 h) 1"
        then show ?thesis
          using runs_to_trans [OF to] step(3) k by (intro disjI2 exI [of _ "m + 1"] exI [of _ r']) auto
      qed
    next
      case raise
      then show ?thesis
        using stuck_raise [OF raise(2)] i translate_one_refuses(2) [OF one ok]
        by (auto simp: computing_def)
    qed
  next
    case False
    then have "i = e" "s' = s" using 1(2,9) by (auto simp: translate_body.simps)
    then show ?thesis using 1(4) runs_to_refl by (intro disjI2 exI [of _ 0] exI [of _ r]) auto
  qed
qed

end
