(* ===== verification/Leaders.thy ===== *)
theory Leaders
  imports Lowering
begin

text \<open>
  \<open>find_leaders\<close> of \<open>src/pybpf/translate.py\<close>: what the scan for basic blocks guarantees when it
  reports nothing.  Every jump has a leader after it, and its target is a leader further on or the
  end of the program; the list of block starts is strictly increasing and begins at 0.
\<close>

section \<open>Leaders\<close>

text \<open>What the scan leaves behind about one jump, when nothing was reported.\<close>

definition jump_ok :: "insn list \<Rightarrow> bool list \<Rightarrow> nat \<Rightarrow> bool" where
  "jump_ok insns L j \<longleftrightarrow>
     (let i = insns ! j; t = int j + 1 + off i
      in (j + 1 < length insns \<longrightarrow> L ! (j + 1))
         \<and> (i_op i \<notin> {BPF_EXIT, BPF_CALL} \<longrightarrow>
               int j < t \<and> t \<le> int (length insns) \<and> L ! nat t))"

text \<open>One turn of the loop: the slots consumed, the marks and the state after it.\<close>

definition leaders_step :: "insn list \<Rightarrow> nat \<Rightarrow> bool list \<Rightarrow> tstate \<Rightarrow> nat \<times> bool list \<times> tstate" where
  "leaders_step insns i L s =
     (let n = length insns; ins = insns ! i; target = int i + 1 + off ins;
          L1 = (if i + 1 < n then L[i + 1 := True] else L)
      in if code ins = LD_IMM64 then (2, L, s)
         else if \<not> is_jmp ins \<or> is_nop_jump ins then (1, L, s)
         else if i_op ins \<in> {BPF_EXIT, BPF_CALL} then (1, L1, s)
         else if target < 0 \<or> target > int n then (1, L1, unsupported i (JumpRange target) s)
         else (1, L1[nat target := True],
               if target \<le> int i then unsupported i (BackwardJump target) s else s))"

lemma leaders_loop_step:
  "leaders_loop insns i L s =
     (if i < length insns then
        (case leaders_step insns i L s of (k, L, s) \<Rightarrow> leaders_loop insns (i + k) L s)
      else (L, s))"
  by (subst leaders_loop.simps) (auto simp: leaders_step_def Let_def is_nop_jump_def)

lemma list_update_True: "L ! x \<Longrightarrow> L[i := True] ! x"
  by (cases "i = x"; cases "x < length L") (simp_all add: list_update_beyond)

lemma leaders_step_mono:
  assumes "leaders_step insns i L s = (k, L', s')"
  shows "k = 1 \<or> k = 2 \<and> code (insns ! i) = LD_IMM64" "length L' = length L" "extends s s'" "t_ops s' = t_ops s"
    "x < length L \<Longrightarrow> L ! x \<Longrightarrow> L' ! x"
  using assms unfolding leaders_step_def Let_def
  by (auto split: if_splits intro!: extends_intros list_update_True)

lemma leaders_step_ok:
  assumes "leaders_step insns i L s = (k, L', s')" "\<not> t_had_error s'" "length L = length insns + 1"
    and "is_jmp (insns ! i)" "\<not> is_nop_jump (insns ! i)" "i < length insns"
  shows "jump_ok insns L' i"
  using assms imm64_class [of "insns ! i"] unfolding leaders_step_def jump_ok_def Let_def
  by (auto split: if_splits simp: nth_list_update)

lemma leaders_loop_mono:
  assumes "leaders_loop insns i L s = (L', s')"
  shows "length L' = length L \<and> extends s s' \<and> t_ops s' = t_ops s
     \<and> (\<forall>k < length L. L ! k \<longrightarrow> L' ! k)"
  using assms
proof (induction "length insns - i" arbitrary: i L s rule: less_induct)
  case less
  show ?case
  proof (cases "i < length insns")
    case True
    obtain k L1 s1 where step: "leaders_step insns i L s = (k, L1, s1)" by (metis prod.collapse)
    note m = leaders_step_mono [OF step]
    from less.prems True have rest: "leaders_loop insns (i + k) L1 s1 = (L', s')"
      by (subst (asm) leaders_loop_step) (simp add: step)
    have "length insns - (i + k) < length insns - i" using m(1) True by auto
    from less.hyps [OF this rest] m(2-5) show ?thesis
      by (auto intro: extends_trans)
  next
    case False
    with less.prems show ?thesis by (subst (asm) leaders_loop_step) (simp add: extends_refl)
  qed
qed

lemma leaders_loop_ok:
  assumes "leaders_loop insns i L s = (L', s')" "\<not> t_had_error s'" "length L = length insns + 1"
    and pairs: "imm64_pairs insns"
    and j: "i \<le> j" "j < length insns" "is_jmp (insns ! j)" "\<not> is_nop_jump (insns ! j)"
  shows "jump_ok insns L' j"
  using assms(1,3) j(1)
proof (induction "length insns - i" arbitrary: i L s rule: less_induct)
  case less
  have i: "i < length insns" using less.prems(3) j(2) by simp
  obtain k L1 s1 where step: "leaders_step insns i L s = (k, L1, s1)" by (metis prod.collapse)
  note m = leaders_step_mono [OF step]
  from less.prems i have rest: "leaders_loop insns (i + k) L1 s1 = (L', s')"
    by (subst (asm) leaders_loop_step) (simp add: step)
  note mono = leaders_loop_mono [OF rest]
  show ?case
  proof (cases "j = i")
    case True
    have "jump_ok insns L1 i"
      using leaders_step_ok [OF step _ less.prems(2)] mono assms(2) j True i
        extends_error by blast
    then show ?thesis
      using True mono m(2) less.prems(2) i by (auto simp: jump_ok_def Let_def)
  next
    case False
    have "i + k \<le> j"
    proof (rule ccontr)
      assume "\<not> i + k \<le> j"
      then have "j = i + 1" "code (insns ! i) = LD_IMM64"
        using False less.prems(3) m(1) by auto
      then have "code (insns ! j) = 0" using pairs j(2) by (auto simp: imm64_pairs_def)
      then show False using j(3) by (simp add: insn_fields opcode_fields)
    qed
    moreover have "length insns - (i + k) < length insns - i" using m(1) i by auto
    ultimately show ?thesis
      using less.hyps [OF _ rest] m(2) less.prems(2) by simp
  qed
qed

text \<open>The list of block starts.\<close>

definition is_leader :: "insn list \<Rightarrow> bool list \<Rightarrow> nat \<Rightarrow> bool" where
  "is_leader insns L k \<longleftrightarrow> k < length insns \<and> L ! k"

lemma find_leaders_facts:
  assumes "find_leaders insns s = ((bs, block_of), s')"
  obtains L where "leaders insns s = (L, s')" "sorted_wrt (<) bs" "set bs = {k. is_leader insns L k}"
    "length block_of = length insns"
  using assms that
  by (auto simp: find_leaders_def Let_def is_leader_def sorted_wrt_filter split: prod.splits)

lemma leaders_zero:
  assumes "leaders insns s = (L, s')" "insns \<noteq> []" shows "is_leader insns L 0"
  using leaders_loop_mono [of insns 0 "(replicate (length insns + 1) False)[0 := True]" s L s'] assms
  by (auto simp: leaders_def is_leader_def Let_def)

lemma leaders_frame:
  assumes "leaders insns s = (L, s')" shows "extends s s'" "t_ops s' = t_ops s"
  using leaders_loop_mono [of insns 0 _ s L s'] assms by (auto simp: leaders_def Let_def)

lemma leaders_jump_ok:
  assumes "leaders insns s = (L, s')" "\<not> t_had_error s'" "imm64_pairs insns"
    "j < length insns" "is_jmp (insns ! j)" "\<not> is_nop_jump (insns ! j)"
  shows "jump_ok insns L j"
  using leaders_loop_ok [of insns 0 "(replicate (length insns + 1) False)[0 := True]" s L s' j] assms
  by (auto simp: leaders_def Let_def split: if_splits)

end
