(* ===== verification/Blocks.thy ===== *)
theory Blocks
  imports Leaders
begin

text \<open>
  The transformers of one basic block.  A block's modules leave a header map alone unless its
  program counter selects them; when it does, they bring the map to the start of a later block, or
  to the halt value, exactly as the interpreter goes.
\<close>

section \<open>The transformers of one block\<close>

lemma push_module_fields [simp]:
  "t_modules (push_module rules s) = t_modules s @ [TransformerModule (t_next_mod s) rules]"
  "t_had_error (push_module rules s) = t_had_error s" "t_ops (push_module rules s) = t_ops s"
  "t_insn_map_idx (push_module rules s) = t_insn_map_idx s"
  "t_next_mod (push_module rules s) = t_next_mod s + 1"
  by (simp_all add: push_module_def)

text \<open>\<open>guarded pcs rules\<close>: each rule asks first for one of the program counters \<open>pcs\<close>.\<close>

definition guarded :: "nat set \<Rightarrow> ir_rule list \<Rightarrow> bool" where
  "guarded pcs rules \<longleftrightarrow> (\<forall>r \<in> set rules. \<exists>p \<in> pcs. \<exists>es ops. r = SeqCtr (pc_entry p # es) ops)"

definition block_modules :: "nat \<Rightarrow> ir_module list \<Rightarrow> bool" where
  "block_modules start ms \<longleftrightarrow>
     (\<forall>m \<in> set ms. \<exists>rules. module_rules m = rules @ [default_rule]
        \<and> guarded {BLOCK_PC start, DECIDE_PC start} rules)"

lemma push_block_modules:
  "\<exists>ms. t_modules (push_block start cond arms fp tp np s) = t_modules s @ ms
     \<and> block_modules start ms"
  by (auto simp: push_block_def Let_def push_transformer_def block_modules_def guarded_def
      rule_def split: option.splits prod.splits)

lemma push_block_error [simp]:
  "t_had_error (push_block start cond arms fp tp np s) = t_had_error s"
  "t_insn_map_idx (push_block start cond arms fp tp np s) = t_insn_map_idx s"
  by (simp_all add: push_block_def Let_def push_transformer_def split: option.splits prod.splits)

lemma eval_set_pc: "pc < 2 ^ 64 \<Longrightarrow> eval_op (set_pc_op pc H_PC) h = h(1 \<mapsto> int pc)"
  by (simp add: set_pc_op_def Let_def take_bit_int_id)

lemmas eval_set_pc' = eval_set_pc [simplified]

context first_match
begin

lemma holds_pc:
  "0 \<le> rd h 1 \<Longrightarrow> rd h 1 < 2 ^ 64 \<Longrightarrow> p < 2 ^ 64 \<Longrightarrow> holds (pc_entry p) h \<longleftrightarrow> rd h 1 = int p"
  by (simp add: pc_entry_def cmp_entry_def match_const_def holds_const take_bit_int_id)

lemma xf_skip_guarded:
  assumes "guarded pcs rules" "\<And>p. p \<in> pcs \<Longrightarrow> \<not> holds (pc_entry p) h"
  shows "xf (rules @ [default_rule]) h = h"
  using assms
proof (induction rules)
  case (Cons r rules)
  then obtain p es ops where r: "r = SeqCtr (pc_entry p # es) ops" "p \<in> pcs"
    by (auto simp: guarded_def)
  moreover have "guarded pcs rules" using Cons.prems(1) by (simp add: guarded_def)
  ultimately show ?case
    using Cons.IH Cons.prems(2) xf_skip [of "pc_entry p" "pc_entry p # es" h ops] by simp
qed (simp add: default_rule_def)

lemma run_block_modules_skip:
  assumes "block_modules start ms" "start < 2 ^ 62" "0 \<le> rd h 1" "rd h 1 < 2 ^ 64"
    and "rd h 1 \<noteq> int (BLOCK_PC start)" "rd h 1 \<noteq> int (DECIDE_PC start)"
  shows "run_chain xf ms h = h"
  using assms(1)
proof (induction ms)
  case (Cons m ms)
  then obtain rules where "module_rules m = rules @ [default_rule]"
      "guarded {BLOCK_PC start, DECIDE_PC start} rules" and ms: "block_modules start ms"
    by (auto simp: block_modules_def)
  moreover have "\<not> holds (pc_entry p) h" if "p \<in> {BLOCK_PC start, DECIDE_PC start}" for p
    using that assms(2-) by (subst holds_pc) auto
  ultimately have "xf (module_rules m) h = h"
    using xf_skip_guarded by metis
  with Cons.IH [OF ms] show ?case by simp
qed simp

text \<open>A block that ends in no decision runs its ops and goes to \<open>np\<close>.\<close>

lemma push_block_goto:
  assumes "push_block start None None fp tp np s = s'" "t_modules s' = t_modules s @ ms"
    and "start < 2 ^ 62" "np < 2 ^ 64" "rd h 1 = int (BLOCK_PC start)"
  shows "run_chain xf ms h = (after s h)(1 \<mapsto> int np)"
proof -
  have ms: "ms = [TransformerModule (t_next_mod s)
        [SeqCtr [pc_entry (BLOCK_PC start)] (t_ops s @ [set_pc_op np H_PC]), default_rule]]"
    using assms(1,2) by (auto simp: push_block_def push_transformer_def rule_def op_raw_def)
  have "holds (pc_entry (BLOCK_PC start)) h"
    using assms(3,5) by (subst holds_pc) simp_all
  then show ?thesis
    using assms(4) by (simp add: ms xf_first eval_set_pc' del: BLOCK_PC_def)
qed

text \<open>
  A block that ends in a condition runs its ops in one transformer and, in the next one, reads the
  condition on the header map they left.
\<close>

lemma push_block_cond:
  assumes "push_block start (Some (e, swap)) None fp tp np s = s'" "t_modules s' = t_modules s @ ms"
    and "start < 2 ^ 62" "fp < 2 ^ 64" "tp < 2 ^ 64" "rd h 1 = int (BLOCK_PC start)"
    and "h1 = (after s h)(1 \<mapsto> int (DECIDE_PC start))"
  shows "run_chain xf ms h = h1(1 \<mapsto> int (if holds e h1 \<noteq> swap then tp else fp))"
proof -
  let ?a = "if swap then fp else tp" and ?b = "if swap then tp else fp" and ?D = "pc_entry (DECIDE_PC start)"
  have ms: "ms = [TransformerModule (t_next_mod s)
        [SeqCtr [pc_entry (BLOCK_PC start)] (t_ops s @ [set_pc_op (DECIDE_PC start) H_PC]), default_rule],
      TransformerModule (t_next_mod s + 1)
        [SeqCtr [?D, e] [set_pc_op ?a H_PC], SeqCtr [?D] [set_pc_op ?b H_PC], default_rule]]"
    using assms(1,2)
    by (auto simp: push_block_def push_transformer_def rule_def op_raw_def Let_def)
  have "holds (pc_entry (BLOCK_PC start)) h"
    using assms(3,6) by (subst holds_pc) simp_all
  moreover have D: "holds ?D h1"
    using assms(3,7) by (subst holds_pc) simp_all
  moreover have "xf [SeqCtr [?D, e] [set_pc_op ?a H_PC], SeqCtr [?D] [set_pc_op ?b H_PC], default_rule] h1
      = h1(1 \<mapsto> int (if holds e h1 \<noteq> swap then tp else fp))"
    using D assms(4,5) xf_skip [of e "[?D, e]" h1 "[set_pc_op ?a H_PC]"]
    by (cases "holds e h1") (simp_all add: xf_first eval_set_pc' del: DECIDE_PC_def)
  moreover have "eval_op (set_pc_op (DECIDE_PC start) H_PC) (after s h) = h1"
    using assms(3,7) by (subst eval_set_pc) simp_all
  ultimately show ?thesis
    by (simp add: ms xf_first del: BLOCK_PC_def DECIDE_PC_def H_PC_def)
qed

end

section \<open>One block\<close>

text \<open>
  \<open>arrives insns starts r start h'\<close>: the interpreter, at the block start with registers \<open>r\<close>, gets
  to the start of a later block, or returns, with the registers and the program counter that the
  header map \<open>h'\<close> holds.
\<close>

definition arrives :: "insn list \<Rightarrow> nat set \<Rightarrow> int list \<Rightarrow> nat \<Rightarrow> hdrs \<Rightarrow> bool" where
  "arrives insns starts r start h' \<longleftrightarrow>
     (\<exists>m r'. sim r' h' \<and>
       ((\<exists>p \<in> starts. start < p \<and> m \<le> p - start \<and> rd h' 1 = int (BLOCK_PC p)
            \<and> runs_to insns m r start r' p)
        \<or> rd h' 1 = int PC_HALT \<and> m \<le> length insns - start + 1
            \<and> vm_loop m insns r (int start) = Inr (r' ! 0)))"

definition target_pc :: "insn list \<Rightarrow> nat \<Rightarrow> nat" where
  "target_pc insns t = (if t < length insns then BLOCK_PC t else PC_HALT)"

lemma runs_to_done:
  assumes "runs_to insns m r i r' j" "vm_step insns r' (int j) = Done v"
  shows "vm_loop (m + 1) insns r (int i) = Inr v"
proof -
  have "vm_loop (1 + m) insns r (int i) = vm_loop 1 insns r' (int j)"
    using assms(1) by (simp only: runs_to_def)
  with assms(2) show ?thesis by (simp add: add.commute [of m])
qed

lemma sim_pc_upd: "sim r h \<Longrightarrow> sim r (h(Suc 0 \<mapsto> v))"
  by (simp add: sim_def)

lemma arrives_at:
  assumes "runs_to insns m r start r' t" "start < t" "t \<le> length insns" "m \<le> t - start"
    and "t < length insns \<Longrightarrow> t \<in> starts" "sim r' h'" "rd h' 1 = int (target_pc insns t)"
  shows "arrives insns starts r start h'"
proof (cases "t < length insns")
  case True
  with assms show ?thesis unfolding arrives_def target_pc_def by auto
next
  case False
  then have "vm_step insns r' (int t) = Done (r' ! 0)" using assms(3) by (simp add: vm_step_def)
  from runs_to_done [OF assms(1) this] have "vm_loop (m + 1) insns r (int start) = Inr (r' ! 0)" .
  moreover have "rd h' 1 = int PC_HALT" "m + 1 \<le> length insns - start + 1"
    using False assms(3,4,7) by (simp_all add: target_pc_def)
  ultimately show ?thesis using assms(6) unfolding arrives_def by blast
qed

text \<open>The interpreter at a conditional jump.\<close>

lemma vm_conditional:
  assumes "jmp_is_conditional (insns ! j)" "j < length insns" "length r = 11"
  shows "dst (insns ! j) < 11 \<Longrightarrow> is_imm (insns ! j) \<or> src (insns ! j) < 11 \<Longrightarrow>
      jmp_taken (insns ! j) r = Some t \<Longrightarrow>
      vm_step insns r (int j) = Next r (int j + 1 + (if t then off (insns ! j) else 0))"
    and "\<not> (dst (insns ! j) < 11 \<and> (is_imm (insns ! j) \<or> src (insns ! j) < 11)) \<Longrightarrow>
      vm_step insns r (int j) = Raise IndexError"
proof -
  let ?i = "insns ! j"
  have c: "is_jmp ?i" "code ?i \<noteq> LD_IMM64" "i_op ?i \<notin> {BPF_JA, BPF_EXIT, BPF_CALL}"
    using assms(1) imm64_class [of ?i] by (auto simp: jmp_is_conditional_def)
  then have s: "vm_step insns r (int j) = vm_jmp_step ?i r (int j)"
    using assms(2) by (auto simp: vm_step_def py_nth_nonneg is_jmp_def)
  show "dst ?i < 11 \<Longrightarrow> is_imm ?i \<or> src ?i < 11 \<Longrightarrow> jmp_taken ?i r = Some t \<Longrightarrow>
      vm_step insns r (int j) = Next r (int j + 1 + (if t then off ?i else 0))"
    using c assms(3) unfolding s
    by (auto simp: vm_jmp_step_def Let_def jmp_taken_def jmp_lhs_def jmp_rhs_def jmp_bits_def
        push_bit_of_1 and_m64 and_m32 split: if_splits)
  show "\<not> (dst ?i < 11 \<and> (is_imm ?i \<or> src ?i < 11)) \<Longrightarrow> vm_step insns r (int j) = Raise IndexError"
    using c assms(3) unfolding s by (auto simp: vm_jmp_step_def Let_def)
qed

lemma extends_translate_term:
  assumes "translate_term idx ht trm st s = Some (cond, arms, st', s')"
  shows "extends s s'"
proof -
  have cond: "extends s (snd (emit_condition idx trm s))"
    by (rule extends_emit_condition [OF extends_refl])
  have "extends s t" if "translate_call idx trm st s = Some (a, st', t)" for a t
    using that extends_emit_map_lookup extends_emit_map_update
    by (auto simp: translate_call_def split: if_splits intro!: extends_intros)
  with cond assms show ?thesis
    by (auto simp: translate_term_def Let_def split_beta split: if_splits intro: extends_refl)
qed

text \<open>Where a block stands in the program.\<close>

definition block_end :: "insn list \<Rightarrow> nat list \<Rightarrow> nat \<Rightarrow> nat" where
  "block_end insns bs b = (if b + 1 < length bs then bs ! (b + 1) else length insns)"

lemma block_bounds:
  assumes "sorted_wrt (<) bs" "set bs \<subseteq> {..<length insns}" "b < length bs"
  shows "bs ! b < block_end insns bs b" "block_end insns bs b \<le> length insns"
    "block_end insns bs b < length insns \<Longrightarrow> block_end insns bs b \<in> set bs"
proof -
  have "bs ! k < length insns" if "k < length bs" for k
    using assms(2) that nth_mem by blast
  moreover have "bs ! b < bs ! (b + 1)" if "b + 1 < length bs"
    using assms(1) that by (simp add: sorted_wrt_iff_nth_less)
  ultimately show "bs ! b < block_end insns bs b" "block_end insns bs b \<le> length insns"
    "block_end insns bs b < length insns \<Longrightarrow> block_end insns bs b \<in> set bs"
    using assms(3) by (auto simp: block_end_def less_imp_le)
qed

lemma translate_block_cases:
  assumes "translate_block insns bs block_of b block_in s = Some (block_in', s')"
  defines "e \<equiv> block_end insns bs b"
  defines "trm \<equiv> insns ! (e - 1)"
  defines "has_term \<equiv> is_jmp trm \<and> \<not> is_nop_jump trm"
  obtains st1 s1 cond arms st2 s2 fall take where
    "translate_body insns (bs ! b) (if has_term then e - 1 else e)
       (if a_live (block_in ! b) then block_in ! b else abs_init) (s\<lparr>t_ops := []\<rparr>) = Some (st1, s1)"
    "translate_term (e - 1) has_term trm st1 s1 = Some (cond, arms, st2, s2)"
    "successors insns block_of e has_term trm = (fall, take)"
    "block_in' = join_succ st2 (fst take) (join_succ st2 (fst fall) block_in)"
    "s' = push_block (bs ! b) cond arms (snd fall) (snd take)
            (if fst take \<noteq> None then snd take else snd fall) s2"
  using assms(1) [unfolded translate_block_def Let_def, folded block_end_def, folded e_def,
      folded trm_def, folded has_term_def] that
  by (auto split: bind_splits prod.splits)

lemma jump_target_pc:
  "0 \<le> int e + off i \<Longrightarrow> snd (jump_target insns block_of e i) = target_pc insns (nat (int e + off i))"
  "fst (jump_target insns block_of e i) = None \<Longrightarrow> 0 \<le> int e + off i \<Longrightarrow> snd (jump_target insns block_of e i) = PC_HALT"
  by (auto simp: jump_target_def target_pc_def Let_def split: if_splits)

lemma target_pc_bound: "length insns \<le> 2 ^ 61 \<Longrightarrow> t \<le> length insns \<Longrightarrow> target_pc insns t < 2 ^ 64"
  by (simp add: target_pc_def)

context first_match
begin

text \<open>
  The five ways a block ends.  In each, the interpreter has come to the end of the body with the
  registers that the ops emitted for the body leave in the headers.
\<close>

lemma block_end_sim:
  fixes s1 s2 :: tstate and insns :: "insn list"
  assumes body: "runs_to insns m r start r1 (if has_term then e - 1 else e)"
      "m \<le> (if has_term then e - 1 else e) - start" "sim r1 (after s1 h)"
    and has: "has_term \<longleftrightarrow> is_jmp trm \<and> \<not> is_nop_jump trm" and tm: "trm = insns ! (e - 1)"
    and tt: "translate_term (e - 1) has_term trm st1 s1 = Some (cond, arms, st2, s2)"
    and succ: "successors insns block_of e has_term trm = (fl, tk)"
    and ms: "t_modules (push_block start cond arms (snd fl) (snd tk)
            (if fst tk \<noteq> None then snd tk else snd fl) s2) = t_modules s2 @ ms"
    and ok: "\<not> t_had_error s2"
    and pos: "start < e" "e \<le> length insns" "length insns \<le> 2 ^ 61" "e < length insns \<Longrightarrow> e \<in> starts"
    and jump: "has_term \<Longrightarrow> jump_ok insns L (e - 1)"
    and starts: "starts = {k. is_leader insns L k}"
    and pc: "rd h 1 = int (BLOCK_PC start)"
  shows "\<not> computing insns \<and> stuck insns r start \<or> arrives insns starts r start (run_chain xf ms h)"
proof -
  have e1: "e - 1 < length insns" "int (e - 1) + 1 = int e" "Suc (e - 1) = e" using pos(1,2) by auto
  have nth: "py_nth insns (int (e - 1)) = Some trm" using e1(1) tm by (simp add: py_nth_nonneg)
  have len: "length r1 = 11" using body(3) by (rule sim_length)
  have st: "start < 2 ^ 62" using pos(1-3) by simp
  have goto: "run_chain xf ms h = (after s1 h)(1 \<mapsto> int np)"
    if "cond = None" "arms = None" "s2 = s1" "np < 2 ^ 64"
      "np = (if fst tk \<noteq> None then snd tk else snd fl)" for np
    using push_block_goto [OF refl _ st _ pc, of _ _ np] ms that by simp
  consider (fall) "\<not> has_term" | (exit) "has_term" "i_op trm = BPF_EXIT"
    | (call) "has_term" "i_op trm = BPF_CALL" | (ja) "has_term" "i_op trm = BPF_JA"
    | (cond) "has_term" "jmp_is_conditional trm"
    using has by (auto simp: jmp_is_conditional_def)
  then show ?thesis
  proof cases
    case fall
    then have "cond = None" "arms = None" "s2 = s1" and np: "(if fst tk \<noteq> None then snd tk else snd fl) = target_pc insns e"
      using tt succ by (auto simp: translate_term_def successors_def Let_def target_pc_def)
    then have "run_chain xf ms h = (after s1 h)(1 \<mapsto> int (target_pc insns e))"
      using goto target_pc_bound [OF pos(3,2)] by metis
    then have "arrives insns starts r start (run_chain xf ms h)"
      using fall body pos sim_pc_upd [OF body(3)]
      by (intro arrives_at [where t = e and m = m and r' = r1]) (auto simp: pos(4))
    then show ?thesis ..
  next
    case exit
    then have "cond = None" "arms = None" "s2 = s1" "(if fst tk \<noteq> None then snd tk else snd fl) = PC_HALT"
      using tt succ by (auto simp: translate_term_def successors_def Let_def jmp_is_conditional_def)
    then have run: "run_chain xf ms h = (after s1 h)(1 \<mapsto> int PC_HALT)"
      using goto [of PC_HALT] by simp
    have "vm_step insns r1 (int (e - 1)) = Done (r1 ! 0)"
      using exit has e1 nth imm64_class [of trm] by (auto simp: vm_step_def vm_jmp_step_def is_jmp_def)
    with body exit have "vm_loop (m + 1) insns r (int start) = Inr (r1 ! 0)"
      using runs_to_done by simp
    moreover have "m + 1 \<le> length insns - start + 1" using body(2) exit pos by simp
    ultimately have "arrives insns starts r start (run_chain xf ms h)"
      unfolding arrives_def run using sim_pc_upd [OF body(3)]
      by (intro exI [of _ "m + 1"] exI [of _ r1]) simp
    then show ?thesis ..
  next
    case call
    then have "vm_step insns r1 (int (e - 1)) = Raise Halt"
      using has e1 nth imm64_class [of trm] by (auto simp: vm_step_def vm_jmp_step_def is_jmp_def)
    then have "stuck insns r start"
      using body(1) call runs_to_stuck [OF _ stuck_raise] by (metis (full_types))
    moreover have "\<not> computes trm" "code trm \<noteq> 0"
      using call has imm64_class [of trm] by (auto simp: computes_def insn_fields opcode_fields)
    ultimately show ?thesis
      using e1(1) tm by (auto simp: computing_def)
  next
    case ja
    define t where "t = nat (int e + off trm)"
    have jmp: "int (e - 1) < int e + off trm" "int e + off trm \<le> int (length insns)" "L ! t"
      using jump [OF ja(1)] ja(2) tm e1(2) by (auto simp: jump_ok_def Let_def t_def)
    have off: "off trm \<noteq> 0" using ja has by (auto simp: is_nop_jump_def)
    have t: "int e + off trm = int t" "start < t" "t \<le> length insns" "e < t"
      using jmp off pos(1) by (auto simp: t_def)
    have "cond = None" "arms = None" "s2 = s1"
        "(if fst tk \<noteq> None then snd tk else snd fl) = target_pc insns t"
      using tt succ ja jump_target_pc [where e = e and i = trm and insns = insns and block_of = block_of] t jmp
      by (auto simp: translate_term_def successors_def Let_def jmp_is_conditional_def)
    then have run: "run_chain xf ms h = (after s1 h)(1 \<mapsto> int (target_pc insns t))"
      using goto target_pc_bound [OF pos(3) t(3)] by metis
    have "vm_step insns r1 (int (e - 1)) = Next r1 (int t)"
      using ja has e1 nth imm64_class [of trm] t(1) by (auto simp: vm_step_def vm_jmp_step_def is_jmp_def)
    from runs_to_trans [OF _ runs_to_step [OF this]] body(1) ja
    have "runs_to insns (1 + m) r start r1 t" by simp
    then have "arrives insns starts r start (run_chain xf ms h)"
      using run body(2) ja t pos(1) sim_pc_upd [OF body(3)] jmp(3)
      by (intro arrives_at [where t = t and m = "1 + m" and r' = r1]) (auto simp: starts is_leader_def)
    then show ?thesis ..
  next
    case cond
    define t where "t = nat (int e + off trm)"
    have jmp: "int (e - 1) < int e + off trm" "int e + off trm \<le> int (length insns)" "L ! t"
      using jump [OF cond(1)] cond(2) tm e1(2)
      by (auto simp: jump_ok_def Let_def t_def jmp_is_conditional_def)
    have t: "int e + off trm = int t" "start < t" "t \<le> length insns"
      using jmp pos(1) by (auto simp: t_def)
    obtain en swap where em: "emit_condition (e - 1) trm s1 = (Some (en, swap), s2)"
      and c: "cond = Some (en, swap)" "arms = None"
      using tt cond ok emit_condition_error [of "e - 1" trm s1]
      by (cases "emit_condition (e - 1) trm s1") (auto simp: translate_term_def)
    have pcs: "snd fl = target_pc insns e" "snd tk = target_pc insns t"
      using succ cond jump_target_pc(1) [where e = e and i = trm and insns = insns and block_of = block_of] t
      by (auto simp: successors_def Let_def jmp_is_conditional_def target_pc_def split: if_splits)
    define h1 where "h1 = (after s2 h)(1 \<mapsto> int (DECIDE_PC start))"
    define d where "d = (if holds en h1 \<noteq> swap then t else e)"
    have run: "run_chain xf ms h = h1(1 \<mapsto> int (target_pc insns d))"
      using push_block_cond [OF refl _ st _ _ pc h1_def] ms c pcs
        target_pc_bound [OF pos(3,2)] target_pc_bound [OF pos(3) t(3)] by (simp add: d_def)
    show ?thesis
    proof (cases "dst trm < 11 \<and> (is_imm trm \<or> src trm < 11)")
      case True
      note sm = emit_condition_sim [OF body(3) _ _ em, of h1]
      have "jmp_taken trm r1 = Some (holds en h1 \<noteq> swap)"
        using sm(1) True by (simp add: h1_def)
      then have "vm_step insns r1 (int (e - 1)) = Next r1 (int d)"
        using vm_conditional(1) [of insns "e - 1" r1] cond(2) tm e1 len True t(1) by (simp add: d_def)
      from runs_to_trans [OF _ runs_to_step [OF this]] body(1) cond
      have to: "runs_to insns (1 + m) r start r1 d" by simp
      have "rd (after s2 h) n = rd (after s1 h) n" if "n < 30" for n
        using sm(2) [OF _ _ _ that] True by (simp add: h1_def)
      then have "sim r1 (after s2 h)" using body(3) by (simp add: sim_def)
      then have "sim r1 (run_chain xf ms h)"
        unfolding run h1_def by (simp add: sim_pc_upd)
      moreover have "start < d" "d \<le> length insns" "1 + m \<le> d - start" "d < length insns \<Longrightarrow> d \<in> starts"
        using body(2) cond(1) t(2,3) pos(1,2,4) jmp(1,3) by (auto simp: d_def starts is_leader_def t_def)
      ultimately have "arrives insns starts r start (run_chain xf ms h)"
        using to run by (intro arrives_at [where t = d and m = "1 + m" and r' = r1]) auto
      then show ?thesis ..
    next
      case False
      then have "vm_step insns r1 (int (e - 1)) = Raise IndexError"
        using vm_conditional(2) [of insns "e - 1" r1] cond(2) tm e1 len by simp
      then have "stuck insns r start"
        using body(1) cond(1) runs_to_stuck [OF _ stuck_raise] by (metis (full_types))
      moreover have "\<not> computes trm" "code trm \<noteq> 0"
        using cond(2) False imm64_class [of trm]
        by (auto simp: computes_def insn_fields opcode_fields jmp_is_conditional_def)
      ultimately show ?thesis using e1(1) tm by (auto simp: computing_def)
    qed
  qed
qed

end

end
