(* ===== verification/Chain.thy ===== *)
theory Chain
  imports Blocks
begin

text \<open>
  The whole program: the blocks in order, the preamble that seeds the registers, and the
  simulation of the interpreter by the chain of transformers (\<open>program_sim\<close>).
\<close>

section \<open>All the blocks\<close>

lemma abs_ok_live [simp]: "abs_ok (st\<lparr>a_live := b\<rparr>) = abs_ok st"
  by (simp add: abs_ok_def)

lemma join_succ_ok:
  assumes "abs_ok st" "list_all abs_ok block_in"
  shows "list_all abs_ok (join_succ st succ block_in)"
proof (cases succ)
  case (Some b)
  then show ?thesis
    using assms join_from_ok [of "block_in ! b" "st\<lparr>a_live := True\<rparr>"]
    by (cases "b < length block_in")
      (auto simp: join_succ_def list_all_length nth_list_update list_update_beyond)
qed (simp add: join_succ_def assms(2))

lemma translate_term_abs_ok:
  assumes "translate_term idx ht trm st s = Some (cond, arms, st', s')"
  shows "abs_ok st' = abs_ok st"
proof -
  have array: "abs_ok a = abs_ok st" if "emit_array_update i m mi kp vp st k s = (x, a, t)" for i m mi kp vp k st s x a t
    using that unfolding emit_array_update_def Let_def split_beta by (auto split: option.splits if_splits)
  have "abs_ok a = abs_ok st" if "emit_map_lookup idx st s = Some (x, a, t)" for x a t
    using that unfolding emit_map_lookup_def Let_def split_beta by (auto split: option.splits if_splits)
  moreover have "abs_ok a = abs_ok st" if "emit_map_update idx st s = Some (x, a, t)" for x a t
    using that unfolding emit_map_update_def Let_def split_beta
    by (auto split: option.splits if_splits dest: array)
  ultimately show ?thesis
    using assms by (auto simp: translate_term_def translate_call_def Let_def split_beta split: if_splits)
qed

lemma translate_block_frame:
  assumes "translate_block insns bs block_of b block_in s = Some (block_in', s')"
  shows "t_had_error s \<Longrightarrow> t_had_error s'" "t_insn_map_idx s' = t_insn_map_idx s"
    "list_all abs_ok block_in \<Longrightarrow> b < length block_in \<Longrightarrow> list_all abs_ok block_in' \<and> length block_in' = length block_in"
    "\<exists>ms. t_modules s' = t_modules s @ ms \<and> block_modules (bs ! b) ms"
proof -
  obtain be ht st0 st1 s1 idx trm cond arms st2 s2 fl tk np where
    body: "translate_body insns (bs ! b) be st0 (s\<lparr>t_ops := []\<rparr>) = Some (st1, s1)"
    and st0: "st0 = (if a_live (block_in ! b) then block_in ! b else abs_init)"
    and tt: "translate_term idx ht trm st1 s1 = Some (cond, arms, st2, s2)"
    and block_in': "block_in' = join_succ st2 (fst tk) (join_succ st2 (fst fl) block_in)"
    and s': "s' = push_block (bs ! b) cond arms (snd fl) (snd tk) np s2"
    by (rule translate_block_cases [OF assms]) (erule that [OF _ refl], assumption+)
  have ext: "extends (s\<lparr>t_ops := []\<rparr>) s2"
    using extends_trans [OF extends_translate_body [OF body] extends_translate_term [OF tt]] .
  show "t_had_error s \<Longrightarrow> t_had_error s'" "t_insn_map_idx s' = t_insn_map_idx s"
    using ext by (simp_all add: extends_def s')
  show "\<exists>ms. t_modules s' = t_modules s @ ms \<and> block_modules (bs ! b) ms"
    using push_block_modules [of "bs ! b" cond arms "snd fl" "snd tk" np s2] ext
    by (simp add: extends_def s')
  assume "list_all abs_ok block_in" "b < length block_in"
  then have "abs_ok st0" by (simp add: st0 list_all_length)
  then have "abs_ok st2"
    using translate_body_abs_ok [OF body] translate_term_abs_ok [OF tt] by simp
  then show "list_all abs_ok block_in' \<and> length block_in' = length block_in"
    using \<open>list_all abs_ok block_in\<close>
    by (simp add: block_in' join_succ_ok) (simp add: join_succ_def split: option.split)
qed

lemma translate_blocks_frame:
  "translate_blocks insns bs block_of xs block_in s = Some s' \<Longrightarrow>
     (t_had_error s \<longrightarrow> t_had_error s') \<and> t_insn_map_idx s' = t_insn_map_idx s"
proof (induction xs arbitrary: block_in s)
  case (Cons b xs)
  then obtain bi s1 where "translate_block insns bs block_of b block_in s = Some (bi, s1)"
      "translate_blocks insns bs block_of xs bi s1 = Some s'"
    by (auto split: option.splits)
  with Cons.IH translate_block_frame(1,2) show ?case by metis
qed simp

text \<open>No block starts at the second slot of a wide load.\<close>

lemma translate_blocks_starts:
  assumes "sorted_wrt (<) bs" "set bs \<subseteq> {..<length insns}"
  shows "translate_blocks insns bs block_of xs block_in s = Some s' \<Longrightarrow> \<not> t_had_error s'
     \<Longrightarrow> set xs \<subseteq> {..<length bs} \<Longrightarrow> b \<in> set xs \<Longrightarrow> code (insns ! (bs ! b)) \<noteq> 0"
proof (induction xs arbitrary: block_in s)
  case (Cons c xs)
  then obtain bi s1 where blk: "translate_block insns bs block_of c block_in s = Some (bi, s1)"
      and rest: "translate_blocks insns bs block_of xs bi s1 = Some s'"
    by (auto split: option.splits)
  have ok: "\<not> t_had_error s1" using translate_blocks_frame [OF rest] Cons.prems(2) by simp
  show ?case
  proof (cases "b = c")
    case True
    let ?e = "block_end insns bs c"
    let ?t = "insns ! (?e - 1)"
    let ?ht = "is_jmp ?t \<and> \<not> is_nop_jump ?t"
    have lt: "bs ! c < ?e" using block_bounds(1) [OF assms] Cons.prems(3) by simp
    obtain st0 st1 s1' cond arms st2 s2 fp tp np where
      body: "translate_body insns (bs ! c) (if ?ht then ?e - 1 else ?e) st0 (s\<lparr>t_ops := []\<rparr>) = Some (st1, s1')"
      and tt: "translate_term (?e - 1) ?ht ?t st1 s1' = Some (cond, arms, st2, s2)"
      and s1: "s1 = push_block (bs ! c) cond arms fp tp np s2"
      by (rule translate_block_cases [OF blk]) (erule that, assumption+)
    have "\<not> t_had_error s1'"
      using ok extends_error [OF extends_translate_term [OF tt]] by (simp add: s1)
    then have "bs ! c < (if ?ht then ?e - 1 else ?e) \<Longrightarrow> code (insns ! (bs ! c)) \<noteq> 0"
      using translate_body_first [OF body] by blast
    moreover have "code (insns ! (bs ! c)) \<noteq> 0" if "?ht" "bs ! c = ?e - 1"
      using that by (auto simp: insn_fields opcode_fields)
    ultimately show ?thesis using lt True by (cases "?ht"; cases "bs ! c = ?e - 1") auto
  next
    case False
    then show ?thesis using Cons.IH [OF rest Cons.prems(2)] Cons.prems(3,4) by simp
  qed
qed simp


section \<open>The chain of blocks\<close>

text \<open>What a chain of modules achieves from the block start \<open>p\<close> on.\<close>

definition chain_ok ::
  "(ir_rule list \<Rightarrow> hdrs \<Rightarrow> hdrs) \<Rightarrow> insn list \<Rightarrow> ir_module list \<Rightarrow> nat \<Rightarrow> bool" where
  "chain_ok xf insns ms p \<longleftrightarrow>
     (\<forall>h r. sim r h \<and> rd h 1 = int (BLOCK_PC p) \<longrightarrow>
        \<not> computing insns \<and> stuck insns r p
        \<or> (\<exists>m \<le> length insns - p + 1.
              vm_loop m insns r (int p) = Inr (rd (run_chain xf ms h) (H_REG 0))))"

text \<open>From where one block arrives, the rest of the chain takes over.\<close>

lemma arrives_chain:
  assumes step: "\<not> computing insns \<and> stuck insns r start \<or> arrives insns starts r start h'"
    and lt: "\<And>q. q \<in> starts \<Longrightarrow> q < length insns"
    and rest: "\<And>q. q \<in> starts \<Longrightarrow> start < q \<Longrightarrow> chain_ok xf insns ms q"
    and halt: "rd h' 1 = int PC_HALT \<Longrightarrow> run_chain xf ms h' = h'"
  shows "\<not> computing insns \<and> stuck insns r start
     \<or> (\<exists>m \<le> length insns - start + 1.
           vm_loop m insns r (int start) = Inr (rd (run_chain xf ms h') (H_REG 0)))"
  using step
proof
  assume "arrives insns starts r start h'"
  then obtain m r' where sim: "sim r' h'" and alt: "(\<exists>q \<in> starts. start < q \<and> m \<le> q - start
        \<and> rd h' 1 = int (BLOCK_PC q) \<and> runs_to insns m r start r' q)
      \<or> rd h' 1 = int PC_HALT \<and> m \<le> length insns - start + 1
        \<and> vm_loop m insns r (int start) = Inr (r' ! 0)"
    unfolding arrives_def by blast
  from alt show ?thesis
  proof (elim disjE bexE conjE)
    fix q assume q: "q \<in> starts" "start < q" "m \<le> q - start" "rd h' 1 = int (BLOCK_PC q)"
      and to: "runs_to insns m r start r' q"
    from rest [OF q(1,2)] sim q(4)
    have "\<not> computing insns \<and> stuck insns r' q \<or> (\<exists>k \<le> length insns - q + 1.
        vm_loop k insns r' (int q) = Inr (rd (run_chain xf ms h') (H_REG 0)))"
      unfolding chain_ok_def by blast
    then show ?thesis
    proof (elim disjE exE conjE)
      fix k assume k: "k \<le> length insns - q + 1"
        "vm_loop k insns r' (int q) = Inr (rd (run_chain xf ms h') (H_REG 0))"
      have "vm_loop (k + m) insns r (int start) = Inr (rd (run_chain xf ms h') (H_REG 0))"
        using to k(2) by (simp add: runs_to_def)
      moreover have "k + m \<le> length insns - start + 1" using k(1) q(2,3) lt [OF q(1)] by simp
      ultimately show ?thesis by blast
    qed (use runs_to_stuck [OF to] in blast)
  next
    assume "rd h' 1 = int PC_HALT" "m \<le> length insns - start + 1"
      "vm_loop m insns r (int start) = Inr (r' ! 0)"
    with halt simD [OF sim, of 0] show ?thesis by auto
  qed
qed blast

context first_match
begin

lemma block_sim:
  assumes blk: "translate_block insns bs block_of b block_in s = Some (block_in', s')"
    and ok: "\<not> t_had_error s'" and maps: "t_insn_map_idx s = Map.empty"
    and abs: "list_all abs_ok block_in" "b < length block_in"
    and bs: "sorted_wrt (<) bs" "set bs = {k. is_leader insns L k}" "b < length bs"
    and nz: "\<And>p. p \<in> set bs \<Longrightarrow> code (insns ! p) \<noteq> 0"
    and L: "\<And>j. j < length insns \<Longrightarrow> is_jmp (insns ! j) \<Longrightarrow> \<not> is_nop_jump (insns ! j) \<Longrightarrow> jump_ok insns L j"
    and wf: "imm64_pairs insns" "length insns \<le> 2 ^ 61"
    and ms: "t_modules s' = t_modules s @ ms"
    and sim: "sim r h" and pc: "rd h 1 = int (BLOCK_PC (bs ! b))"
  shows "\<not> computing insns \<and> stuck insns r (bs ! b)
     \<or> arrives insns (set bs) r (bs ! b) (run_chain xf ms h)"
proof -
  let ?e = "block_end insns bs b"
  let ?t = "insns ! (?e - 1)"
  let ?ht = "is_jmp ?t \<and> \<not> is_nop_jump ?t"
  let ?be = "if ?ht then ?e - 1 else ?e"
  have sub: "set bs \<subseteq> {..<length insns}" using bs(2) by (auto simp: is_leader_def)
  note bounds = block_bounds [OF bs(1) sub bs(3)]
  obtain st1 s1 cond arms st2 s2 fl tk where
    body: "translate_body insns (bs ! b) ?be
       (if a_live (block_in ! b) then block_in ! b else abs_init) (s\<lparr>t_ops := []\<rparr>) = Some (st1, s1)"
    and tt: "translate_term (?e - 1) ?ht ?t st1 s1 = Some (cond, arms, st2, s2)"
    and succ: "successors insns block_of ?e ?ht ?t = (fl, tk)"
    and s': "s' = push_block (bs ! b) cond arms (snd fl) (snd tk)
            (if fst tk \<noteq> None then snd tk else snd fl) s2"
    by (rule translate_block_cases [OF blk])
  have ok2: "\<not> t_had_error s2" using ok by (simp add: s')
  have ok1: "\<not> t_had_error s1" using extends_error [OF extends_translate_term [OF tt] ok2] .
  have ab: "abs_ok (if a_live (block_in ! b) then block_in ! b else abs_init)"
    using abs by (simp add: list_all_length)
  have straddle: "?be < length insns \<longrightarrow> code (insns ! ?be) \<noteq> 0"
    using bounds nz by (auto simp: insn_fields opcode_fields)
  have sm: "sim r (after (s\<lparr>t_ops := []\<rparr>) h)" using sim by simp
  have "\<not> computing insns \<and> stuck insns r (bs ! b)
     \<or> (\<exists>m r'. m \<le> ?be - bs ! b \<and> runs_to insns m r (bs ! b) r' ?be \<and> sim r' (after s1 h)
           \<and> rd (after s1 h) 1 = rd (after (s\<lparr>t_ops := []\<rparr>) h) 1)"
    using bounds maps by (intro body_sim [OF body ok1 sm ab _ wf(1) _ _ straddle]) auto
  then show ?thesis
  proof
    assume "\<exists>m r'. m \<le> ?be - bs ! b \<and> runs_to insns m r (bs ! b) r' ?be \<and> sim r' (after s1 h)
           \<and> rd (after s1 h) 1 = rd (after (s\<lparr>t_ops := []\<rparr>) h) 1"
    then obtain m r' where b: "runs_to insns m r (bs ! b) r' ?be" "m \<le> ?be - bs ! b" "sim r' (after s1 h)"
      by blast
    have "t_modules s2 = t_modules s"
      using extends_translate_body [OF body] extends_translate_term [OF tt] by (simp add: extends_def)
    with ms have mods: "t_modules (push_block (bs ! b) cond arms (snd fl) (snd tk)
            (if fst tk \<noteq> None then snd tk else snd fl) s2) = t_modules s2 @ ms"
      by (simp add: s')
    have "jump_ok insns L (?e - 1)" if "?ht"
      using L bounds that by simp
    from block_end_sim [OF b refl refl tt succ mods ok2 bounds(1,2) wf(2) bounds(3) this bs(2) pc]
    show ?thesis by blast
  qed blast
qed

lemma blocks_sim:
  assumes bs: "sorted_wrt (<) bs" "set bs = {k. is_leader insns L k}"
    and nz: "\<And>p. p \<in> set bs \<Longrightarrow> code (insns ! p) \<noteq> 0"
    and L: "\<And>j. j < length insns \<Longrightarrow> is_jmp (insns ! j) \<Longrightarrow> \<not> is_nop_jump (insns ! j) \<Longrightarrow> jump_ok insns L j"
    and wf: "imm64_pairs insns" "length insns \<le> 2 ^ 61"
  shows "translate_blocks insns bs block_of [b..<length bs] block_in s = Some s' \<Longrightarrow> \<not> t_had_error s'
     \<Longrightarrow> t_insn_map_idx s = Map.empty \<Longrightarrow> list_all abs_ok block_in \<Longrightarrow> length block_in = length bs
     \<Longrightarrow> b \<le> length bs \<Longrightarrow>
     \<exists>ms. t_modules s' = t_modules s @ ms
       \<and> (\<forall>h. rd h 1 = int PC_HALT \<longrightarrow> run_chain xf ms h = h)
       \<and> (\<forall>p \<in> set (drop b bs). chain_ok xf insns ms p)"
proof (induction "length bs - b" arbitrary: b block_in s)
  case 0
  then show ?case by (intro exI [of _ "[]"]) auto
next
  case (Suc k)
  then have b: "b < length bs" "[b..<length bs] = b # [b + 1..<length bs]" by (simp_all add: upt_conv_Cons)
  let ?start = "bs ! b"
  obtain bi s1 where blk: "translate_block insns bs block_of b block_in s = Some (bi, s1)"
    and rest: "translate_blocks insns bs block_of [b + 1..<length bs] bi s1 = Some s'"
    using Suc.prems(1) by (auto simp: b(2) split: option.splits)
  note fr = translate_block_frame [OF blk]
  have ok: "\<not> t_had_error s1" using translate_blocks_frame [OF rest] Suc.prems(2) by blast
  obtain ms1 where ms1: "t_modules s1 = t_modules s @ ms1" "block_modules ?start ms1" using fr(4) by blast
  have k: "k = length bs - (b + 1)" and bi: "list_all abs_ok bi" "length bi = length bs"
    and maps: "t_insn_map_idx s1 = Map.empty" and le: "b + 1 \<le> length bs"
    using fr Suc.prems Suc.hyps(2) b(1) by auto
  from Suc.hyps(1) [OF k rest Suc.prems(2) maps bi le]
  obtain ms2 where ms2: "t_modules s' = t_modules s1 @ ms2"
      "\<forall>h. rd h 1 = int PC_HALT \<longrightarrow> run_chain xf ms2 h = h"
      "\<forall>p \<in> set (drop (b + 1) bs). chain_ok xf insns ms2 p"
    by auto
  have lt: "p < length insns" if "p \<in> set bs" for p using that bs(2) by (simp add: is_leader_def)
  have start: "?start < 2 ^ 62" "?start < length insns" using lt [of ?start] b(1) wf(2) by auto
  have later: "p \<in> set (drop (b + 1) bs)" if "p \<in> set bs" "?start < p" for p
  proof -
    from that(1) obtain q where q: "q < length bs" "p = bs ! q" by (auto simp: in_set_conv_nth)
    with that(2) bs(1) b(1) have "b < q"
      by (metis linorder_neqE_nat not_less_iff_gr_or_eq sorted_wrt_nth_less)
    then show ?thesis using q by (auto simp: in_set_conv_nth intro!: exI [of _ "q - (b + 1)"])
  qed
  have "\<forall>h. rd h 1 = int PC_HALT \<longrightarrow> run_chain xf (ms1 @ ms2) h = h"
    using ms2(2) run_block_modules_skip [OF ms1(2) start(1)] by simp
  moreover have "chain_ok xf insns (ms1 @ ms2) p" if p: "p \<in> set (drop b bs)" for p
    unfolding chain_ok_def
  proof (intro allI impI, elim conjE)
    fix h r assume h: "sim r h" "rd h 1 = int (BLOCK_PC p)"
    have mem: "p \<in> set bs" using p by (rule in_set_dropD)
    show "\<not> computing insns \<and> stuck insns r p \<or> (\<exists>m \<le> length insns - p + 1.
        vm_loop m insns r (int p) = Inr (rd (run_chain xf (ms1 @ ms2) h) (H_REG 0)))"
    proof (cases "p = ?start")
      case False
      have "p \<in> set (drop (b + 1) bs)"
        using p False b(1) by (metis Cons_nth_drop_Suc Suc_eq_plus1 set_ConsD)
      moreover have "run_chain xf ms1 h = h"
        using h(2) False lt [OF mem] wf(2) by (intro run_block_modules_skip [OF ms1(2) start(1)]) auto
      ultimately show ?thesis using ms2(3) h unfolding chain_ok_def by simp
    next
      case True
      have len: "b < length block_in" using b(1) Suc.prems(5) by simp
      have pc: "rd h 1 = int (BLOCK_PC ?start)" using h(2) True by simp
      note step = block_sim [OF blk ok Suc.prems(3,4) len bs b(1) nz L wf ms1(1) h(1) pc]
      show ?thesis
        using arrives_chain [OF step lt] ms2(2,3) later True by simp
    qed
  qed
  ultimately show ?case using ms1(1) ms2(1) by (intro exI [of _ "ms1 @ ms2"]) simp
qed

end


section \<open>The preamble\<close>

lemma length_mark [simp]: "length (mark r used) = length used"
  by (simp add: mark_def)

lemma length_mark_insn [simp]: "length (mark_insn i used) = length used"
  by (simp add: mark_insn_def Let_def)

lemma length_scan_loop [simp]: "length (scan_loop insns i used) = length used"
  by (induction insns i used rule: scan_loop.induct) (subst scan_loop.simps, simp)

lemma scan_used_regs_fields [simp]:
  "t_modules (scan_used_regs insns s) = t_modules s" "t_had_error (scan_used_regs insns s) = t_had_error s"
  "t_insn_map_idx (scan_used_regs insns s) = t_insn_map_idx s"
  by (simp_all add: scan_used_regs_def)

text \<open>
  The registers an instruction reads or writes, by its format: a helper call takes its map and its key
  in registers 1 and 2, the exit returns register 0.  A program mentions register 1, which carries the
  context, and the registers of its instructions; the second slot of a wide load is none.
\<close>

definition insn_regs :: "insn \<Rightarrow> nat list" where
  "insn_regs i =
     (let c = i_cls i; source = (if src_field (code i) = BPF_X then [src i] else [])
      in if c \<in> {BPF_ALU, BPF_ALU64} then dst i # source
         else if c \<in> {BPF_LDX, BPF_STX} then [dst i, src i]
         else if c = BPF_ST then [dst i]
         else if c = BPF_LD then (if i_mode i = BPF_IND then [dst i, src i] else [dst i])
         else if i_op i = BPF_EXIT then [0]
         else if i_op i = BPF_CALL then [0, 1, 2]
         else if i_op i = BPF_JA then []
         else dst i # source)"

definition mentions :: "insn list \<Rightarrow> nat \<Rightarrow> bool" where
  "mentions insns n \<longleftrightarrow> n = 1
     \<or> (\<exists>k < length insns. (k = 0 \<or> code (insns ! (k - 1)) \<noteq> LD_IMM64) \<and> n \<in> set (insn_regs (insns ! k)))"

lemma mark_nth: "length used = 11 \<Longrightarrow> n < 11 \<Longrightarrow> mark r used ! n \<longleftrightarrow> used ! n \<or> n = r"
  by (auto simp: mark_def nth_list_update)

lemma mark_insn_nth:
  assumes "length used = 11" "n < 11"
  shows "mark_insn i used ! n \<longleftrightarrow> used ! n \<or> n \<in> set (insn_regs i)"
proof -
  have "i_cls i = take_bit 3 (code i)" using and_exp_minus_one [of "code i" 3] by (simp add: i_cls_def cls_def)
  then have "0 \<le> i_cls i" "i_cls i < 8" using take_bit_int_less_exp [of 3 "code i"] by simp_all
  then have "i_cls i \<in> {0, 1, 2, 3, 4, 5, 6, 7}" by auto
  then show ?thesis
    by (auto simp: mark_insn_def insn_regs_def is_jmp_def Let_def mark_nth assms)
qed

text \<open>The scan finds exactly the registers a program mentions.\<close>

lemma scan_loop_nth:
  assumes pairs: "imm64_pairs insns"
  shows "length used = 11 \<Longrightarrow> n < 11 \<Longrightarrow> i = 0 \<or> code (insns ! (i - 1)) \<noteq> LD_IMM64 \<Longrightarrow>
    scan_loop insns i used ! n \<longleftrightarrow> used ! n
      \<or> (\<exists>k < length insns. i \<le> k \<and> (k = 0 \<or> code (insns ! (k - 1)) \<noteq> LD_IMM64) \<and> n \<in> set (insn_regs (insns ! k)))"
proof (induction "length insns - i" arbitrary: i used rule: less_induct)
  case less
  let ?P = "\<lambda>k. (k = 0 \<or> code (insns ! (k - 1)) \<noteq> LD_IMM64) \<and> n \<in> set (insn_regs (insns ! k))"
  have ex: "(\<exists>k < length insns. i \<le> k \<and> ?P k) \<longleftrightarrow> ?P i \<or> (\<exists>k < length insns. Suc i \<le> k \<and> ?P k)" if "i < length insns" for i
    using that by (metis Suc_le_eq le_eq_less_or_eq)
  show ?case
  proof (cases "i < length insns")
    case False
    then show ?thesis by (subst scan_loop.simps) auto
  next
    case True
    note i = this
    show ?thesis
    proof (cases "code (insns ! i) = LD_IMM64")
      case False
      have "scan_loop insns i used ! n = scan_loop insns (Suc i) (mark_insn (insns ! i) used) ! n"
        using i False by (subst scan_loop.simps) simp
      also have "\<dots> \<longleftrightarrow> mark_insn (insns ! i) used ! n \<or> (\<exists>k < length insns. Suc i \<le> k \<and> ?P k)"
        by (rule less.hyps) (use i False less.prems(1,2) in simp_all)
      finally show ?thesis
        unfolding ex [OF i] mark_insn_nth [OF less.prems(1,2)] using less.prems(3) by simp
    next
      case True
      then have r: "set (insn_regs (insns ! i)) = {dst (insns ! i)}" by (simp add: insn_regs_def insn_fields opcode_fields Let_def)
      have next_op: "code (insns ! Suc i) \<noteq> LD_IMM64" if "Suc i < length insns"
        using pairs True that by (simp add: imm64_pairs_def LD_IMM64_def)
      have "scan_loop insns (i + 2) (mark (dst (insns ! i)) used) ! n
          \<longleftrightarrow> mark (dst (insns ! i)) used ! n \<or> (\<exists>k < length insns. i + 2 \<le> k \<and> ?P k)"
      proof (cases "Suc i < length insns")
        case True
        show ?thesis by (rule less.hyps) (use i next_op [OF True] less.prems(1,2) in simp_all)
      qed (subst scan_loop.simps, auto)
      moreover have "scan_loop insns i used = scan_loop insns (i + 2) (mark (dst (insns ! i)) used)"
        using i True by (subst scan_loop.simps) simp
      moreover have "(\<exists>k < length insns. Suc i \<le> k \<and> ?P k) \<longleftrightarrow> (\<exists>k < length insns. i + 2 \<le> k \<and> ?P k)"
      proof -
        have "\<not> ?P (Suc i)" using True by simp
        then have "Suc i \<le> k \<and> ?P k \<longleftrightarrow> i + 2 \<le> k \<and> ?P k" for k by (cases "k = Suc i") auto
        then show ?thesis by simp
      qed
      ultimately show ?thesis
        unfolding ex [OF i] using mark_nth [OF less.prems(1,2)] less.prems(3) r by simp
    qed
  qed
qed

lemma scan_mentions:
  assumes "imm64_pairs insns" "n < 11"
  shows "mark 1 (scan_loop insns 0 (replicate NUM_BPF_REGS False)) ! n \<longleftrightarrow> mentions insns n"
  using scan_loop_nth [OF assms(1), of "replicate NUM_BPF_REGS False" n 0] assms(2)
  by (auto simp: mentions_def mark_nth)

definition seed_regs :: "nat list \<Rightarrow> tstate \<Rightarrow> tstate" where
  "seed_regs rs s = fold (\<lambda>r s. if t_reg_used s ! r then emit (op_set (H_REG r) 0) s else s) rs s"

lemma seed_regs_fields [simp]:
  "t_modules (seed_regs rs s) = t_modules s" "t_had_error (seed_regs rs s) = t_had_error s"
  "t_insn_map_idx (seed_regs rs s) = t_insn_map_idx s" "t_reg_used (seed_regs rs s) = t_reg_used s"
  by (induction rs arbitrary: s) (simp_all add: seed_regs_def)

lemma seed_regs_eval:
  "rd (after (seed_regs rs s) h) x =
     (if \<exists>r \<in> set rs. x = 10 + r \<and> t_reg_used s ! r then 0 else rd (after s h) x)"
proof (induction rs arbitrary: s)
  case (Cons r rs)
  have "seed_regs (r # rs) s = seed_regs rs (if t_reg_used s ! r then emit (op_set (H_REG r) 0) s else s)"
    by (simp add: seed_regs_def)
  then show ?case using Cons.IH by auto
qed (simp add: seed_regs_def)

context first_match
begin

lemma preamble_sim:
  assumes "imm64_pairs insns" "\<And>n. n < 11 \<Longrightarrow> \<not> mentions insns n \<Longrightarrow> rd h (H_REG n) = 0"
  obtains m where "t_modules (translate_preamble (scan_used_regs insns s)) = t_modules s @ [m]"
    "t_had_error (translate_preamble (scan_used_regs insns s)) = t_had_error s"
    "t_insn_map_idx (translate_preamble (scan_used_regs insns s)) = t_insn_map_idx s"
    "sim (replicate 11 0) (xf (module_rules m) h)" "rd (xf (module_rules m) h) 1 = int (BLOCK_PC 0)"
proof -
  let ?s = "scan_used_regs insns s"
  let ?t = "seed_regs [0..<NUM_BPF_REGS] (?s\<lparr>t_ops := []\<rparr>)"
  let ?m = "TransformerModule (t_next_mod ?t) [SeqCtr [] (t_ops ?t @ [set_pc_op (BLOCK_PC 0) H_PC])]"
  let ?h = "(after ?t h)(1 \<mapsto> int (BLOCK_PC 0))"
  have tr: "translate_preamble ?s = push_module (module_rules ?m) (emit (op_raw (set_pc_op (BLOCK_PC 0) H_PC)) ?t)"
    by (simp add: translate_preamble_def seed_regs_def Let_def rule_def op_raw_def)
  have run: "xf (module_rules ?m) h = ?h"
    by (simp add: xf_first eval_set_pc')
  have "rd ?h (H_REG n) = 0" if "n < 11" for n
    using assms(2) [OF that] scan_mentions [OF assms(1) that] that seed_regs_eval [of "[0..<NUM_BPF_REGS]" "?s\<lparr>t_ops := []\<rparr>" h "10 + n"]
    by (auto simp: scan_used_regs_def)
  then have "sim (replicate 11 0) ?h" by (simp add: sim_def reg_ok_def)
  then show thesis
    using that [of ?m] run by (simp add: tr op_raw_def del: BLOCK_PC_def H_PC_def)
qed

text \<open>The whole program.\<close>

theorem program_sim:
  assumes tr: "translate_program insns s = Some s'" and ok: "\<not> t_had_error s'"
    and init: "t_modules s = []" "t_insn_map_idx s = Map.empty"
    and wf: "imm64_pairs insns" "length insns \<le> MAX_INSNS"
    and h: "\<And>n. n < 11 \<Longrightarrow> \<not> mentions insns n \<Longrightarrow> rd h (H_REG n) = 0"
  shows "\<not> computing insns \<and> (\<forall>fuel. \<exists>x. vm_run insns fuel = Inl x)
     \<or> (\<exists>m \<le> length insns + 1. vm_run insns m = Inr (rd (run_chain xf (t_modules s') h) (H_REG 0)))"
proof -
  obtain bs block_of s1 where fl: "find_leaders insns s = ((bs, block_of), s1)" by (metis prod.collapse)
  obtain L where L: "leaders insns s = (L, s1)" "sorted_wrt (<) bs" "set bs = {k. is_leader insns L k}"
    using find_leaders_facts [OF fl] by blast
  note fr = leaders_frame [OF L(1)]
  obtain md where pre: "t_modules (translate_preamble (scan_used_regs insns s1)) = t_modules s1 @ [md]"
      "t_had_error (translate_preamble (scan_used_regs insns s1)) = t_had_error s1"
      "t_insn_map_idx (translate_preamble (scan_used_regs insns s1)) = t_insn_map_idx s1"
      "sim (replicate 11 0) (xf (module_rules md) h)" "rd (xf (module_rules md) h) 1 = int (BLOCK_PC 0)"
    using preamble_sim [OF wf(1) h] by blast
  define bi where "bi = (if length bs \<noteq> 0 then (replicate (length bs) abs_init)[0 := entry_state]
                         else replicate (length bs) abs_init)"
  have bs: "translate_blocks insns bs block_of [0..<length bs] bi
      (translate_preamble (scan_used_regs insns s1)) = Some s'"
    using tr fl by (simp add: translate_program_def bi_def Let_def cong: if_cong)
  have "abs_ok entry_state" by (simp add: entry_state_def)
  then have bi: "list_all abs_ok bi" "length bi = length bs"
    by (auto simp: bi_def list_all_length nth_list_update)
  have ok1: "\<not> t_had_error s1" using translate_blocks_frame [OF bs] ok pre(2) by blast
  have maps: "t_insn_map_idx (translate_preamble (scan_used_regs insns s1)) = Map.empty"
    using pre(3) fr(1) init(2) by (simp add: extends_def)
  have sub: "set bs \<subseteq> {..<length insns}" using L(3) by (auto simp: is_leader_def)
  have nz: "code (insns ! p) \<noteq> 0" if "p \<in> set bs" for p
    using translate_blocks_starts [OF L(2) sub bs ok] that by (fastforce simp: in_set_conv_nth)
  have len: "length insns \<le> 2 ^ 61" using wf(2) by simp
  obtain ms where ms: "t_modules s' = t_modules (translate_preamble (scan_used_regs insns s1)) @ ms"
      "\<forall>p \<in> set (drop 0 bs). chain_ok xf insns ms p"
    using blocks_sim [OF L(2,3) nz leaders_jump_ok [OF L(1) ok1 wf(1)] wf(1) len bs ok maps bi] by blast
  have chain: "run_chain xf (t_modules s') h = run_chain xf ms (xf (module_rules md) h)"
    using ms(1) pre(1) fr(1) init(1) by (simp add: extends_def)
  show ?thesis
  proof (cases "insns = []")
    case True
    then have "bs = []" using sub by auto
    then have "ms = []" using ms(1) bs by simp
    moreover have "rd (xf (module_rules md) h) (H_REG 0) = 0"
      using simD [OF pre(4), of 0] by simp
    ultimately have "vm_run insns 1 = Inr (rd (run_chain xf (t_modules s') h) (H_REG 0))"
      using True by (simp add: chain vm_run_def vm_step_def)
    then show ?thesis by (intro disjI2 exI [of _ 1]) simp
  next
    case False
    then have "0 \<in> set bs" using leaders_zero [OF L(1)] L(3) by simp
    with ms(2) have "chain_ok xf insns ms 0" by simp
    with pre(4,5) show ?thesis
      unfolding chain_ok_def chain vm_run_def stuck_def by fastforce
  qed
qed

end

end
