(* ===== verification/Acceptance.thy ===== *)
theory Acceptance
  imports Chain
begin

text \<open>
  The converse side of the refusals of \<open>src/pybpf/translate.py\<close>: a syntactic subset of programs that
  the translator accepts.  \<open>accepted\<close> is decidable by looking at each instruction: arithmetic with a
  known operation and shifts by constants, wide loads of constants, and forward jumps that stay in
  the program.
\<close>

section \<open>The subset\<close>

definition alu_accepted :: "insn \<Rightarrow> bool" where
  "alu_accepted i \<longleftrightarrow> dst i < NUM_BPF_REGS \<and> src i < NUM_BPF_REGS
     \<and> (i_op i \<in> {BPF_MOV, BPF_NEG}
        \<or> i_op i \<in> {BPF_LSH, BPF_RSH, BPF_ARSH} \<and> is_imm i
        \<or> i_op i = BPF_END \<and> imm i \<in> {16, 32, 64}
        \<or> i_op i \<notin> {BPF_MOV, BPF_NEG, BPF_LSH, BPF_RSH, BPF_ARSH, BPF_END} \<and> ALU_BINOP (i_op i) \<noteq> None)"

definition jump_accepted :: "insn list \<Rightarrow> nat \<Rightarrow> insn \<Rightarrow> bool" where
  "jump_accepted insns k i \<longleftrightarrow>
     i_op i = BPF_EXIT
     \<or> 0 \<le> off i \<and> int k + 1 + off i \<le> int (length insns)
       \<and> (int k + 1 + off i < int (length insns) \<longrightarrow> code (insns ! (k + 1 + nat (off i))) \<noteq> 0)
       \<and> (i_op i = BPF_JA
          \<or> i_op i \<noteq> BPF_CALL \<and> dst i < NUM_BPF_REGS \<and> (is_imm i \<or> src i < NUM_BPF_REGS)
            \<and> (i_op i = BPF_JSET \<or> cond_table (i_op i) \<noteq> None))"

definition insn_accepted :: "insn list \<Rightarrow> nat \<Rightarrow> bool" where
  "insn_accepted insns k \<longleftrightarrow>
     (let i = insns ! k
      in if code i = 0 then 0 < k \<and> code (insns ! (k - 1)) = LD_IMM64
         else if code i = LD_IMM64 then
           dst i < NUM_BPF_REGS \<and> src i = 0 \<and> k + 1 < length insns \<and> code (insns ! (k + 1)) = 0
         else if i_cls i = BPF_ALU \<or> i_cls i = BPF_ALU64 then alu_accepted i
         else is_jmp i \<and> jump_accepted insns k i)"

definition accepted :: "insn list \<Rightarrow> bool" where
  "accepted insns \<longleftrightarrow> list_all (insn_accepted insns) [0..<length insns]"

lemma acceptedD: "accepted insns \<Longrightarrow> k < length insns \<Longrightarrow> insn_accepted insns k"
  by (simp add: accepted_def list_all_iff)

lemma accepted_pairs: "accepted insns \<Longrightarrow> imm64_pairs insns"
  unfolding imm64_pairs_def
proof (intro allI impI)
  fix i assume "accepted insns" "i + 1 < length insns" "code (insns ! i) = LD_IMM64"
  then show "code (insns ! (i + 1)) = 0"
    using acceptedD [of insns i] by (simp add: insn_accepted_def Let_def)
qed

lemma accepted_computing: "accepted insns \<Longrightarrow> computing insns"
proof -
  assume acc: "accepted insns"
  have "computes (insns ! k)" if "k < length insns" "code (insns ! k) \<noteq> 0" for k
    using acceptedD [OF acc that(1)] that(2)
    by (auto simp: insn_accepted_def computes_def jump_accepted_def Let_def split: if_splits)
  then show ?thesis by (auto simp: computing_def in_set_conv_nth)
qed

lemma accepted_next:
  assumes "accepted insns" "k + 1 < length insns" "code (insns ! k) \<noteq> LD_IMM64"
  shows "code (insns ! (k + 1)) \<noteq> 0"
  using acceptedD [OF assms(1,2)] assms(3) by (auto simp: insn_accepted_def Let_def)

lemma accepted_first: "accepted insns \<Longrightarrow> insns \<noteq> [] \<Longrightarrow> code (insns ! 0) \<noteq> 0"
  using acceptedD [of insns 0] by (auto simp: insn_accepted_def Let_def)

lemma jmp_code: "is_jmp i \<Longrightarrow> code i \<noteq> 0 \<and> code i \<noteq> LD_IMM64 \<and> i_cls i \<noteq> BPF_ALU \<and> i_cls i \<noteq> BPF_ALU64"
  by (auto simp: insn_fields opcode_fields)

lemma accepted_jump:
  "accepted insns \<Longrightarrow> k < length insns \<Longrightarrow> is_jmp (insns ! k) \<Longrightarrow> jump_accepted insns k (insns ! k)"
  using acceptedD [of insns k] jmp_code [of "insns ! k"] by (simp add: insn_accepted_def Let_def)

section \<open>No instruction of the subset is reported\<close>

lemma emit_bswap_no_error:
  assumes "t_tmp_next s \<le> 61"
  shows "t_had_error (emit_bswap idx sr n target s) = t_had_error s"
proof -
  have "t_had_error (bswap_byte n a b c i s) = t_had_error s" for a b c i s
    by (simp add: bswap_byte_def Let_def)
  then have "t_had_error (fold (bswap_byte n a b c) xs s) = t_had_error s" for a b c xs s
    by (induction xs arbitrary: s) simp_all
  then show ?thesis
    using assms by (simp add: emit_bswap_def Let_def)
qed

lemma emit_arsh_no_error:
  assumes "t_tmp_next s \<le> 61" "0 \<le> k" "k < int wb"
  shows "t_had_error (emit_arsh_const idx t k wb s) = t_had_error s"
  using assms by (auto simp: emit_arsh_const_def Let_def)

lemma alu_no_error:
  assumes "alu_accepted i" "t_tmp_next s = 0"
  shows "t_had_error (snd (translate_alu idx i is64 st s)) = t_had_error s"
proof -
  have sh: "0 \<le> imm i AND 63" "imm i AND 63 < 64" "0 \<le> imm i AND 31" "imm i AND 31 < 32"
    using take_bit_small [of "imm i"] by (simp_all add: and_shift_mask)
  have "t_had_error (alu_emit idx i is64 s) = t_had_error s"
    using assms(1) unfolding alu_accepted_def
  proof (elim conjE disjE)
    assume "i_op i \<in> {BPF_MOV, BPF_NEG}"
    then show ?thesis using assms(2) by (cases is64; cases "is_imm i") (auto simp: alu_emit_def Let_def)
  next
    assume "i_op i \<in> {BPF_LSH, BPF_RSH, BPF_ARSH}" "is_imm i"
    then show ?thesis using assms(2) sh by (cases is64) (auto simp: alu_emit_def Let_def emit_arsh_no_error)
  next
    assume "i_op i = BPF_END" "imm i \<in> {16, 32, 64}"
    then show ?thesis using assms(2) by (auto simp: alu_emit_def Let_def emit_bswap_no_error)
  next
    assume "i_op i \<notin> {BPF_MOV, BPF_NEG, BPF_LSH, BPF_RSH, BPF_ARSH, BPF_END}" "ALU_BINOP (i_op i) \<noteq> None"
    then show ?thesis using assms(2) by (cases is64; cases "is_imm i") (auto simp: alu_emit_def Let_def)
  qed
  then show ?thesis using assms(1) by (simp add: translate_alu_def alu_accepted_def)
qed

lemma translate_one_accepted:
  assumes acc: "accepted insns" "k < length insns" "code (insns ! k) \<noteq> 0"
    and body: "is_jmp (insns ! k) \<Longrightarrow> is_nop_jump (insns ! k)" and st: "abs_ok st"
    and maps: "t_insn_map_idx s = Map.empty"
  shows "\<exists>m st' s'. translate_one k insns st s = Some (m, st', s') \<and> t_had_error s' = t_had_error s
     \<and> (m = (if code (insns ! k) = LD_IMM64 then 2 else 1))"
proof -
  let ?i = "insns ! k"
  note a = acceptedD [OF acc(1,2)]
  have len: "length (a_reg st) = 11" using st by (simp add: abs_ok_def)
  consider "is_nop_jump ?i" | "\<not> is_nop_jump ?i" "code ?i = LD_IMM64"
    | b where "\<not> is_nop_jump ?i" "code ?i \<noteq> LD_IMM64" "i_cls ?i = (if b then BPF_ALU64 else BPF_ALU)" "alu_accepted ?i"
    using a acc(3) body by (fastforce simp: insn_accepted_def Let_def split: if_splits)
  then show ?thesis
  proof cases
    case 1
    then show ?thesis using imm64_class [of ?i] by (auto simp: translate_one_def Let_def)
  next
    case 2
    then show ?thesis
      using a acc(3) maps len by (auto simp: translate_one_def Let_def insn_accepted_def put_reg_def)
  next
    case 3
    have "t_had_error (snd (translate_alu k ?i b st (s\<lparr>t_tmp_next := 0\<rparr>))) = t_had_error s"
      using alu_no_error [OF 3(4), of "s\<lparr>t_tmp_next := 0\<rparr>"] by simp
    with 3 show ?thesis
      by (cases b) (auto simp: translate_one_def Let_def intro!: exI prod_eqI)
  qed
qed


section \<open>The scan for leaders\<close>

lemma leaders_step_accepted:
  assumes acc: "accepted insns" "i < length insns" "code (insns ! i) \<noteq> 0"
    and step: "leaders_step insns i L s = (k, L', s')" and len: "length L = length insns + 1"
    and lead: "\<And>p. p < length insns \<Longrightarrow> L ! p \<Longrightarrow> code (insns ! p) \<noteq> 0"
  shows "s' = s" "\<And>p. p < length insns \<Longrightarrow> L' ! p \<Longrightarrow> code (insns ! p) \<noteq> 0"
    "i + k < length insns \<Longrightarrow> code (insns ! (i + k)) \<noteq> 0"
proof -
  let ?i = "insns ! i"
  have nxt: "i + 1 < length insns \<Longrightarrow> code ?i \<noteq> LD_IMM64 \<Longrightarrow> code (insns ! (i + 1)) \<noteq> 0"
    using accepted_next [OF acc(1)] by blast
  have wide: "i + 2 < length insns \<Longrightarrow> code ?i = LD_IMM64 \<Longrightarrow> code (insns ! (i + 2)) \<noteq> 0"
    using accepted_next [OF acc(1), of "i + 1"] accepted_pairs [OF acc(1)]
    by (auto simp: imm64_pairs_def)
  show "i + k < length insns \<Longrightarrow> code (insns ! (i + k)) \<noteq> 0"
    using step nxt wide by (auto simp: leaders_step_def Let_def split: if_splits)
  have jmp: "jump_accepted insns i ?i" if "is_jmp ?i"
    using accepted_jump [OF acc(1,2) that] .
  consider "code ?i = LD_IMM64 \<or> \<not> is_jmp ?i \<or> is_nop_jump ?i" | "is_jmp ?i" "\<not> is_nop_jump ?i" "i_op ?i = BPF_EXIT"
    | "is_jmp ?i" "\<not> is_nop_jump ?i" "i_op ?i \<noteq> BPF_EXIT" "i_op ?i \<noteq> BPF_CALL"
  proof -
    have "i_op ?i = BPF_EXIT \<or> i_op ?i \<noteq> BPF_CALL" if "is_jmp ?i"
      using jmp [OF that] by (auto simp: jump_accepted_def)
    then show thesis using that by blast
  qed
  then have "s' = s \<and> (\<forall>p. p < length insns \<longrightarrow> L' ! p \<longrightarrow> code (insns ! p) \<noteq> 0)"
  proof cases
    case 1
    then have "s' = s" "L' = L"
      using step by (auto simp: leaders_step_def Let_def split: if_splits)
    then show ?thesis using lead by blast
  next
    case 2
    then show ?thesis
      using step lead nxt imm64_class [of ?i] len
      by (auto simp: leaders_step_def Let_def nth_list_update split: if_splits)
  next
    case 3
    define t where "t = i + 1 + nat (off ?i)"
    have o: "0 \<le> off ?i" "int t = int i + 1 + off ?i" "t \<le> length insns"
        "t < length insns \<Longrightarrow> code (insns ! t) \<noteq> 0" "nat (int i + 1 + off ?i) = t"
      using jmp [OF 3(1)] 3(3) by (auto simp: jump_accepted_def t_def)
    then have "s' = s" "L' = (if i + 1 < length insns then L[i + 1 := True] else L)[t := True]"
      using step 3 imm64_class [of ?i] by (auto simp: leaders_step_def Let_def split: if_splits)
    moreover have "p = t \<or> p = i + 1 \<or> L ! p" if "L' ! p" for p
      using that \<open>L' = _\<close> by (cases "p = t"; cases "p = i + 1") (auto split: if_splits)
    ultimately show ?thesis
      using o(4) lead nxt 3(1) imm64_class [of ?i] by metis
  qed
  then show "s' = s" "\<And>p. p < length insns \<Longrightarrow> L' ! p \<Longrightarrow> code (insns ! p) \<noteq> 0" by blast+
qed

lemma leaders_loop_accepted:
  assumes acc: "accepted insns"
  shows "leaders_loop insns i L s = (L', s') \<Longrightarrow> length L = length insns + 1
     \<Longrightarrow> (i < length insns \<Longrightarrow> code (insns ! i) \<noteq> 0)
     \<Longrightarrow> (\<And>p. p < length insns \<Longrightarrow> L ! p \<Longrightarrow> code (insns ! p) \<noteq> 0)
     \<Longrightarrow> s' = s \<and> (\<forall>p < length insns. L' ! p \<longrightarrow> code (insns ! p) \<noteq> 0)"
proof (induction "length insns - i" arbitrary: i L s rule: less_induct)
  case less
  show ?case
  proof (cases "i < length insns")
    case True
    obtain k L1 s1 where step: "leaders_step insns i L s = (k, L1, s1)" by (metis prod.collapse)
    note m = leaders_step_mono [OF step]
    note a = leaders_step_accepted [OF acc True less.prems(3) [OF True] step less.prems(2,4)]
    from less.prems(1) True have rest: "leaders_loop insns (i + k) L1 s1 = (L', s')"
      by (subst (asm) leaders_loop_step) (simp add: step)
    have "length insns - (i + k) < length insns - i" using m(1) True by auto
    from less.hyps [OF this rest] m(2) a less.prems(2) show ?thesis by auto
  next
    case False
    with less.prems show ?thesis by (subst (asm) leaders_loop_step) auto
  qed
qed

lemma leaders_accepted:
  assumes "accepted insns" "leaders insns s = (L, s')"
  shows "s' = s" "is_leader insns L p \<Longrightarrow> code (insns ! p) \<noteq> 0"
proof -
  let ?F = "replicate (length insns + 1) False"
  let ?L = "if length insns \<noteq> 0 then ?F[0 := True] else ?F"
  have run: "leaders_loop insns 0 ?L s = (L, s')" using assms(2) by (simp only: leaders_def Let_def)
  have len: "length ?L = length insns + 1" by simp
  have lead: "code (insns ! p) \<noteq> 0" if "p < length insns" "?L ! p" for p
    using that accepted_first [OF assms(1)] by (cases "p = 0") (auto simp: nth_list_update split: if_splits)
  have zero: "code (insns ! 0) \<noteq> 0" if "0 < length insns"
    using accepted_first [OF assms(1)] that by auto
  from leaders_loop_accepted [OF assms(1) run len zero lead]
  show "s' = s" "is_leader insns L p \<Longrightarrow> code (insns ! p) \<noteq> 0"
    by (auto simp: is_leader_def)
qed

section \<open>The blocks\<close>

lemma translate_body_accepted:
  assumes acc: "accepted insns"
  shows "e \<le> length insns \<Longrightarrow> (i < e \<Longrightarrow> code (insns ! i) \<noteq> 0) \<Longrightarrow>
     (\<And>j. i \<le> j \<Longrightarrow> j < e \<Longrightarrow> is_jmp (insns ! j) \<Longrightarrow> is_nop_jump (insns ! j)) \<Longrightarrow>
     abs_ok st \<Longrightarrow> t_insn_map_idx s = Map.empty \<Longrightarrow>
     \<exists>st' s'. translate_body insns i e st s = Some (st', s') \<and> t_had_error s' = t_had_error s"
proof (induction "e - i" arbitrary: i st s rule: less_induct)
  case less
  show ?case
  proof (cases "i < e")
    case True
    then have i: "i < length insns" "code (insns ! i) \<noteq> 0" using less.prems(1,2) by auto
    from translate_one_accepted [OF acc i less.prems(3) less.prems(4,5)] True
    obtain m st1 s1 where one: "translate_one i insns st s = Some (m, st1, s1)" "t_had_error s1 = t_had_error s"
      and m: "m = (if code (insns ! i) = LD_IMM64 then 2 else 1)" by blast
    have nz: "code (insns ! (i + m)) \<noteq> 0" if "i + m < e"
    proof (cases "code (insns ! i) = LD_IMM64")
      case True
      then have "code (insns ! (i + 1)) = 0"
        using accepted_pairs [OF acc] that less.prems(1) m by (simp add: imm64_pairs_def)
      then show ?thesis using accepted_next [OF acc, of "i + 1"] that less.prems(1) True m by simp
    next
      case False
      then show ?thesis using accepted_next [OF acc, of i] that less.prems(1) m by simp
    qed
    have st1: "abs_ok st1" "t_insn_map_idx s1 = Map.empty"
      using translate_one_abs_ok [OF one(1)] extends_translate_one [OF one(1) extends_refl] less.prems(4,5)
      by (auto simp: extends_def)
    have jmp: "\<And>j. i + m \<le> j \<Longrightarrow> j < e \<Longrightarrow> is_jmp (insns ! j) \<Longrightarrow> is_nop_jump (insns ! j)"
      using less.prems(3) by simp
    have "e - (i + m) < e - i" using True m by (cases "code (insns ! i) = LD_IMM64") auto
    from less.hyps [OF this less.prems(1) nz jmp st1] one
    show ?thesis by (subst translate_body.simps) (simp add: True)
  next
    case False
    then show ?thesis by (subst translate_body.simps) simp
  qed
qed

lemma emit_condition_accepted:
  assumes "i_op i = BPF_JSET \<or> cond_table (i_op i) \<noteq> None"
  shows "t_had_error (snd (emit_condition idx i s)) = t_had_error s"
proof -
  have jset: "t_had_error (snd (emit_jset idx i s)) = t_had_error s" if "t_tmp_next s = 0" for s
    using that by (simp add: emit_jset_def Let_def)
  have ops: "t_had_error (snd (emit_operands idx i s)) = t_had_error s" if "t_tmp_next s = 0" for s
    using that by (auto simp: emit_operands_def Let_def)
  show ?thesis
    using assms jset [of "s\<lparr>t_tmp_next := 0\<rparr>"] ops [of "s\<lparr>t_tmp_next := 0\<rparr>"]
    by (auto simp: emit_condition_def Let_def split_beta)
qed

lemma translate_block_accepted:
  assumes acc: "accepted insns"
    and bs: "sorted_wrt (<) bs" "set bs = {k. is_leader insns L k}" "b < length bs"
    and nz: "\<And>p. p \<in> set bs \<Longrightarrow> code (insns ! p) \<noteq> 0"
    and jump: "\<And>j. j < length insns \<Longrightarrow> is_jmp (insns ! j) \<Longrightarrow> \<not> is_nop_jump (insns ! j) \<Longrightarrow> jump_ok insns L j"
    and abs: "list_all abs_ok block_in" "b < length block_in"
    and maps: "t_insn_map_idx s = Map.empty"
  shows "\<exists>bi s'. translate_block insns bs block_of b block_in s = Some (bi, s') \<and> t_had_error s' = t_had_error s"
proof -
  let ?e = "block_end insns bs b"
  let ?t = "insns ! (?e - 1)"
  let ?ht = "is_jmp ?t \<and> \<not> is_nop_jump ?t"
  let ?be = "if ?ht then ?e - 1 else ?e"
  let ?st = "if a_live (block_in ! b) then block_in ! b else abs_init"
  have sub: "set bs \<subseteq> {..<length insns}" using bs(2) by (auto simp: is_leader_def)
  note bounds = block_bounds [OF bs(1) sub bs(3)]
  have st: "abs_ok ?st" using abs by (simp add: list_all_length)
  have inner: "is_nop_jump (insns ! j)" if j: "bs ! b \<le> j" "j < ?be" "is_jmp (insns ! j)" for j
  proof (rule ccontr)
    assume n: "\<not> is_nop_jump (insns ! j)"
    have lt: "j + 1 < ?e" using j n bounds(1) by (cases "j = ?e - 1") (auto split: if_splits)
    then have "j + 1 \<in> set bs"
      using jump [OF _ j(3) n] bounds(2) bs(2) by (auto simp: jump_ok_def Let_def is_leader_def)
    then obtain q where q: "q < length bs" "bs ! q = j + 1" by (auto simp: in_set_conv_nth)
    have "b < q" using q j(1) bs by (metis less_Suc_eq_le linorder_neqE_nat not_less_iff_gr_or_eq
          sorted_wrt_nth_less Suc_eq_plus1 order_less_le_trans)
    then have "?e \<le> j + 1"
      using q bs(1) by (auto simp: block_end_def sorted_wrt_iff_nth_less)
        (metis Suc_lessI less_imp_le_nat order_refl)
    with lt show False by simp
  qed
  have "bs ! b < ?be \<Longrightarrow> code (insns ! (bs ! b)) \<noteq> 0" using nz bs(3) by simp
  then have "\<exists>st1 s1. translate_body insns (bs ! b) ?be ?st (s\<lparr>t_ops := []\<rparr>) = Some (st1, s1)
      \<and> t_had_error s1 = t_had_error (s\<lparr>t_ops := []\<rparr>)"
    using bounds(2) maps st inner by (intro translate_body_accepted [OF acc]) (auto split: if_splits)
  then obtain st1 s1 where body: "translate_body insns (bs ! b) ?be ?st (s\<lparr>t_ops := []\<rparr>) = Some (st1, s1)"
    and e1: "t_had_error s1 = t_had_error s" by auto
  have "\<exists>cond arms st2 s2. translate_term (?e - 1) ?ht ?t st1 s1 = Some (cond, arms, st2, s2)
      \<and> t_had_error s2 = t_had_error s1"
  proof (cases ?ht)
    case True
    then have "jump_accepted insns (?e - 1) ?t"
      using accepted_jump [OF acc, of "?e - 1"] bounds by simp
    then show ?thesis
      using True emit_condition_accepted [of ?t "?e - 1" s1]
      by (auto simp: jump_accepted_def translate_term_def jmp_is_conditional_def split_beta)
  qed (auto simp: translate_term_def)
  then obtain cond arms st2 s2 where tt: "translate_term (?e - 1) ?ht ?t st1 s1 = Some (cond, arms, st2, s2)"
      "t_had_error s2 = t_had_error s1" by blast
  obtain fl tk where "successors insns block_of ?e ?ht ?t = (fl, tk)" by (metis prod.collapse)
  with body tt e1 show ?thesis
    unfolding translate_block_def Let_def block_end_def [symmetric]
    by (cases fl; cases tk) auto
qed

lemma translate_blocks_accepted:
  assumes acc: "accepted insns"
    and bs: "sorted_wrt (<) bs" "set bs = {k. is_leader insns L k}"
    and nz: "\<And>p. p \<in> set bs \<Longrightarrow> code (insns ! p) \<noteq> 0"
    and jump: "\<And>j. j < length insns \<Longrightarrow> is_jmp (insns ! j) \<Longrightarrow> \<not> is_nop_jump (insns ! j) \<Longrightarrow> jump_ok insns L j"
  shows "set xs \<subseteq> {..<length bs} \<Longrightarrow> list_all abs_ok block_in \<Longrightarrow> length block_in = length bs \<Longrightarrow>
     t_insn_map_idx s = Map.empty \<Longrightarrow>
     \<exists>s'. translate_blocks insns bs block_of xs block_in s = Some s' \<and> t_had_error s' = t_had_error s"
proof (induction xs arbitrary: block_in s)
  case (Cons b xs)
  from translate_block_accepted [OF acc bs _ nz jump Cons.prems(2) _ Cons.prems(4), of b block_of] Cons.prems(1,3)
  obtain bi s1 where blk: "translate_block insns bs block_of b block_in s = Some (bi, s1)"
      "t_had_error s1 = t_had_error s" by auto
  have "list_all abs_ok bi" "length bi = length bs" "t_insn_map_idx s1 = Map.empty"
    using translate_block_frame(2,3) [OF blk(1)] Cons.prems by auto
  from Cons.IH [OF _ this] Cons.prems(1) blk show ?case by auto
qed simp

text \<open>The whole program.\<close>

lemma translate_program_accepted:
  assumes acc: "accepted insns" and s: "\<not> t_had_error s" "t_insn_map_idx s = Map.empty"
  obtains s' where "translate_program insns s = Some s'" "\<not> t_had_error s'"
proof -
  obtain bs block_of s1 where fl: "find_leaders insns s = ((bs, block_of), s1)" by (metis prod.collapse)
  obtain L where L: "leaders insns s = (L, s1)" "sorted_wrt (<) bs" "set bs = {k. is_leader insns L k}"
    using find_leaders_facts [OF fl] by blast
  have s1: "s1 = s" and nz: "\<And>p. p \<in> set bs \<Longrightarrow> code (insns ! p) \<noteq> 0"
    using leaders_accepted [OF acc L(1)] L(3) by auto
  have ok: "\<not> t_had_error s1" using s(1) s1 by simp
  define bi where "bi = (if length bs \<noteq> 0 then (replicate (length bs) abs_init)[0 := entry_state]
                         else replicate (length bs) abs_init)"
  have "abs_ok entry_state" by (simp add: entry_state_def)
  then have bi: "list_all abs_ok bi" "length bi = length bs"
    by (auto simp: bi_def list_all_length nth_list_update)
  let ?s = "translate_preamble (scan_used_regs insns s1)"
  have "t_had_error ?s = t_had_error s1" "t_insn_map_idx ?s = t_insn_map_idx s1"
    by (simp_all add: translate_preamble_def Let_def seed_regs_def [symmetric])
  then obtain s' where "translate_blocks insns bs block_of [0..<length bs] bi ?s = Some s'" "\<not> t_had_error s'"
    using translate_blocks_accepted [OF acc L(2,3) nz leaders_jump_ok [OF L(1) ok accepted_pairs [OF acc]] _ bi,
        of "[0..<length bs]" ?s block_of] s s1 by (auto simp: atLeast0LessThan)
  then show thesis
    using that fl by (simp add: translate_program_def bi_def Let_def cong: if_cong)
qed

text \<open>The translation of an accepted program computes what the interpreter returns.\<close>

lemma accepted_lowering:
  assumes "first_match holds xf" "accepted insns" "length insns \<le> MAX_INSNS"
    and s: "\<not> t_had_error s" "t_insn_map_idx s = Map.empty" "t_modules s = []"
    and h: "\<forall>n < 11. \<not> mentions insns n \<longrightarrow> rd h (H_REG n) = 0"
  obtains s' m where "translate_program insns s = Some s'" "\<not> t_had_error s'" "m \<le> length insns + 1"
    "vm_run insns m = Inr (rd (run_chain xf (t_modules s') h) (H_REG 0))"
proof -
  obtain s' where s': "translate_program insns s = Some s'" "\<not> t_had_error s'"
    using translate_program_accepted [OF assms(2) s(1,2)] by blast
  have "\<not> computing insns \<and> (\<forall>fuel. \<exists>x. vm_run insns fuel = Inl x)
     \<or> (\<exists>m \<le> length insns + 1. vm_run insns m = Inr (rd (run_chain xf (t_modules s') h) (H_REG 0)))"
    using h by (intro first_match.program_sim [OF assms(1) s' s(3,2) accepted_pairs [OF assms(2)] assms(3)]) blast
  with accepted_computing [OF assms(2)] s' that show thesis by blast
qed

end
