(* ===== verification/Instruction_Laws.thy ===== *)
theory Instruction_Laws
  imports Acceptance
begin

text \<open>
  What one instruction's lowering promises: ALU operations, byte swaps, shifts, conditions of jumps
  and memory accesses, each against the interpreter.
\<close>

text \<open>
  C30: The ops \<open>emit_bswap\<close> emits compute \<open>int.from_bytes\<close> of \<open>to_bytes\<close>: they store in the target
  header the low \<open>n\<close> bytes of the source header, read back in the other byte order.
\<close>

theorem bswap_correct:
  assumes "2 \<le> n" "n \<le> 8" "t_tmp_next s + 3 \<le> NUM_TMPS" "target < 30" "sr < 30 + t_tmp_next s"
    and "0 \<le> rd (after s h) sr" "rd (after s h) sr < 2 ^ 64"
  shows "\<exists>bs. to_bytes_little (take_bit (8 * n) (rd (after s h) sr)) (int n) = Inr bs
           \<and> rd (after (emit_bswap idx sr n target s) h) target = from_bytes_big bs"
proof -
  let ?v = "take_bit (8 * n) (rd (after s h) sr)"
  have "?v < 2 ^ (8 * n)" by (rule take_bit_int_less_exp)
  then have v: "0 \<le> ?v" "?v < 256 ^ n" by (simp_all add: power_mult)
  have tmp: "t_tmp_next s + 3 \<le> 64" using assms(3) by simp
  show ?thesis
    using emit_bswap_eval(1) [OF assms(1,2) tmp assms(4-7)] from_bytes_big_to_bytes_little [OF v]
    by (simp add: big_prefix_take_bit)
qed

theorem bswap_correct_witness:
  "rd (after (emit_bswap 0 (H_REG 3) 2 (H_REG 3) (emit (op_set (H_REG 3) 0x1234) (translator_init CTX_XDP_MD None)))
        Map.empty) (H_REG 3) = 0x3412"
proof -
  let ?s = "emit (op_set (H_REG 3) 0x1234) (translator_init CTX_XDP_MD None)"
  have v: "rd (after ?s Map.empty) (H_REG 3) = 0x1234" by (simp add: translator_init_def)
  have tmp: "t_tmp_next ?s = 0" by (simp add: translator_init_def)
  have "\<exists>bs. to_bytes_little (take_bit (8 * 2) 0x1234) (int 2) = Inr bs
      \<and> rd (after (emit_bswap 0 (H_REG 3) 2 (H_REG 3) ?s) Map.empty) (H_REG 3) = from_bytes_big bs"
    using bswap_correct [of 2 ?s "H_REG 3" "H_REG 3" Map.empty 0] tmp unfolding v by simp
  moreover have "to_bytes_little (take_bit (8 * 2) 0x1234) (int 2) = Inr [0x34, 0x12]" by code_simp
  ultimately show ?thesis by (simp add: from_bytes_big_def)
qed

text \<open>
  C31: The ops \<open>emit_arsh_const\<close> emits, which use only division, multiplication and or, compute the
  interpreter's arithmetic right shift by the constant.
\<close>

theorem arsh_const_correct:
  assumes "wb = 32 \<or> wb = 64" "0 < k" "k < wb" "t_tmp_next s + 2 \<le> NUM_TMPS" "reg < 30 + t_tmp_next s"
    and "0 \<le> rd (after s h) reg" "rd (after s h) reg < 2 ^ wb"
  shows "vm_alu BPF_ARSH (rd (after s h) reg) (int k) wb
           = Some (rd (after (emit_arsh_const idx reg (int k) wb s) h) reg)"
proof -
  have tmp: "t_tmp_next s + 2 \<le> 64" using assms(4) by simp
  have "int k AND int (wb - 1) = int k"
    using assms(1-3) and_shift_mask [of "int k"] by (auto simp: take_bit_int_id)
  then show ?thesis
    using emit_arsh_const_eval(1) [OF assms(1-3) tmp assms(5-7)]
    by (simp add: vm_alu_def arsh_def and_exp_minus_one Let_def)
qed

theorem arsh_const_correct_witness:
  "rd (after (emit_arsh_const 0 (H_REG 2) 4 64 (emit (op_set (H_REG 2) (- 256)) (translator_init CTX_XDP_MD None)))
        Map.empty) (H_REG 2) = 0xfffffffffffffff0"
proof -
  let ?s = "emit (op_set (H_REG 2) (- 256)) (translator_init CTX_XDP_MD None)"
  have v: "rd (after ?s Map.empty) (H_REG 2) = 0xffffffffffffff00" by (simp add: translator_init_def)
  have tmp: "t_tmp_next ?s = 0" by (simp add: translator_init_def)
  have "vm_alu BPF_ARSH 0xffffffffffffff00 (int 4) 64
      = Some (rd (after (emit_arsh_const 0 (H_REG 2) (int 4) 64 ?s) Map.empty) (H_REG 2))"
    using arsh_const_correct [of 64 4 ?s "H_REG 2" Map.empty 0] tmp unfolding v by simp
  moreover have "vm_alu BPF_ARSH 0xffffffffffffff00 (int 4) 64 = Some 0xfffffffffffffff0" by code_simp
  ultimately show ?thesis by simp
qed

text \<open>
  C7: When the translator reports nothing about an ALU instruction, the interpreter executes it
  without an exception, the emitted ops take the register headers where it takes its registers, and
  the program-counter header stays.
\<close>

theorem alu_correct:
  assumes "sim r (after s h)" and "t_tmp_next s = 0"
    and "i_cls i = (if is64 then BPF_ALU64 else BPF_ALU)"
    and "translate_alu idx i is64 st s = (st', s')" and "\<not> t_had_error s'"
  shows "\<exists>r'. vm_alu_step i r = Inr r' \<and> sim r' (after s' h) \<and> rd (after s' h) H_PC = rd (after s h) H_PC"
  using translate_alu_sim(1) [OF assms(1-3), of idx st] assms(4,5) by simp

theorem alu_correct_witness:
  "\<exists>r'. vm_alu_step \<lparr>code = 0x84, dst = 1, src = 0, off = 0, imm = 0\<rparr> (replicate 11 0) = Inr r'
     \<and> sim r' (after (snd (translate_alu 0 \<lparr>code = 0x84, dst = 1, src = 0, off = 0, imm = 0\<rparr> False abs_init
                 (translator_init CTX_XDP_MD None))) Map.empty)"
proof -
  let ?i = "\<lparr>code = 0x84, dst = 1, src = 0, off = 0, imm = 0\<rparr>" and ?s = "translator_init CTX_XDP_MD None"
  have "sim (replicate 11 0) (after ?s Map.empty)"
    by (simp add: sim_def reg_ok_def translator_init_def)
  moreover have "t_tmp_next ?s = 0" by (simp add: translator_init_def)
  moreover have "i_cls ?i = (if False then BPF_ALU64 else BPF_ALU)" by (simp add: insn_fields opcode_fields)
  moreover have "\<not> t_had_error (snd (translate_alu 0 ?i False abs_init ?s))"
    by (subst alu_no_error) (simp_all add: alu_accepted_def insn_fields opcode_fields translator_init_def)
  ultimately show ?thesis
    using alu_correct [of "replicate 11 0" ?s Map.empty ?i False 0 abs_init] by (metis prod.collapse)
qed

text \<open>The interpreter at a conditional jump, in terms of \<open>jmp_taken\<close>.\<close>

lemma vm_jmp_step_taken:
  assumes "i_op i \<notin> {BPF_JA, BPF_EXIT, BPF_CALL}" "length r = 11" "dst i < 11" "is_imm i \<or> src i < 11"
    and "jmp_taken i r = Some t"
  shows "vm_jmp_step i r pc = Next r (pc + 1 + (if t then off i else 0))"
  using assms
  by (auto simp: vm_jmp_step_def Let_def jmp_taken_def jmp_lhs_def jmp_rhs_def jmp_bits_def
      push_bit_of_1 and_m64 and_m32 split: if_splits)

text \<open>
  C8: The entry and the swap flag \<open>emit_condition\<close> returns decide the jump: read by a first-match
  evaluator in any header map that differs from the block's only at the program counter, they select
  the successor the interpreter goes to.
\<close>

theorem condition_correct:
  assumes "first_match holds xf" and "sim r (after s h)"
    and "dst i < NUM_BPF_REGS" and "is_imm i \<or> src i < NUM_BPF_REGS"
    and "i_op i \<notin> {BPF_JA, BPF_EXIT, BPF_CALL}"
    and "emit_condition idx i s = (Some (e, swap), s')"
    and "\<forall>n. n \<noteq> H_PC \<longrightarrow> rd h' n = rd (after s' h) n"
  shows "vm_jmp_step i r pc = Next r (pc + 1 + (if holds e h' \<noteq> swap then off i else 0))"
proof (rule vm_jmp_step_taken)
  show "jmp_taken i r = Some (holds e h' \<noteq> swap)"
    using assms by (intro first_match.emit_condition_sim(1) [OF assms(1,2) _ _ assms(6)]) simp_all
qed (use assms sim_length [OF assms(2)] in simp_all)

theorem condition_correct_witness:
  "vm_jmp_step \<lparr>code = 0x65, dst = 1, src = 0, off = 7, imm = - 1\<rparr> (replicate 11 0) 0
     = Next (replicate 11 0) 8"
proof -
  let ?i = "\<lparr>code = 0x65, dst = 1, src = 0, off = 7, imm = - 1\<rparr>" and ?s = "translator_init CTX_XDP_MD None"
  let ?e = "Entry 30 CmpGt (MatchConst 0x7fffffffffffffff W64)"
  let ?s' = "emit (op_binop XorOp W64 (hdr 30) (konst 0x8000000000000000) 30)
      (emit (op_move 30 11) (?s\<lparr>t_tmp_next := 1\<rparr>))"
  have sim: "sim (replicate 11 0) (after ?s Map.empty)"
    by (simp add: sim_def reg_ok_def translator_init_def)
  have em: "emit_condition 0 ?i ?s = (Some (?e, False), ?s')"
    by (simp add: emit_condition_def emit_operands_def cond_table_def Let_def translator_init_def
        insn_fields opcode_fields term_defs mask_eq_exp_minus_1)
  have "vm_jmp_step ?i (replicate 11 0) 0 = Next (replicate 11 0)
      (0 + 1 + (if match_holds ?e (after ?s' Map.empty) \<noteq> False then off ?i else 0))"
    using condition_correct [OF ref.first_match_axioms sim _ _ _ em, of "after ?s' Map.empty" 0]
    by (simp add: insn_fields opcode_fields)
  moreover have "match_holds ?e (after ?s' Map.empty)"
    by (simp add: translator_init_def)
  ultimately show ?thesis by simp
qed

section \<open>Memory\<close>

text \<open>
  C22: A register stored to a stack slot and loaded back at the same width gets its low bytes back,
  and the provenance it had, so a spilled pointer is still one.
\<close>

theorem spill_reload:
  assumes "ri_tag (a_reg st ! dst i) = T_STACK" "ri_known (a_reg st ! dst i)"
    and "abs_ok st" "dst i < NUM_BPF_REGS" "src i < NUM_BPF_REGS" "d < NUM_BPF_REGS"
    and "stack_ok s"
    and "0 \<le> - (ri_off (a_reg st ! dst i) + off i)" "- (ri_off (a_reg st ! dst i) + off i) \<le> int BPF_STACK_SIZE"
    and j: "j = \<lparr>code = c, dst = d, src = dst i, off = off i, imm = 0\<rparr>" "size_bytes c = size_bytes (code i)"
  shows "\<exists>st1 s1 st2 s2.
      translate_store idx i st True s = Some (st1, s1) \<and> translate_ldx idx' j st1 s1 = Some (st2, s2)
      \<and> t_had_error s2 = t_had_error s
      \<and> rd (after s2 h) (H_REG d)
          = take_bit (width_bits (width_name (size_bytes c))) (rd (after s h) (H_REG (src i)))
      \<and> a_reg st2 ! d = a_reg st ! src i"
proof -
  let ?slot = "- (ri_off (a_reg st ! dst i) + off i)"
  obtain sh t where t: "stack_header ?slot s = (sh, t)" by fastforce
  have sh: "sh \<noteq> 0" "t_stack_hdr_of t ?slot = Some sh" "t_ops t = t_ops s" "t_had_error t = t_had_error s"
    using t assms(7-9) by (auto simp: stack_header_def stack_ok_def split: option.splits if_splits)
      (force simp: ran_def)+
  have again: "stack_header ?slot u = (sh, u)" if "t_stack_hdr_of u = t_stack_hdr_of t" for u
    using sh(2) that assms(8,9) by (simp add: stack_header_def)
  have len: "length (a_reg st) = 11" "length (a_slot st) = 513" using assms(3) by (simp_all add: abs_ok_def)
  have slot: "nat ?slot < 513" using assms(8,9) by simp
  have w: "width_bits w \<le> 64" for w by (cases w) simp_all
  show ?thesis
    using assms(1,2,4-6) len slot t sh again
    by (simp add: translate_store_def translate_ldx_def get_reg_def put_reg_def j set_slot_def set_reg_def Let_def w)
qed


theorem spill_reload_witness:
  "\<exists>st1 s1 st2 s2.
     translate_store 0 \<lparr>code = 0x7b, dst = 10, src = 1, off = - 8, imm = 0\<rparr> entry_state True
       (translator_init CTX_XDP_MD None) = Some (st1, s1)
     \<and> translate_ldx 1 \<lparr>code = 0x79, dst = 2, src = 10, off = - 8, imm = 0\<rparr> st1 s1 = Some (st2, s2)
     \<and> \<not> t_had_error s2 \<and> ri_tag (a_reg st2 ! 2) = T_CTX"
proof -
  let ?i = "\<lparr>code = 0x7b, dst = 10, src = 1, off = - 8, imm = 0\<rparr>"
  let ?j = "\<lparr>code = 0x79, dst = 2, src = dst ?i, off = off ?i, imm = 0\<rparr>"
  let ?s = "translator_init CTX_XDP_MD None"
  have r: "a_reg entry_state ! dst ?i = pointer T_STACK 0" "a_reg entry_state ! src ?i = pointer T_CTX 0"
    "abs_ok entry_state"
    by (simp_all add: entry_state_def set_reg_def abs_init_def abs_ok_def)
  obtain st1 s1 st2 s2 where "translate_store 0 ?i entry_state True ?s = Some (st1, s1)"
      "translate_ldx 1 ?j st1 s1 = Some (st2, s2)" "t_had_error s2 = t_had_error ?s" "a_reg st2 ! 2 = a_reg entry_state ! src ?i"
    using spill_reload [where st = entry_state and i = ?i and d = 2 and s = ?s and j = ?j and c = "0x79"
        and idx = 0 and idx' = 1 and h = Map.empty] r stack_ok_init [of CTX_XDP_MD None]
    by (auto simp: pointer_def size_bytes_def opcode_fields)
  then show ?thesis using r(2) by (simp add: pointer_def translator_init_def)
qed

text \<open>
  C28: A load through a context pointer at a known offset is reported exactly when it would leave the
  context, and a store likewise.
\<close>

theorem ctx_access_exact:
  assumes "abs_ok st" "dst i < NUM_BPF_REGS" "src i < NUM_BPF_REGS" "t_tmp_next s = 0"
    and "base = a_reg st ! (if is_load then src i else dst i)"
    and "ri_tag base = T_CTX" "ri_known base"
  shows "\<exists>st' s'. (if is_load then translate_ldx idx i st s else translate_store idx i st from_reg s) = Some (st', s')
     \<and> (t_had_error s' \<longleftrightarrow> t_had_error s
         \<or> \<not> (0 \<le> ri_off base + off i
              \<and> ri_off base + off i + size_bytes (code i) \<le> int (c_length (t_ctx s))))"
  using assms
  by (cases is_load)
    (auto simp: translate_ldx_def translate_store_def get_reg_def put_reg_def abs_ok_def region_of_def
      ctx_access_ok_def emit_address_def Let_def)

theorem ctx_access_exact_witness:
  "\<exists>st' s'. translate_ldx 0 \<lparr>code = 0x61, dst = 2, src = 1, off = 20, imm = 0\<rparr> entry_state
       (translator_init CTX_XDP_MD None) = Some (st', s') \<and> t_had_error s'"
proof -
  have r: "a_reg entry_state ! 1 = pointer T_CTX 0" "abs_ok entry_state"
    by (simp_all add: entry_state_def set_reg_def abs_init_def abs_ok_def)
  then show ?thesis
    using ctx_access_exact [of entry_state "\<lparr>code = 0x61, dst = 2, src = 1, off = 20, imm = 0\<rparr>"
        "translator_init CTX_XDP_MD None" "pointer T_CTX 0" True 0 True]
    by (auto simp: pointer_def translator_init_def CTX_XDP_MD_def size_bytes_def opcode_fields)
qed

text \<open>
  C29: No memory is named by a guess: a load or store through a value that is a plain number, a map
  object or the join of two different pointers is reported.
\<close>

theorem unknown_base_refused:
  assumes "ri_tag (a_reg st ! (if is_load then src i else dst i)) \<in> {T_SCALAR, T_MAP, T_UNKNOWN}"
    and "(if is_load then translate_ldx idx i st s else translate_store idx i st from_reg s) = Some (st', s')"
  shows "t_had_error s'"
proof -
  let ?b = "a_reg st ! (if is_load then src i else dst i)"
  let ?s = "snd (ctx_access_ok idx ?b (off i) (size_bytes (code i)) (if is_load then ''load'' else ''store'')
        (unsupported idx (RegionUnknown (if is_load then ''load'' else ''store'') (if is_load then src i else dst i)) s))"
  have e: "t_had_error ?s"
    using extends_error [OF extends_ctx_access_ok [OF extends_refl]] by fastforce
  have mono: "extends ?s s'"
    using assms
    by (cases is_load; cases from_reg)
      (auto simp: translate_ldx_def translate_store_def get_reg_def put_reg_def region_of_def Let_def split_beta
        split: if_splits bind_splits intro!: extends_intros)
  show ?thesis using extends_error [OF mono] e by blast
qed

theorem unknown_base_refused_witness:
  "\<exists>st' s'. translate_ldx 0 \<lparr>code = 0x61, dst = 2, src = 3, off = 0, imm = 0\<rparr> entry_state
       (translator_init CTX_XDP_MD None) = Some (st', s') \<and> t_had_error s'"
proof -
  let ?i = "\<lparr>code = 0x61, dst = 2, src = 3, off = 0, imm = 0\<rparr>" and ?s = "translator_init CTX_XDP_MD None"
  have r: "a_reg entry_state ! 3 = SCALAR" "length (a_reg entry_state) = 11"
    by (simp_all add: entry_state_def set_reg_def abs_init_def)
  then obtain st' s' where "translate_ldx 0 ?i entry_state ?s = Some (st', s')"
    by (auto simp: translate_ldx_def get_reg_def put_reg_def SCALAR_def Let_def split_beta)
  with unknown_base_refused [of entry_state True ?i 0 ?s True st' s'] r(1)
  show ?thesis by (simp add: SCALAR_def)
qed

end
