(* ===== verification/Shape_Laws.thy ===== *)
theory Shape_Laws
  imports Acceptance
begin

text \<open>
  The shape of what a translation emits: its blocks, its module identifiers, its jumps.
\<close>

section \<open>Leaders and block lookup\<close>

text \<open>
  C23: When the scan for blocks reports nothing, every jump that is not a no-op goes strictly forward
  and stays in the program, and both its target and the slot after it start a block.
\<close>

theorem jumps_forward:
  assumes "find_leaders insns s = ((bs, block_of), s')" "\<not> t_had_error s'" "imm64_pairs insns"
    and "j < length insns" "is_jmp (insns ! j)" "\<not> is_nop_jump (insns ! j)"
  shows "(j + 1 < length insns \<longrightarrow> j + 1 \<in> set bs)
     \<and> (i_op (insns ! j) \<notin> {BPF_EXIT, BPF_CALL} \<longrightarrow>
          (let t = int j + 1 + off (insns ! j)
           in int j < t \<and> t \<le> int (length insns) \<and> (t < int (length insns) \<longrightarrow> nat t \<in> set bs)))"
proof -
  obtain L where L: "leaders insns s = (L, s')" "set bs = {k. is_leader insns L k}"
    using find_leaders_facts [OF assms(1)] by blast
  from leaders_jump_ok [OF L(1) assms(2-6)] show ?thesis
    using assms(4) by (auto simp: jump_ok_def is_leader_def L(2) Let_def)
qed

theorem jumps_forward_witness:
  "1 \<in> set (fst (fst (find_leaders [\<lparr>code = 0x15, dst = 0, src = 0, off = 1, imm = 5\<rparr>,
      \<lparr>code = 0xb7, dst = 0, src = 0, off = 0, imm = 1\<rparr>, \<lparr>code = 0x95, dst = 0, src = 0, off = 0, imm = 0\<rparr>]
      (translator_init CTX_XDP_MD None))))"
proof -
  let ?p = "[\<lparr>code = 0x15, dst = 0, src = 0, off = 1, imm = 5\<rparr>,
      \<lparr>code = 0xb7, dst = 0, src = 0, off = 0, imm = 1\<rparr>, \<lparr>code = 0x95, dst = 0, src = 0, off = 0, imm = 0\<rparr>]"
  let ?f = "find_leaders ?p (translator_init CTX_XDP_MD None)"
  have "?f = ((fst (fst ?f), snd (fst ?f)), snd ?f)" by simp
  moreover have "\<not> t_had_error (snd ?f)" by code_simp
  moreover have "imm64_pairs ?p" by (rule accepted_pairs) code_simp
  ultimately show ?thesis
    using jumps_forward [of ?p _ "fst (fst ?f)" "snd (fst ?f)" "snd ?f" 0]
    by (simp add: insn_fields opcode_fields)
qed

lemma last_leader:
  assumes "P 0"
  shows "filter P [0..<Suc k] \<noteq> [] \<and> last (filter P [0..<Suc k]) \<le> k \<and> P (last (filter P [0..<Suc k]))
     \<and> (\<forall>q. last (filter P [0..<Suc k]) < q \<and> q \<le> k \<longrightarrow> \<not> P q)"
proof (induction k)
  case (Suc k)
  show ?case
  proof (cases "P (Suc k)")
    case True
    then have f: "filter P [0..<Suc (Suc k)] = filter P [0..<Suc k] @ [Suc k]" by simp
    show ?thesis unfolding f using True by (simp, metis not_less)
  next
    case False
    then have f: "filter P [0..<Suc (Suc k)] = filter P [0..<Suc k]" by simp
    show ?thesis unfolding f using Suc.IH False by (metis le_SucI le_SucE)
  qed
qed (auto simp: assms)

text \<open>
  C33: \<open>block_of\<close> finds the block a slot belongs to: the last block start at or before it.
\<close>

theorem block_of_correct:
  assumes "find_leaders insns s = ((bs, block_of), s')" and "k < length insns"
  shows "block_of ! k < length bs \<and> bs ! (block_of ! k) \<le> k
     \<and> (\<forall>q \<in> set bs. \<not> (bs ! (block_of ! k) < q \<and> q \<le> k))"
proof -
  obtain L where L: "leaders insns s = (L, s')" "set bs = {k. is_leader insns L k}"
    using find_leaders_facts [OF assms(1)] by blast
  let ?P = "\<lambda>j. L ! j"
  have bs: "bs = filter ?P [0..<length insns]"
    and bo: "block_of ! k = length (filter ?P [0..<Suc k]) - 1"
    using assms L(1) by (auto simp: find_leaders_def Let_def simp del: upt_Suc)
  have "insns \<noteq> []" using assms(2) by auto
  then have "?P 0" using leaders_zero [OF L(1)] by (simp add: is_leader_def)
  from last_leader [of ?P, OF this] obtain m where m: "filter ?P [0..<Suc k] \<noteq> []"
      "m = last (filter ?P [0..<Suc k])" "m \<le> k" "\<forall>q. m < q \<and> q \<le> k \<longrightarrow> \<not> ?P q" by blast
  have "[0..<length insns] = [0..<Suc k] @ [Suc k..<length insns]"
    using assms(2) by (metis Suc_leI le0 le_add_diff_inverse upt_add_eq_append)
  then have split: "bs = filter ?P [0..<Suc k] @ filter ?P [Suc k..<length insns]"
    by (simp only: bs filter_append)
  have lt: "block_of ! k < length (filter ?P [0..<Suc k])" using m(1) by (simp only: bo) simp
  then have "bs ! (block_of ! k) = m"
    unfolding split nth_append bo m(2) last_conv_nth [OF m(1)] using lt bo by (simp del: upt_Suc)
  moreover have "block_of ! k < length bs" using lt by (simp only: split length_append)
  ultimately show ?thesis using m(3,4) by (auto simp: bs)
qed

theorem block_of_correct_witness:
  "fst (find_leaders [\<lparr>code = 0x15, dst = 0, src = 0, off = 1, imm = 5\<rparr>,
      \<lparr>code = 0xb7, dst = 0, src = 0, off = 0, imm = 1\<rparr>, \<lparr>code = 0x95, dst = 0, src = 0, off = 0, imm = 0\<rparr>]
      (translator_init CTX_XDP_MD None)) = ([0, 1, 2], [0, 1, 2])
   \<and> [0, 1, 2] ! ([0, 1, 2] ! 1) \<le> (1 :: nat)"
proof -
  let ?p = "[\<lparr>code = 0x15, dst = 0, src = 0, off = 1, imm = 5\<rparr>,
      \<lparr>code = 0xb7, dst = 0, src = 0, off = 0, imm = 1\<rparr>, \<lparr>code = 0x95, dst = 0, src = 0, off = 0, imm = 0\<rparr>]"
  let ?f = "find_leaders ?p (translator_init CTX_XDP_MD None)"
  have "fst ?f = ([0, 1, 2], [0, 1, 2])" by code_simp
  moreover from this have "?f = (([0, 1, 2], [0, 1, 2]), snd ?f)" by (metis prod.collapse)
  ultimately show ?thesis using block_of_correct [of ?p _ "[0, 1, 2]" "[0, 1, 2]" "snd ?f" 1] by simp
qed

section \<open>The shape of what is emitted\<close>

text \<open>
  The shape of a block's rules: guarded by the block's own program counters, and writing no header
  below the register file except, last, the program counter, and no register at another width than 64.
\<close>

fun block_rule :: "nat \<Rightarrow> ir_rule \<Rightarrow> bool" where
  "block_rule start (SeqCtr es ops) \<longleftrightarrow>
     es \<noteq> [] \<and> hd es \<in> {pc_entry (BLOCK_PC start), pc_entry (DECIDE_PC start)}
     \<and> ops \<noteq> [] \<and> (\<exists>pc. last ops = set_pc_op pc H_PC) \<and> safe_ops (butlast ops)"

definition block_shape :: "nat \<Rightarrow> ir_module \<Rightarrow> bool" where
  "block_shape start m \<longleftrightarrow>
     module_rules m \<noteq> [] \<and> last (module_rules m) = default_rule
     \<and> list_all (block_rule start) (butlast (module_rules m))"

lemma safe_ops_iff: "safe_ops ops \<longleftrightarrow> (\<forall>op \<in> set ops. safe_op op)"
  by (simp add: safe_ops_def list_all_iff)

lemma push_block_shape:
  assumes "safe_ops (t_ops s)" "\<forall>a. arms = Some a \<longrightarrow> safe_arms a"
  shows "\<exists>ms. t_modules (push_block start cond arms fp tp np s) = t_modules s @ ms
     \<and> list_all (block_shape start) ms"
  using assms
  by (auto simp: push_block_def Let_def push_transformer_def block_shape_def rule_def op_raw_def
      safe_arms_def list_all_iff butlast_append split: option.splits prod.splits)

lemma safe_translate_term:
  assumes "translate_term idx ht trm st s = Some (cond, Some arms, st', s')"
  shows "safe_arms arms"
  using assms safe_emit_map_lookup safe_emit_map_update
  by (auto simp: translate_term_def translate_call_def Let_def split_beta split: if_splits)

text \<open>The ids of the modules pushed so far are consecutive.\<close>

definition module_id :: "ir_module \<Rightarrow> nat" where
  "module_id m = (case m of TransformerModule k rules \<Rightarrow> k)"

definition ids_ok :: "tstate \<Rightarrow> bool" where
  "ids_ok s \<longleftrightarrow> MOD_FIRST_XFRM \<le> t_next_mod s
     \<and> map module_id (t_modules s) = [MOD_FIRST_XFRM..<t_next_mod s]"

lemma push_module_ids: "ids_ok s \<Longrightarrow> ids_ok (push_module rules s)"
  by (simp add: ids_ok_def module_id_def)

lemma ids_ok_emit [simp]: "ids_ok (emit f s) = ids_ok s"
  by (simp add: ids_ok_def)

lemma push_block_ids: "ids_ok s \<Longrightarrow> ids_ok (push_block start cond arms fp tp np s)"
  by (simp add: push_block_def Let_def push_transformer_def push_module_ids split: option.split prod.split)

lemma push_block_stack [simp]: "stack_ok (push_block start cond arms fp tp np s) = stack_ok s"
  by (rule stack_ok_cong)
    (simp_all add: push_block_def Let_def push_transformer_def push_module_def split: option.split prod.split)

lemma translate_block_shape:
  assumes "translate_block insns bs block_of b block_in s = Some (block_in', s')" "stack_ok s"
  shows "stack_ok s' \<and> (ids_ok s \<longrightarrow> ids_ok s')
     \<and> (\<exists>ms. t_modules s' = t_modules s @ ms \<and> list_all (block_shape (bs ! b)) ms)"
proof -
  obtain be ht st0 st1 s1 idx trm cond arms st2 s2 fp tp np where
    body: "translate_body insns (bs ! b) be st0 (s\<lparr>t_ops := []\<rparr>) = Some (st1, s1)"
    and tt: "translate_term idx ht trm st1 s1 = Some (cond, arms, st2, s2)"
    and s': "s' = push_block (bs ! b) cond arms fp tp np s2"
    by (rule translate_block_cases [OF assms(1)]) (erule that, assumption+)
  have ext: "extends (s\<lparr>t_ops := []\<rparr>) s2"
    using extends_trans [OF extends_translate_body [OF body] extends_translate_term [OF tt]] .
  have "stack_ok (s\<lparr>t_ops := []\<rparr>)" using assms(2) by (simp add: stack_ok_def)
  with ext have s2: "stack_ok s2" "safe_ops (t_ops s2)" "t_modules s2 = t_modules s" "t_next_mod s2 = t_next_mod s"
    by (auto simp: extends_def)
  have arms: "\<forall>a. arms = Some a \<longrightarrow> safe_arms a" using safe_translate_term tt by blast
  have "ids_ok s \<longrightarrow> ids_ok s2" using s2 by (simp add: ids_ok_def)
  then show ?thesis
    using push_block_shape [OF s2(2) arms] push_block_ids s2 unfolding s' by simp
qed

lemma translate_blocks_shape:
  "translate_blocks insns bs block_of xs block_in s = Some s' \<Longrightarrow> stack_ok s \<Longrightarrow> ids_ok s \<Longrightarrow>
     stack_ok s' \<and> ids_ok s'
     \<and> (\<exists>ms. t_modules s' = t_modules s @ ms \<and> (\<forall>m \<in> set ms. \<exists>b \<in> set xs. block_shape (bs ! b) m))"
proof (induction xs arbitrary: block_in s)
  case (Cons b xs)
  then obtain bi s1 where blk: "translate_block insns bs block_of b block_in s = Some (bi, s1)"
      and rest: "translate_blocks insns bs block_of xs bi s1 = Some s'"
    by (auto split: option.splits)
  from translate_block_shape [OF blk Cons.prems(2)] Cons.prems(3)
  obtain ms1 where 1: "stack_ok s1" "ids_ok s1" "t_modules s1 = t_modules s @ ms1" "list_all (block_shape (bs ! b)) ms1"
    by blast
  from Cons.IH [OF rest 1(1,2)] obtain ms2 where "stack_ok s'" "ids_ok s'" "t_modules s' = t_modules s1 @ ms2"
      "\<forall>m \<in> set ms2. \<exists>b \<in> set xs. block_shape (bs ! b) m" by blast
  with 1 show ?case by (auto simp: list_all_iff intro!: exI [of _ "ms1 @ ms2"])
qed (auto intro!: exI [of _ "[]"])

text \<open>The preamble and the blocks together.\<close>

lemma translate_program_shape:
  assumes "translate_program insns s = Some s'"
    and "t_modules s = []" "t_next_mod s = MOD_FIRST_XFRM"
    and "t_stack_hdr_of s = Map.empty" "t_next_stack_hdr s = H_STACK_BASE"
  shows "stack_ok s' \<and> ids_ok s'
     \<and> (\<exists>ops ms. t_modules s' = TransformerModule MOD_FIRST_XFRM [SeqCtr [] ops] # ms
           \<and> (\<forall>m \<in> set ms. \<exists>start < length insns. block_shape start m))"
proof -
  have init: "stack_ok s" using assms(4,5) by (simp add: stack_ok_def)
  obtain bs block_of s1 where fl: "find_leaders insns s = ((bs, block_of), s1)" by (metis prod.collapse)
  obtain L where L: "leaders insns s = (L, s1)" "set bs = {k. is_leader insns L k}"
    using find_leaders_facts [OF fl] by blast
  let ?p = "translate_preamble (scan_used_regs insns s1)"
  let ?t = "seed_regs [0..<NUM_BPF_REGS] ((scan_used_regs insns s1)\<lparr>t_ops := []\<rparr>)"
  have ex: "extends s s1" using leaders_frame(1) [OF L(1)] .
  have seed: "t_next_mod (seed_regs rs u) = t_next_mod u" "stack_ok (seed_regs rs u) = stack_ok u" for rs u
    by (induction rs arbitrary: u) (simp_all add: seed_regs_def)
  have "stack_ok s1" using extends_stack_ok [OF ex init] .
  then have t3: "stack_ok ?t" unfolding seed by (simp add: scan_used_regs_def stack_ok_def)
  have t: "t_next_mod ?t = MOD_FIRST_XFRM" "t_modules ?t = []"
    using ex assms(2,3) by (simp_all add: seed extends_def scan_used_regs_def)
  have p: "?p = push_module [SeqCtr [] (t_ops ?t @ [set_pc_op (BLOCK_PC 0) H_PC])]
      (emit (op_raw (set_pc_op (BLOCK_PC 0) H_PC)) ?t)"
    by (simp add: translate_preamble_def seed_regs_def Let_def rule_def op_raw_def)
  have pm: "t_modules ?p = [TransformerModule MOD_FIRST_XFRM [SeqCtr [] (t_ops ?t @ [set_pc_op (BLOCK_PC 0) H_PC])]]"
    using t(1,2) by (simp add: p)
  have ids: "ids_ok ?p" unfolding p by (rule push_module_ids) (use t in \<open>simp add: ids_ok_def\<close>)
  have stk: "stack_ok ?p" using t3 by (simp add: p push_module_def stack_ok_def emit_def)
  obtain bi where run: "translate_blocks insns bs block_of [0..<length bs] bi ?p = Some s'"
    using assms(1) fl by (auto simp: translate_program_def Let_def cong: if_cong)
  from translate_blocks_shape [OF run stk ids] obtain ms where
    s': "stack_ok s'" "ids_ok s'" "t_modules s' = t_modules ?p @ ms"
      "\<forall>m \<in> set ms. \<exists>b \<in> set [0..<length bs]. block_shape (bs ! b) m" by blast
  have "bs ! b < length insns" if "b < length bs" for b
    using nth_mem [OF that] L(2) by (auto simp: is_leader_def)
  with s'(4) have "\<forall>m \<in> set ms. \<exists>start < length insns. block_shape start m" by (metis atLeastLessThan_iff set_upt)
  with s'(3) pm have "\<exists>ops ms. t_modules s' = TransformerModule MOD_FIRST_XFRM [SeqCtr [] ops] # ms
           \<and> (\<forall>m \<in> set ms. \<exists>start < length insns. block_shape start m)"
    by auto
  with s'(1,2) show ?thesis by blast
qed

text \<open>
  C9: What is emitted is a linear chain with consecutive module ids from \<open>MOD_FIRST_XFRM\<close>: one
  unconditional preamble, then transformers whose every rule is guarded by a program counter of one
  block, ends by setting the program counter, and before that writes only registers, and those with
  values of 64 bits, scratch and stack-slot headers; each ends in the default rule.  Distinct stack slots have distinct headers.
\<close>

theorem program_shape:
  assumes "translate_program insns s = Some s'"
    and "t_modules s = []" "t_next_mod s = MOD_FIRST_XFRM"
    and "t_stack_hdr_of s = Map.empty" "t_next_stack_hdr s = H_STACK_BASE"
  shows "map module_id (t_modules s') = [MOD_FIRST_XFRM..<t_next_mod s']
     \<and> (\<exists>ops ms. t_modules s' = TransformerModule MOD_FIRST_XFRM [SeqCtr [] ops] # ms
           \<and> (\<forall>m \<in> set ms. \<exists>start < length insns. block_shape start m))
     \<and> inj_on (t_stack_hdr_of s') (dom (t_stack_hdr_of s'))
     \<and> (\<forall>h \<in> ran (t_stack_hdr_of s'). H_STACK_BASE \<le> h)"
  using translate_program_shape [OF assms] by (auto simp: ids_ok_def stack_ok_def)

theorem program_shape_witness:
  "\<exists>s'. translate_program [\<lparr>code = 0x95, dst = 0, src = 0, off = 0, imm = 0\<rparr>] (translator_init CTX_XDP_MD None) = Some s'
     \<and> map module_id (t_modules s') = [MOD_FIRST_XFRM..<t_next_mod s']"
proof -
  let ?p = "[\<lparr>code = 0x95, dst = 0, src = 0, off = 0, imm = 0\<rparr>]"
  have s: "\<not> t_had_error (translator_init CTX_XDP_MD None)"
      "t_insn_map_idx (translator_init CTX_XDP_MD None) = Map.empty"
    by (simp_all add: translator_init_def)
  have "accepted ?p" by code_simp
  from translate_program_accepted [OF this s] obtain s' where
    "translate_program ?p (translator_init CTX_XDP_MD None) = Some s'" by blast
  with program_shape [OF this] show ?thesis by (auto simp: translator_init_def)
qed

end
