(* ===== verification/Provenance_Laws.thy ===== *)
theory Provenance_Laws
  imports Acceptance
begin

text \<open>
  Laws of the abstract values and states, and the round trip of the byte decoder.
\<close>

section \<open>Provenance\<close>

text \<open>
  C34: The join of two abstract values is commutative and associative, and joining again what has
  been joined changes nothing.
\<close>

theorem join_laws:
  "join_reg a b = join_reg b a \<and> join_reg (join_reg a b) c = join_reg a (join_reg b c)
   \<and> join_reg a (join_reg a b) = join_reg a b \<and> join_reg (join_reg a b) (join_reg a b) = join_reg a b"
  using prov.join_commute prov.join_assoc prov.join_absorb prov.join_idem prov.norm_join by metis

text \<open>
  C24: The state a block is entered with describes whatever any one of its predecessors leaves: what
  is claimed of a register or a stack slot after the join holds of the values each of them brings.
\<close>

theorem join_from_sound:
  assumes "abs_ok s" "abs_ok p" "a_live p"
    and "field = a_reg \<or> field = a_slot" "n < length (field p)"
    and "a_live s \<and> describes (field s ! n) v \<or> describes (field p ! n) v"
  shows "describes (field (join_from s p) ! n) v \<and> abs_ok (join_from s p) \<and> a_live (join_from s p)"
proof -
  have "describes (field (join_from s p) ! n) v"
    using assms by (cases "a_live s") (auto simp: join_from_def abs_ok_def intro: describes_join describes_join')
  moreover have "a_live (join_from s p)" using assms(3) by (simp add: join_from_def)
  ultimately show ?thesis using join_from_ok [OF assms(1,2)] by simp
qed

theorem join_from_sound_witness:
  "describes (a_reg (join_from entry_state (entry_state\<lparr>a_reg := replicate 11 SCALAR\<rparr>)) ! 1)
     \<lparr>pv_tag = T_CTX, pv_mapidx = -1, pv_off = 0, pv_val = 0\<rparr>"
proof -
  let ?v = "\<lparr>pv_tag = T_CTX, pv_mapidx = -1, pv_off = 0, pv_val = 0\<rparr>"
  have "abs_ok entry_state" "abs_ok (entry_state\<lparr>a_reg := replicate 11 SCALAR\<rparr>)" "a_live entry_state"
      "describes (a_reg entry_state ! 1) ?v"
    by (simp_all add: entry_state_def set_reg_def abs_init_def abs_ok_def describes_def pointer_def)
  with join_from_sound [of entry_state "entry_state\<lparr>a_reg := replicate 11 SCALAR\<rparr>" a_reg 1 ?v]
  show ?thesis by simp
qed

text \<open>
  C35: The order in which a block's predecessors are joined in does not matter.
\<close>

theorem join_from_order:
  assumes "abs_ok s" "abs_ok a" "abs_ok b"
  shows "join_from (join_from s a) b = join_from (join_from s b) a"
proof -
  have swap: "map2 join_reg (map2 join_reg xs ys) zs = map2 join_reg (map2 join_reg xs zs) ys"
      "map2 join_reg ys zs = map2 join_reg zs ys"
    if "length xs = n" "length ys = n" "length zs = n" for xs ys zs n
    using that by (auto intro!: nth_equalityI simp: prov.join_assoc prov.join_commute prov.join_left_commute)
  show ?thesis
    using assms unfolding join_from_def abs_ok_def
    by (cases "a_live s"; cases "a_live a"; cases "a_live b")
      (auto intro!: abs_state.equality swap)
qed

theorem join_from_order_witness:
  "join_from (join_from abs_init entry_state) (entry_state\<lparr>a_reg := replicate 11 SCALAR\<rparr>)
   = join_from (join_from abs_init (entry_state\<lparr>a_reg := replicate 11 SCALAR\<rparr>)) entry_state"
proof -
  have "abs_ok entry_state" "abs_ok (entry_state\<lparr>a_reg := replicate 11 SCALAR\<rparr>)"
    by (simp_all add: entry_state_def set_reg_def abs_init_def abs_ok_def)
  then show ?thesis using join_from_order [OF abs_init_ok] by blast
qed

section \<open>Known constants\<close>

text \<open>
  Adding an immediate at 64 bits to a register the translator takes for a plain number changes the
  header and leaves the abstract value as it was, with the constant it may hold.
\<close>

lemma add_immediate_keeps_const:
  assumes "i_op i = BPF_ADD" "is_imm i" "dst i < 11" "src i < 11" "ri_tag (a_reg a ! dst i) = T_SCALAR"
  shows "fst (translate_alu idx i True a s) = a"
    and "rd (after (snd (translate_alu idx i True a s)) h) (H_REG (dst i))
       = take_bit 64 (rd (after s h) (H_REG (dst i)) + imm i)"
  using assms by (simp_all add: translate_alu_def alu_abstract_def alu_emit_def ALU_BINOP_def Let_def take_bit_add)

section \<open>Encoding\<close>

text \<open>
  C32: Decoding the bytes of an encoded program gives back its instructions, with the offset and the
  immediate sign-extended.
\<close>

theorem decode_program:
  assumes "assembled insns chunks"
  shows "decode (concat chunks) = Some insns \<and> length (concat chunks) = INSN_SIZE * length insns"
  using decode_assembled [OF assms] length_assembled [OF assms] by simp

theorem decode_program_witness:
  "decode [0xb7, 0x04, 0, 0, 0xff, 0xff, 0xff, 0xff] = Some [\<lparr>code = 0xb7, dst = 4, src = 0, off = 0, imm = - 1\<rparr>]"
proof -
  let ?i = "\<lparr>code = 0xb7, dst = 4, src = 0, off = 0, imm = - 1\<rparr>"
  have "mk_insn (code ?i) (dst ?i) (src ?i) (off ?i) (imm ?i) = Some [0xb7, 0x04, 0, 0, 0xff, 0xff, 0xff, 0xff]"
    by code_simp
  then show ?thesis
    using decode_program [of "[?i]" "[[0xb7, 0x04, 0, 0, 0xff, 0xff, 0xff, 0xff]]"] by (simp add: assembled_def)
qed

end
