(* ===== verification/Table_Laws.thy ===== *)
theory Table_Laws
  imports Acceptance
begin

text \<open>
  The layout of map regions and the translator's tables of maps and scratch headers.
\<close>

section \<open>Map regions\<close>

text \<open>
  C36: In the region of a tagged map the presence bytes, the tags, the values and the capacity byte do
  not overlap, and all of them lie inside the declared length.
\<close>

theorem map_parts_disjoint:
  assumes "m_tagged mi" "part_ok mi p" "part_ok mi q"
  shows "snd (part_cells mi p) \<le> m_length mi
     \<and> (p \<noteq> q \<longrightarrow> snd (part_cells mi p) \<le> fst (part_cells mi q) \<or> snd (part_cells mi q) \<le> fst (part_cells mi p))"
proof -
  let ?n = "m_nslots mi" and ?k = "m_key_size mi" and ?v = "m_value_size mi"
  have ends: "i * ?k + ?k \<le> ?n * ?k" "i * ?v + ?v \<le> ?n * ?v" if "i < ?n" for i
    using that by (simp_all add: slot_interval_end)
  have steps: "i * ?k + ?k \<le> j * ?k \<or> j * ?k + ?k \<le> i * ?k" "i * ?v + ?v \<le> j * ?v \<or> j * ?v + ?v \<le> i * ?v"
    if "i \<noteq> j" for i j
    using that slot_interval_le [of i j] slot_interval_le [of j i] by (cases "i < j"; simp)+
  have bound: "snd (part_cells mi r) \<le> m_length mi" if "part_ok mi r" for r
    using assms(1) that by (cases r) (auto simp: layout_defs dest: ends)
  have "snd (part_cells mi p) \<le> fst (part_cells mi q) \<or> snd (part_cells mi q) \<le> fst (part_cells mi p)" if "p \<noteq> q"
    using assms that by (cases p; cases q) (auto simp: layout_defs dest: ends steps)
  with bound assms(2) show ?thesis by blast
qed

definition sample_map :: map_info where
  "sample_map = \<lparr>m_name = ''m'', m_type = 1, m_key_size = 4, m_value_size = 8, m_max_entries = 100, m_slots_budget = 4\<rparr>"

theorem map_parts_disjoint_witness:
  "part_cells sample_map (Tag 1) = (8, 12) \<and> snd (part_cells sample_map (Tag 1)) \<le> m_length sample_map"
  using map_parts_disjoint [of sample_map "Tag 1" "Value 0"]
  by (simp add: sample_map_def layout_defs m_tagged_def m_family_def m_nslots_def ARRAY_TYPES_def HASH_TYPES_def)

text \<open>
  C37: The address an array access computes for an index the model represents is past the presence
  bytes, and the whole value lies inside the region.
\<close>

theorem array_value_in_region:
  assumes "0 \<le> key" "key < int (m_nslots mi)"
  shows "int (m_nslots mi) \<le> key * int (m_value_size mi) + int (m_value_base mi)
     \<and> key * int (m_value_size mi) + int (m_value_base mi) + int (m_value_size mi) \<le> int (m_length mi)"
proof -
  have "nat key * m_value_size mi + m_value_size mi \<le> m_nslots mi * m_value_size mi"
    using assms by (intro slot_interval_end) simp
  then have "int (nat key * m_value_size mi + m_value_size mi) \<le> int (m_nslots mi * m_value_size mi)"
    by (rule of_nat_mono)
  then show ?thesis using assms(1) by (simp add: layout_defs)
qed

theorem array_value_in_region_witness:
  "int (m_nslots (sample_map\<lparr>m_type := 2\<rparr>)) \<le> 3 * 8 + int (m_value_base (sample_map\<lparr>m_type := 2\<rparr>))"
  using array_value_in_region [of 3 "sample_map\<lparr>m_type := 2\<rparr>"]
  by (simp add: sample_map_def m_is_array_def m_family_def m_nslots_def ARRAY_TYPES_def)

section \<open>The translator's tables\<close>

text \<open>
  C39: A scratch header is one of the pool, apart from registers and stack slots, and handing out more
  than the pool holds is reported; otherwise consecutive requests get different headers.
\<close>

theorem scratch_pool:
  assumes "fresh_tmp idx s = (t, s')" "fresh_tmp idx' s' = (t', s'')"
  shows "30 \<le> t \<and> t < 30 + NUM_TMPS \<and> t < H_STACK_BASE
     \<and> (t_had_error s' \<longleftrightarrow> t_had_error s \<or> NUM_TMPS \<le> t_tmp_next s)
     \<and> (\<not> t_had_error s'' \<longrightarrow> t \<noteq> t')"
proof -
  have step: "t = 30 + (if NUM_TMPS \<le> t_tmp_next s then 0 else t_tmp_next s)
      \<and> t_tmp_next s' = t - 29 \<and> (t_had_error s' \<longleftrightarrow> t_had_error s \<or> NUM_TMPS \<le> t_tmp_next s)"
    if "fresh_tmp idx s = (t, s')" for idx s t s'
    using that unfolding fresh_tmp_def Let_def by (cases "NUM_TMPS \<le> t_tmp_next s") auto
  show ?thesis using step [OF assms(1)] step [OF assms(2)] by (auto split: if_splits)
qed

theorem scratch_pool_witness:
  "30 \<le> fst (fresh_tmp 0 (translator_init CTX_XDP_MD None))"
proof -
  obtain t s' where 1: "fresh_tmp 0 (translator_init CTX_XDP_MD None) = (t, s')" by fastforce
  obtain t' s'' where 2: "fresh_tmp 0 s' = (t', s'')" by fastforce
  from scratch_pool [OF 1 2] 1 show ?thesis by simp
qed

text \<open>The declared maps have distinct names and are at most \<open>MAX_MAPS\<close>.\<close>

definition maps_ok :: "tstate \<Rightarrow> bool" where
  "maps_ok s \<longleftrightarrow> distinct (map m_name (t_maps s)) \<and> length (t_maps s) \<le> MAX_MAPS"

lemma find_map_Some:
  assumes "find_map n s = Some i"
  shows "i < length (t_maps s) \<and> m_name (t_maps s ! i) = n"
proof -
  let ?f = "filter (\<lambda>i. m_name (t_maps s ! i) = n) [0..<length (t_maps s)]"
  obtain xs where "?f = i # xs" using assms by (cases ?f) (simp_all add: find_map_def)
  then have "i \<in> set ?f" by (simp only: list.set_intros)
  then show ?thesis by simp
qed

lemma find_map_None: "find_map n s = None \<longleftrightarrow> n \<notin> m_name ` set (t_maps s)"
proof -
  have "find_map n s = None \<longleftrightarrow> filter (\<lambda>i. m_name (t_maps s ! i) = n) [0..<length (t_maps s)] = []"
    by (simp add: find_map_def split: list.split)
  moreover have "n \<in> m_name ` set (t_maps s) \<longleftrightarrow> (\<exists>i < length (t_maps s). m_name (t_maps s ! i) = n)"
    by (auto simp: in_set_conv_nth image_iff Bex_def)
  ultimately show ?thesis by (simp add: filter_empty_conv Ball_def)
qed

text \<open>
  C38: Declaring a map keeps the table's names distinct and its size bounded, moves no map already
  declared, and leaves the map findable under its name, or reports that the table is full.
\<close>

theorem add_map_correct:
  assumes "maps_ok s"
  shows "maps_ok (add_map name ty ks vs me s)
     \<and> (\<exists>more. t_maps (add_map name ty ks vs me s) = t_maps s @ more)
     \<and> (\<not> t_had_error (add_map name ty ks vs me s) \<longrightarrow>
          (\<exists>i. find_map name (add_map name ty ks vs me s) = Some i
             \<and> i < length (t_maps (add_map name ty ks vs me s))
             \<and> m_name (t_maps (add_map name ty ks vs me s) ! i) = name))"
proof (cases "find_map name s = None \<and> length (t_maps s) < MAX_MAPS")
  case True
  let ?s = "add_map name ty ks vs me s"
  have "\<exists>mi. t_maps ?s = t_maps s @ [mi] \<and> m_name mi = name"
    using True by (auto simp: add_map_def)
  then obtain mi where mi: "t_maps ?s = t_maps s @ [mi]" "m_name mi = name" by blast
  have "find_map name ?s \<noteq> None" using mi by (simp add: find_map_None)
  then obtain i where "find_map name ?s = Some i" by blast
  with find_map_Some [OF this] show ?thesis
    using True assms mi by (auto simp: maps_ok_def find_map_None)
next
  case False
  then have "t_maps (add_map name ty ks vs me s) = t_maps s"
    and "find_map name s = None \<Longrightarrow> t_had_error (add_map name ty ks vs me s)"
    by (auto simp: add_map_def)
  moreover have "find_map name s = Some i \<Longrightarrow> add_map name ty ks vs me s = s" for i
    by (simp add: add_map_def)
  ultimately show ?thesis using assms find_map_Some [of name s] by (cases "find_map name s") (auto simp: maps_ok_def)
qed

theorem add_map_correct_witness:
  "find_map ''m'' (add_map ''m'' 1 4 8 100 (translator_init CTX_XDP_MD None)) = Some 0"
proof -
  have "maps_ok (translator_init CTX_XDP_MD None)" by (simp add: maps_ok_def translator_init_def)
  from add_map_correct [OF this, of "''m''" 1 4 8 100] show ?thesis
    by (auto simp: add_map_def translator_init_def find_map_def split: if_splits)
qed

end
