(* ===== verification/Region_Machine.thy ===== *)
theory Region_Machine
  imports Program Frame
begin

text \<open>
  The memory regions.  Loads and stores are executed by the Caracara evaluator, which is not in the
  repository; what the translator relies on is in \<open>README.md\<close>: "a region is an array of u8 cells
  and a width-w access covers w consecutive cells little-endian", the offset is a runtime operand,
  and "a store takes its value from a header of the store's own width".  The locale
  \<open>region_machine\<close> states that of a parameter \<open>step\<close>, for accesses inside a region's declared
  length, together with the first-match laws for the transformers.

  A value of the IR carries its width.  The laws for an op or a comparison speak only of operands that
  carry the width it names.  Of the other case the \<open>README\<close> says two things, and the locale no more: a
  cast of a header stored at another width yields \<open>ErrorVal\<close> ("a u32 spill read back as a u64 is
  \<open>ErrorVal\<close>"; \<open>translate.py\<close>: "the cast both zero-extends and checks that width"), and a comparison with
  \<open>ErrorVal\<close> is false in both directions.  The type of a header that holds \<open>ErrorVal\<close> is \<open>None\<close>.
\<close>

section \<open>Little-endian cells\<close>

definition width_bytes :: "width \<Rightarrow> nat" where
  "width_bytes w = width_bits w div 8"

text \<open>The \<open>n\<close> cells from \<open>ofs\<close> on as one number, least significant first.\<close>

fun le_read :: "(nat \<Rightarrow> int) \<Rightarrow> nat \<Rightarrow> nat \<Rightarrow> int" where
  "le_read c ofs 0 = 0"
| "le_read c ofs (Suc n) = c ofs + 256 * le_read c (Suc ofs) n"

definition le_write :: "(nat \<Rightarrow> int) \<Rightarrow> nat \<Rightarrow> nat \<Rightarrow> int \<Rightarrow> nat \<Rightarrow> int" where
  "le_write c ofs n v x = (if ofs \<le> x \<and> x < ofs + n then v div 256 ^ (x - ofs) mod 256 else c x)"

text \<open>The width each header carries.\<close>

type_synonym htypes = "nat \<Rightarrow> width option"

fun has_width :: "htypes \<Rightarrow> operand \<Rightarrow> width \<Rightarrow> bool" where
  "has_width T (OpConst v) w = True"
| "has_width T (OpHeader k) w = (T k = Some w)"

text \<open>An entry compares two values of one width; an entry on \<open>ErrorVal\<close>.\<close>

fun entry_typed :: "htypes \<Rightarrow> match_entry \<Rightarrow> bool" where
  "entry_typed T (Entry k c (MatchConst v w)) = (T k = Some w)"
| "entry_typed T (Entry k c (MatchHeader k')) = (T k \<noteq> None \<and> T k' = T k)"

fun entry_error :: "htypes \<Rightarrow> match_entry \<Rightarrow> bool" where
  "entry_error T (Entry k c (MatchConst v w)) = (T k = None)"
| "entry_error T (Entry k c (MatchHeader k')) = (T k = None \<or> T k' = None)"

lemma has_width_simps [simp]: "has_width T (konst v) w" "has_width T (hdr k) w = (T k = Some w)"
  by (simp_all add: konst_def hdr_def)

lemma entry_typed_no_error: "entry_typed T e \<Longrightarrow> \<not> entry_error T e"
  by (cases "(T, e)" rule: entry_typed.cases) auto

lemma width_bytes_simps [simp]:
  "width_bytes W8 = 1" "width_bytes W16 = 2" "width_bytes W32 = 4" "width_bytes W64 = 8"
  by (simp_all add: width_bytes_def)

lemma le_read_bounds:
  assumes "\<And>x. 0 \<le> c x \<and> c x < (256::int)"
  shows "0 \<le> le_read c ofs n \<and> le_read c ofs n < 256 ^ n"
proof (induction n arbitrary: ofs)
  case (Suc n)
  have "le_read c (Suc ofs) n \<le> 256 ^ n - 1" using Suc.IH [of "Suc ofs"] by simp
  then have "256 * le_read c (Suc ofs) n \<le> 256 * (256 ^ n - 1)" by (rule mult_left_mono) simp
  then have "c ofs + 256 * le_read c (Suc ofs) n \<le> 255 + 256 * (256 ^ n - 1)"
    using assms [of ofs] by linarith
  then show ?case using assms [of ofs] Suc.IH [of "Suc ofs"] by simp
qed simp

lemma le_read_cong: "(\<And>x. ofs \<le> x \<Longrightarrow> x < ofs + n \<Longrightarrow> c x = d x) \<Longrightarrow> le_read c ofs n = le_read d ofs n"
proof (induction n arbitrary: ofs)
  case (Suc n)
  then have "le_read c (Suc ofs) n = le_read d (Suc ofs) n" by auto
  with Suc.prems [of ofs] show ?case by simp
qed simp

lemma le_read_write_other:
  "a + k \<le> b \<or> b + n \<le> a \<Longrightarrow> le_read (le_write c b n v) a k = le_read c a k"
  by (rule le_read_cong) (auto simp: le_write_def)

lemma le_read_digits:
  "0 \<le> v \<Longrightarrow> v < 256 ^ n \<Longrightarrow> (\<And>i. i < n \<Longrightarrow> c (ofs + i) = v div 256 ^ i mod 256) \<Longrightarrow> le_read c ofs n = v"
proof (induction n arbitrary: ofs v)
  case (Suc n)
  have "le_read c (Suc ofs) n = v div 256"
  proof (rule Suc.IH)
    show "0 \<le> v div 256" "v div 256 < 256 ^ n"
      using Suc.prems(1,2) by (simp_all add: pos_imp_zdiv_nonneg_iff int_div_less mult.commute)
    show "c (Suc ofs + i) = v div 256 div 256 ^ i mod 256" if "i < n" for i
      using Suc.prems(3) [of "Suc i"] that by (simp add: zdiv_zmult2_eq)
  qed
  moreover have "c ofs = v mod 256" using Suc.prems(3) [of 0] by simp
  ultimately show ?case by simp
qed simp

lemma le_read_write_same: "0 \<le> v \<Longrightarrow> v < 256 ^ n \<Longrightarrow> le_read (le_write c ofs n v) ofs n = v"
  by (rule le_read_digits) (auto simp: le_write_def)

section \<open>The machine\<close>

locale region_machine = match_entries holds
  for holds :: "match_entry \<Rightarrow> hdrs \<Rightarrow> bool" +
  fixes step :: "ir_op \<Rightarrow> hdrs \<times> 'm \<Rightarrow> hdrs \<times> 'm"
    and xf :: "ir_rule list \<Rightarrow> hdrs \<times> 'm \<Rightarrow> hdrs \<times> 'm"
    and cell :: "'m \<Rightarrow> nat \<Rightarrow> nat \<Rightarrow> int"
    and ty :: "'m \<Rightarrow> htypes"
    and len :: "nat \<Rightarrow> nat"
  assumes cell_byte: "0 \<le> cell m rg x \<and> cell m rg x < 256"
    and step_binop:
      "has_width (ty m) a w \<Longrightarrow> has_width (ty m) b w \<Longrightarrow>
       fst (step (StatelessOp f w a b t) (h, m)) = eval_op (StatelessOp f w a b t) h
       \<and> cell (snd (step (StatelessOp f w a b t) (h, m))) = cell m
       \<and> ty (snd (step (StatelessOp f w a b t) (h, m))) = (ty m)(t := Some w)"
    and step_cast:
      "has_width (ty m) a frm \<Longrightarrow>
       fst (step (CastHeaderOp frm to a t) (h, m)) = eval_op (CastHeaderOp frm to a t) h
       \<and> cell (snd (step (CastHeaderOp frm to a t) (h, m))) = cell m
       \<and> ty (snd (step (CastHeaderOp frm to a t) (h, m))) = (ty m)(t := Some to)"
    and step_cast_error:
      "\<not> has_width (ty m) a frm \<Longrightarrow>
       (\<forall>n. n \<noteq> t \<longrightarrow> rd (fst (step (CastHeaderOp frm to a t) (h, m))) n = rd h n)
       \<and> cell (snd (step (CastHeaderOp frm to a t) (h, m))) = cell m
       \<and> ty (snd (step (CastHeaderOp frm to a t) (h, m))) = (ty m)(t := None)"
    and step_load:
      "has_width (ty m) a W64 \<Longrightarrow> 0 \<le> eval_operand a h \<Longrightarrow> nat (eval_operand a h) + width_bytes w \<le> len rg \<Longrightarrow>
       fst (step (LoadOp w rg a t) (h, m)) = h(t \<mapsto> le_read (cell m rg) (nat (eval_operand a h)) (width_bytes w))
       \<and> cell (snd (step (LoadOp w rg a t) (h, m))) = cell m
       \<and> ty (snd (step (LoadOp w rg a t) (h, m))) = (ty m)(t := Some w)"
    and step_store:
      "has_width (ty m) a W64 \<Longrightarrow> 0 \<le> eval_operand a h \<Longrightarrow> nat (eval_operand a h) + width_bytes w \<le> len rg \<Longrightarrow>
       has_width (ty m) v w \<Longrightarrow>
       fst (step (StoreOp w rg a v) (h, m)) = h
       \<and> cell (snd (step (StoreOp w rg a v) (h, m))) =
           (cell m)(rg := le_write (cell m rg) (nat (eval_operand a h)) (width_bytes w) (eval_operand v h))
       \<and> ty (snd (step (StoreOp w rg a v) (h, m))) = ty m"
    and xf_first:
      "\<forall>e \<in> set es. entry_typed (ty (snd st)) e \<and> holds e (fst st) \<Longrightarrow>
       xf (SeqCtr es ops # rules) st = fold step ops st"
    and xf_skip:
      "e \<in> set es \<Longrightarrow> entry_typed (ty (snd st)) e \<Longrightarrow> \<not> holds e (fst st) \<Longrightarrow>
       xf (SeqCtr es ops # rules) st = xf rules st"
    and xf_error:
      "e \<in> set es \<Longrightarrow> entry_error (ty (snd st)) e \<Longrightarrow> xf (SeqCtr es ops # rules) st = xf rules st"

section \<open>An executable machine that meets the laws\<close>

record regions =
  rm_cells :: "nat \<Rightarrow> nat \<Rightarrow> 8 word"
  rm_types :: "nat \<Rightarrow> width option"

fun rm_step :: "ir_op \<Rightarrow> hdrs \<times> regions \<Rightarrow> hdrs \<times> regions" where
  "rm_step (LoadOp w rg a t) (h, m) =
     (if has_width (rm_types m) a W64
      then (h(t \<mapsto> le_read (\<lambda>x. uint (rm_cells m rg x)) (nat (eval_operand a h)) (width_bytes w)),
            m\<lparr>rm_types := (rm_types m)(t := Some w)\<rparr>)
      else (h, m\<lparr>rm_types := (rm_types m)(t := None)\<rparr>))"
| "rm_step (StoreOp w rg a v) (h, m) =
     (if has_width (rm_types m) a W64 \<and> has_width (rm_types m) v w
      then (h, m\<lparr>rm_cells := (rm_cells m)(rg := (\<lambda>x.
             word_of_int (le_write (\<lambda>x. uint (rm_cells m rg x)) (nat (eval_operand a h)) (width_bytes w)
                (eval_operand v h) x)))\<rparr>)
      else (h, m))"
| "rm_step (StatelessOp f w a b t) (h, m) =
     (if has_width (rm_types m) a w \<and> has_width (rm_types m) b w
      then (eval_op (StatelessOp f w a b t) h, m\<lparr>rm_types := (rm_types m)(t := Some w)\<rparr>)
      else (h, m\<lparr>rm_types := (rm_types m)(t := None)\<rparr>))"
| "rm_step (CastHeaderOp frm to a t) (h, m) =
     (if has_width (rm_types m) a frm
      then (eval_op (CastHeaderOp frm to a t) h, m\<lparr>rm_types := (rm_types m)(t := Some to)\<rparr>)
      else (h, m\<lparr>rm_types := (rm_types m)(t := None)\<rparr>))"

fun rm_rules :: "ir_rule list \<Rightarrow> hdrs \<times> regions \<Rightarrow> hdrs \<times> regions" where
  "rm_rules [] st = st"
| "rm_rules (SeqCtr es ops # rules) st =
     (if list_all (\<lambda>e. entry_typed (rm_types (snd st)) e \<and> match_holds e (fst st)) es
      then fold rm_step ops st else rm_rules rules st)"

definition rm_cell :: "regions \<Rightarrow> nat \<Rightarrow> nat \<Rightarrow> int" where
  "rm_cell m rg x = uint (rm_cells m rg x)"

lemma le_write_byte:
  "(\<And>x. 0 \<le> c x \<and> c x < 256) \<Longrightarrow> uint (word_of_int (le_write c o' n v x) :: 8 word) = le_write c o' n v x"
  by (auto simp: le_write_def uint_word_of_int take_bit_eq_mod)

lemma rm_cell_eq: "rm_cell m = (\<lambda>rg x. uint (rm_cells m rg x))"
  by (simp add: rm_cell_def fun_eq_iff)

lemma rm_store_cells:
  assumes "has_width (rm_types m) a W64" "has_width (rm_types m) v w"
  shows "rm_step (StoreOp w rg a v) (h, m) = (h, snd (rm_step (StoreOp w rg a v) (h, m)))
     \<and> rm_cell (snd (rm_step (StoreOp w rg a v) (h, m))) =
         (rm_cell m)(rg := le_write (rm_cell m rg) (nat (eval_operand a h)) (width_bytes w) (eval_operand v h))
     \<and> rm_types (snd (rm_step (StoreOp w rg a v) (h, m))) = rm_types m"
proof -
  have b: "0 \<le> uint (rm_cells m rg x) \<and> uint (rm_cells m rg x) < 256" for x
    using uint_lt2p [of "rm_cells m rg x"] by simp
  show ?thesis using assms le_write_byte [OF b] by (simp add: rm_cell_eq fun_eq_iff)
qed

interpretation rm: region_machine match_holds rm_step rm_rules rm_cell rm_types "\<lambda>rg. 4096"
proof unfold_locales
  fix m rg x
  show "0 \<le> rm_cell m rg x \<and> rm_cell m rg x < 256"
    using uint_lt2p [of "rm_cells m rg x"] by (simp add: rm_cell_def)
next
  fix e es ops rules and st :: "hdrs \<times> regions"
  assume "e \<in> set es" "entry_error (rm_types (snd st)) e"
  then show "rm_rules (SeqCtr es ops # rules) st = rm_rules rules st"
    using entry_typed_no_error by (auto simp: list_all_iff)
next
  fix m :: regions and a w v rg and h :: hdrs
  assume "has_width (rm_types m) a W64" "has_width (rm_types m) v w"
  from rm_store_cells [OF this]
  show "fst (rm_step (StoreOp w rg a v) (h, m)) = h
       \<and> rm_cell (snd (rm_step (StoreOp w rg a v) (h, m))) =
           (rm_cell m)(rg := le_write (rm_cell m rg) (nat (eval_operand a h)) (width_bytes w) (eval_operand v h))
       \<and> rm_types (snd (rm_step (StoreOp w rg a v) (h, m))) = rm_types m"
    by (metis fst_conv)
qed (auto simp: rm_cell_eq list_all_iff)


section \<open>Running the ops emitted so far\<close>

text \<open>The machine's state after the ops of a block, and of an arm.\<close>

definition exec :: "(ir_op \<Rightarrow> 'st \<Rightarrow> 'st) \<Rightarrow> ops \<Rightarrow> 'st \<Rightarrow> 'st" where
  "exec step ops st = fold step ops st"

lemma exec_Nil [simp]: "exec step [] st = st"
  by (simp add: exec_def)

lemma exec_append: "exec step (xs @ ys) st = exec step ys (exec step xs st)"
  by (simp add: exec_def)

lemma exec_snoc: "exec step (xs @ [op]) st = step op (exec step xs st)"
  by (simp add: exec_def)

context region_machine
begin

text \<open>One more op, seen through the three projections of the state.\<close>

lemma exec_binop [simp]:
  assumes "has_width (ty (snd (exec step ops st))) a w" "has_width (ty (snd (exec step ops st))) b w"
  shows "fst (exec step (op_binop f w a b t ops) st) = eval_op (StatelessOp f w a b t) (fst (exec step ops st))"
    "cell (snd (exec step (op_binop f w a b t ops) st)) = cell (snd (exec step ops st))"
    "ty (snd (exec step (op_binop f w a b t ops) st)) = (ty (snd (exec step ops st)))(t := Some w)"
  using step_binop [OF assms, of f t "fst (exec step ops st)"] by (simp_all add: op_binop_def exec_snoc)

lemma exec_cast [simp]:
  assumes "has_width (ty (snd (exec step ops st))) a w"
  shows "fst (exec step (op_cast w w' a t ops) st) = eval_op (CastHeaderOp w w' a t) (fst (exec step ops st))"
    "cell (snd (exec step (op_cast w w' a t ops) st)) = cell (snd (exec step ops st))"
    "ty (snd (exec step (op_cast w w' a t ops) st)) = (ty (snd (exec step ops st)))(t := Some w')"
  using step_cast [OF assms, of w' t "fst (exec step ops st)"] by (simp_all add: op_cast_def exec_snoc)

lemma exec_cast_error:
  assumes "\<not> has_width (ty (snd (exec step ops st))) a w"
  shows "n \<noteq> t \<Longrightarrow> rd (fst (exec step (op_cast w w' a t ops) st)) n = rd (fst (exec step ops st)) n"
    "cell (snd (exec step (op_cast w w' a t ops) st)) = cell (snd (exec step ops st))"
    "ty (snd (exec step (op_cast w w' a t ops) st)) = (ty (snd (exec step ops st)))(t := None)"
  using step_cast_error [OF assms, of t w' "fst (exec step ops st)"] by (simp_all add: op_cast_def exec_snoc)

lemma exec_set [simp]:
  "fst (exec step (op_set t v ops) st) = (fst (exec step ops st))(t \<mapsto> take_bit 64 v)"
  "cell (snd (exec step (op_set t v ops) st)) = cell (snd (exec step ops st))"
  "ty (snd (exec step (op_set t v ops) st)) = (ty (snd (exec step ops st)))(t := Some W64)"
  by (simp_all add: op_set_def)

lemma exec_load:
  assumes "has_width (ty (snd (exec step ops st))) a W64" "0 \<le> eval_operand a (fst (exec step ops st))"
    "nat (eval_operand a (fst (exec step ops st))) + width_bytes w \<le> len rg"
  shows "fst (exec step (op_load w rg a t ops) st) = (fst (exec step ops st))
       (t \<mapsto> le_read (cell (snd (exec step ops st)) rg) (nat (eval_operand a (fst (exec step ops st)))) (width_bytes w))"
    "cell (snd (exec step (op_load w rg a t ops) st)) = cell (snd (exec step ops st))"
    "ty (snd (exec step (op_load w rg a t ops) st)) = (ty (snd (exec step ops st)))(t := Some w)"
  using step_load [OF assms, of t] by (simp_all add: op_load_def exec_snoc)

lemma exec_store:
  assumes "has_width (ty (snd (exec step ops st))) a W64" "0 \<le> eval_operand a (fst (exec step ops st))"
    "nat (eval_operand a (fst (exec step ops st))) + width_bytes w \<le> len rg"
    "has_width (ty (snd (exec step ops st))) v w"
  shows "fst (exec step (op_store w rg a v ops) st) = fst (exec step ops st)"
    "cell (snd (exec step (op_store w rg a v ops) st)) = (cell (snd (exec step ops st)))
       (rg := le_write (cell (snd (exec step ops st)) rg) (nat (eval_operand a (fst (exec step ops st))))
                (width_bytes w) (eval_operand v (fst (exec step ops st))))"
    "ty (snd (exec step (op_store w rg a v ops) st)) = ty (snd (exec step ops st))"
  using step_store [OF assms] by (simp_all add: op_store_def exec_snoc)

text \<open>A value read at a width fits it.\<close>

lemma le_read_width: "take_bit (width_bits w) (le_read (cell m rg) x (width_bytes w)) = le_read (cell m rg) x (width_bytes w)"
  "take_bit 64 (le_read (cell m rg) x (width_bytes w)) = le_read (cell m rg) x (width_bytes w)"
proof -
  have b: "0 \<le> le_read (cell m rg) x (width_bytes w)" "le_read (cell m rg) x (width_bytes w) < 256 ^ width_bytes w"
    using le_read_bounds [of "cell m rg" x "width_bytes w"] cell_byte by blast+
  have "(256::int) ^ width_bytes w = 2 ^ width_bits w" "(256::int) ^ width_bytes w \<le> 2 ^ 64"
    by (cases w; simp)+
  with b show "take_bit (width_bits w) (le_read (cell m rg) x (width_bytes w)) = le_read (cell m rg) x (width_bytes w)"
    "take_bit 64 (le_read (cell m rg) x (width_bytes w)) = le_read (cell m rg) x (width_bytes w)"
    by (auto intro!: take_bit_int_id)
qed

text \<open>Reading a list of cells into headers of their own.\<close>

lemma read_cells_exec:
  "read_cells idx rg w t_raw offs s = (ts, s') \<Longrightarrow> \<not> t_had_error s' \<Longrightarrow> t_raw < 30 + t_tmp_next s \<Longrightarrow> 30 \<le> t_raw
   \<Longrightarrow> (\<And>x. x \<in> set offs \<Longrightarrow> x + width_bytes w \<le> len rg \<and> x < 2 ^ 64) \<Longrightarrow>
   ts = [30 + t_tmp_next s ..< 30 + t_tmp_next s + length offs]
   \<and> t_tmp_next s' = t_tmp_next s + length offs
   \<and> map (rd (fst (exec step (t_ops s') st))) ts
       = map (\<lambda>x. le_read (cell (snd (exec step (t_ops s) st)) rg) x (width_bytes w)) offs
   \<and> (\<forall>n. n \<noteq> t_raw \<and> n \<notin> set ts \<longrightarrow> rd (fst (exec step (t_ops s') st)) n = rd (fst (exec step (t_ops s) st)) n
          \<and> ty (snd (exec step (t_ops s') st)) n = ty (snd (exec step (t_ops s) st)) n)
   \<and> (\<forall>n \<in> set ts. ty (snd (exec step (t_ops s') st)) n = Some W64)
   \<and> cell (snd (exec step (t_ops s') st)) = cell (snd (exec step (t_ops s) st))"
proof (induction offs arbitrary: s ts)
  case Nil
  then show ?case by simp
next
  case (Cons x offs)
  let ?s1 = "emit (op_cast w W64 (hdr t_raw) (fst (fresh_tmp idx s)))
      (emit (op_load w rg (konst (int x)) t_raw) (snd (fresh_tmp idx s)))"
  obtain ts1 where rest: "read_cells idx rg w t_raw offs ?s1 = (ts1, s')" and ts: "ts = fst (fresh_tmp idx s) # ts1"
    using Cons.prems(1) by (cases "read_cells idx rg w t_raw offs ?s1") (auto simp: Let_def split_beta)
  have "extends ?s1 s'" using extends_read_cells [OF Cons.prems(4) extends_refl, where s = ?s1 and idx = idx and region = rg and w = w and offs = offs] rest by simp
  then have "\<not> t_had_error (snd (fresh_tmp idx s))" using Cons.prems(2) by (auto simp: extends_def)
  then have lt: "t_tmp_next s < 64" by (auto simp: fresh_tmp_def Let_def split: if_splits)
  let ?t = "30 + t_tmp_next s"
  define s1 where "s1 = emit (op_cast w W64 (hdr t_raw) ?t)
      (emit (op_load w rg (konst (int x)) t_raw) (s\<lparr>t_tmp_next := Suc (t_tmp_next s)\<rparr>))"
  have rest: "read_cells idx rg w t_raw offs s1 = (ts1, s')" and ts: "ts = ?t # ts1"
    using rest ts lt by (simp_all add: s1_def)
  have x: "x + width_bytes w \<le> len rg" "take_bit 64 (int x) = int x"
    using Cons.prems(5) [of x] by (auto intro!: take_bit_int_id)
  have raw: "t_raw < 30 + t_tmp_next s1" "t_tmp_next s1 = Suc (t_tmp_next s)"
    using Cons.prems(3) by (simp_all add: s1_def)
  note ld = exec_load [of "t_ops s" st "konst (int x)" w rg t_raw, simplified, simplified x(2), simplified, OF x(1)]
  have e: "rd (fst (exec step (t_ops s1) st)) ?t = le_read (cell (snd (exec step (t_ops s) st)) rg) x (width_bytes w)"
    using le_read_width by (simp add: s1_def ld)
  have e': "ty (snd (exec step (t_ops s1) st)) ?t = Some W64"
    by (simp add: s1_def ld)
  have f: "rd (fst (exec step (t_ops s1) st)) n = rd (fst (exec step (t_ops s) st)) n"
    "ty (snd (exec step (t_ops s1) st)) n = ty (snd (exec step (t_ops s) st)) n" if "n \<noteq> t_raw" "n \<noteq> ?t" for n
    using that by (simp_all add: s1_def ld)
  have c: "cell (snd (exec step (t_ops s1) st)) = cell (snd (exec step (t_ops s) st))"
    by (simp add: s1_def ld)
  note ih = Cons.IH [OF rest Cons.prems(2) raw(1) Cons.prems(4)]
  have "x \<in> set offs \<Longrightarrow> x + width_bytes w \<le> len rg \<and> x < 2 ^ 64" for x using Cons.prems(5) by simp
  note ih = ih [OF this]
  have nt: "?t \<noteq> t_raw" "?t \<notin> set ts1" using ih raw(2) Cons.prems(3) by auto
  show ?case
    using ih e e' f c raw(2) nt ts by (simp add: upt_rec [of ?t] add.assoc cong: conj_cong)
qed

end

end
