(* ===== verification/Map_Model.thy ===== *)
theory Map_Model
  imports Region_Machine
begin

text \<open>
  What the map helpers compute, on the machine with regions: the cells of a tagged map's region as an
  abstract map from keys to values, and the emitted code as the lookup and the update of that map.
\<close>

section \<open>A region as a map\<close>

type_synonym cells = "nat \<Rightarrow> int"

text \<open>Slot \<open>i\<close> holds key \<open>k\<close>; the first slot that does; the map the region stands for.\<close>

definition slot_holds :: "map_info \<Rightarrow> cells \<Rightarrow> int \<Rightarrow> nat \<Rightarrow> bool" where
  "slot_holds mi c k i \<longleftrightarrow> c i = 1 \<and> le_read c (m_tag_off mi i) (m_key_size mi) = k"

definition slot_of :: "map_info \<Rightarrow> cells \<Rightarrow> int \<Rightarrow> nat option" where
  "slot_of mi c k = find (slot_holds mi c k) [0..<m_nslots mi]"

definition slot_value :: "map_info \<Rightarrow> cells \<Rightarrow> nat \<Rightarrow> int" where
  "slot_value mi c i = le_read c (m_value_off mi i) (m_value_size mi)"

definition amap :: "map_info \<Rightarrow> cells \<Rightarrow> int \<rightharpoonup> int" where
  "amap mi c k = map_option (slot_value mi c) (slot_of mi c k)"

text \<open>
  The key a helper is called with: the value of the stack slot that register 2 points to, or the cells
  of a region at the address in register 2.  A stack slot is one header, so a key on the stack is the
  value stored there last by one store of the key's width.  \<open>operand_ready\<close> is what makes the operand
  of a helper call such a value: the slot has a header and the header carries the width \<open>w\<close>, or
  register \<open>r\<close> holds an address with the operand inside the region.
\<close>

definition map_key :: "reg_info \<Rightarrow> width \<Rightarrow> tstate \<Rightarrow> hdrs \<Rightarrow> (nat \<Rightarrow> cells) \<Rightarrow> int" where
  "map_key kp kw s h c =
     (if ri_tag kp = T_STACK
      then take_bit (width_bits kw) (rd h (fst (stack_header (- ri_off kp) s)))
      else le_read (c (region_of kp s)) (nat (rd h (H_REG 2))) (width_bytes kw))"

definition operand_ready :: "reg_info \<Rightarrow> nat \<Rightarrow> width \<Rightarrow> tstate \<Rightarrow> hdrs \<Rightarrow> htypes \<Rightarrow> (nat \<Rightarrow> nat) \<Rightarrow> bool" where
  "operand_ready p r w s h T len =
     (if ri_tag p = T_STACK
      then (case t_stack_hdr_of s (- ri_off p) of None \<Rightarrow> False | Some sh \<Rightarrow> T sh = Some w)
      else T (H_REG r) = Some W64 \<and> 0 \<le> rd h (H_REG r)
           \<and> nat (rd h (H_REG r)) + width_bytes w \<le> len (region_of p s))"

lemma operand_ready_cong:
  "t_stack_hdr_of s' = t_stack_hdr_of s \<Longrightarrow> t_maps s' = t_maps s \<Longrightarrow>
   operand_ready p r w s' = operand_ready p r w s"
  by (simp add: operand_ready_def region_of_def fun_eq_iff)

section \<open>Reading the key and the slots\<close>

lemma fresh_tmp_error:
  "fresh_tmp idx s = (t, s') \<Longrightarrow> \<not> t_had_error s' \<Longrightarrow> t_tmp_next s < 64 \<and> \<not> t_had_error s"
  by (auto simp: fresh_tmp_def Let_def split: if_splits)

lemma stack_header_bump [simp]:
  "fst (stack_header slot (s\<lparr>t_tmp_next := n\<rparr>)) = fst (stack_header slot s)"
  "t_ops (snd (stack_header slot s)) = t_ops s" "t_tmp_next (snd (stack_header slot s)) = t_tmp_next s"
  "t_had_error (snd (stack_header slot s)) = t_had_error s" "t_maps (snd (stack_header slot s)) = t_maps s"
  by (simp_all add: stack_header_def split: option.split)

lemma stack_header_range: "stack_ok s \<Longrightarrow> fst (stack_header slot s) = 0 \<or> 100 \<le> fst (stack_header slot s)"
  using stack_header_ok(2) [of s slot] by (metis prod.collapse)

lemma region_of_bump [simp]: "region_of kp (s\<lparr>t_tmp_next := n\<rparr>) = region_of kp s"
  by (simp add: region_of_def)

lemma min_width [simp]: "min 64 (width_bits w) = width_bits w"
  by (cases w) simp_all

lemma read_cells_range: "read_cells idx rg w t_raw offs s = (ts, s') \<Longrightarrow> \<forall>t \<in> set ts. t < 94"
proof (induction offs arbitrary: s ts)
  case (Cons x offs)
  obtain t s1 where f: "fresh_tmp idx s = (t, s1)" by fastforce
  let ?s2 = "emit (op_cast w W64 (hdr t_raw) t) (emit (op_load w rg (konst (int x)) t_raw) s1)"
  obtain ts1 where r: "read_cells idx rg w t_raw offs ?s2 = (ts1, s')" "ts = t # ts1"
    using Cons.prems f by (cases "read_cells idx rg w t_raw offs ?s2") (simp add: Let_def)
  with Cons.IH [OF r(1)] fresh_tmp_range [OF f] show ?case by simp
qed simp

context region_machine
begin

lemma read_map_key_exec:
  assumes rk: "read_map_key idx kp kw s = (Some t, s')" and ok: "\<not> t_had_error s'" "stack_ok s"
    and st: "exec step (t_ops s) st = (h, m)"
    and rdy: "operand_ready kp 2 kw s h (ty m) len"
  shows "t = 30 + t_tmp_next s \<and> t < 30 + t_tmp_next s' \<and> t_maps s' = t_maps s
    \<and> ty (snd (exec step (t_ops s') st)) t = Some W64
    \<and> rd (fst (exec step (t_ops s') st)) t = map_key kp kw s h (cell m)
    \<and> (\<forall>n. n < 30 + t_tmp_next s \<or> 100 \<le> n \<longrightarrow>
          rd (fst (exec step (t_ops s') st)) n = rd h n \<and> ty (snd (exec step (t_ops s') st)) n = ty m n)
    \<and> cell (snd (exec step (t_ops s') st)) = cell m"
proof -
  obtain t0 s0 where f: "fresh_tmp idx s = (t0, s0)" by fastforce
  have ext: "t_had_error s0 \<Longrightarrow> t_had_error s'"
    using rk f by (auto simp: read_map_key_def Let_def split_beta fresh_tmp_def split: if_splits)
  with ok f have lt: "t_tmp_next s < 64" using fresh_tmp_error by blast
  then have t0: "t0 = 30 + t_tmp_next s" "s0 = s\<lparr>t_tmp_next := Suc (t_tmp_next s)\<rparr>" using f by auto
  show ?thesis
  proof (cases "ri_tag kp = T_STACK")
    case True
    let ?sh = "fst (stack_header (- ri_off kp) s)"
    from True rk f t0 ok(1) have "?sh \<noteq> 0" "t = t0"
        "s' = emit (op_cast kw W64 (hdr ?sh) t0) (snd (stack_header (- ri_off kp) s0))"
      by (auto simp: read_map_key_def Let_def split_beta split: if_splits)
    moreover from this(1) rdy True have "ty m ?sh = Some kw"
      by (auto simp: operand_ready_def stack_header_def split: option.splits if_splits)
    ultimately show ?thesis
      using True t0 st lt by (auto simp: map_key_def)
  next
    case False
    obtain t1 s1 where f1: "fresh_tmp idx s0 = (t1, s1)" by fastforce
    let ?r = "region_of kp s"
    from False rk f f1 t0 have t: "t = t0"
        "s' = emit (op_cast kw W64 (hdr t1) t0) (emit (op_load kw ?r (hdr (H_REG 2)) t1) s1)"
      by (auto simp: read_map_key_def Let_def split_beta split: if_splits)
    with ok(1) have "\<not> t_had_error s1" by simp
    with fresh_tmp_error [OF f1] t0 have lt1: "Suc (t_tmp_next s) < 64" by auto
    then have t1: "t1 = 31 + t_tmp_next s" "s1 = s\<lparr>t_tmp_next := Suc (Suc (t_tmp_next s))\<rparr>"
      using f1 t0 by auto
    note ld = exec_load [of "t_ops s" st "hdr (H_REG 2)" kw ?r t1, simplified st, simplified]
    have b: "ty m 12 = Some W64" "0 \<le> rd h 12" "nat (rd h 12) + width_bytes kw \<le> len ?r"
      using rdy False by (simp_all add: operand_ready_def)
    have k: "take_bit 64 (take_bit (width_bits kw) (le_read (cell m ?r) x (width_bytes kw)))
        = le_read (cell m ?r) x (width_bytes kw)" for x by (simp add: le_read_width)
    show ?thesis
      using False t0 t t1 lt1 ld [OF b] by (auto simp: map_key_def k le_read_width)
  qed
qed

lemma emit_slot_headers_exec:
  assumes hd: "emit_slot_headers idx mp mi kw s = ((pres, tags), s')" and ok: "\<not> t_had_error s'"
    and st: "exec step (t_ops s) st = (h, m)"
    and kw: "width_bytes kw = m_key_size mi" and tagged: "m_tagged mi"
    and len: "m_length mi \<le> len (REGION_MAP mp)" "m_length mi < 2 ^ 64"
  shows "length pres = m_nslots mi \<and> length tags = m_nslots mi \<and> t_maps s' = t_maps s
    \<and> t_tmp_next s \<le> t_tmp_next s'
    \<and> (\<forall>i < m_nslots mi. rd (fst (exec step (t_ops s') st)) (pres ! i) = cell m (REGION_MAP mp) i
         \<and> rd (fst (exec step (t_ops s') st)) (tags ! i)
             = le_read (cell m (REGION_MAP mp)) (m_tag_off mi i) (m_key_size mi))
    \<and> (\<forall>n. n < 30 + t_tmp_next s \<or> 100 \<le> n \<longrightarrow>
          rd (fst (exec step (t_ops s') st)) n = rd h n \<and> ty (snd (exec step (t_ops s') st)) n = ty m n)
    \<and> cell (snd (exec step (t_ops s') st)) = cell m
    \<and> (\<forall>x \<in> set pres \<union> set tags. 30 \<le> x \<and> x < 30 + t_tmp_next s'
          \<and> ty (snd (exec step (t_ops s') st)) x = Some W64)"
proof -
  let ?rg = "REGION_MAP mp" and ?n = "m_nslots mi"
  obtain t_raw s0 where f: "fresh_tmp idx s = (t_raw, s0)" by fastforce
  obtain s1 where r1: "read_cells idx ?rg W8 t_raw [0..<?n] s0 = (pres, s1)"
    and r2: "read_cells idx ?rg kw t_raw (map (m_tag_off mi) [0..<?n]) s1 = (tags, s')"
    using hd f by (auto simp: emit_slot_headers_def Let_def split_beta prod_eq_iff)
  have raw30: "30 \<le> t_raw" using fresh_tmp_range [OF f] by simp
  have "extends s1 (snd (read_cells idx ?rg kw t_raw (map (m_tag_off mi) [0..<?n]) s1))"
    by (rule extends_read_cells [OF raw30 extends_refl])
  then have "extends s1 s'" by (simp only: r2 snd_conv)
  with ok have ok1: "\<not> t_had_error s1" by (auto simp: extends_def)
  have "extends s0 (snd (read_cells idx ?rg W8 t_raw [0..<?n] s0))"
    by (rule extends_read_cells [OF raw30 extends_refl])
  then have "extends s0 s1" by (simp only: r1 snd_conv)
  with ok1 have ok0: "\<not> t_had_error s0" by (auto simp: extends_def)
  have lt: "t_tmp_next s < 64" using fresh_tmp_error [OF f ok0] by blast
  then have t0: "t_raw = 30 + t_tmp_next s" "s0 = s\<lparr>t_tmp_next := Suc (t_tmp_next s)\<rparr>" using f by auto
  have n: "i < ?n \<Longrightarrow> i + 1 \<le> m_length mi \<and> m_tag_off mi i + m_key_size mi \<le> m_length mi" for i
    using tagged slot_interval_end [of i ?n "m_key_size mi"] by (auto simp: layout_defs)
  have 1: "x + width_bytes W8 \<le> len ?rg \<and> x < 2 ^ 64" if "x \<in> set [0..<?n]" for x
    using that n [of x] len by auto
  have 2: "x + width_bytes kw \<le> len ?rg \<and> x < 2 ^ 64" if "x \<in> set (map (m_tag_off mi) [0..<?n])" for x
    using that n len kw by (auto, fastforce, fastforce)
  have raw: "t_raw < 30 + t_tmp_next s0" using t0 by simp
  have st0: "exec step (t_ops s0) st = (h, m)" using st t0 by simp
  from read_cells_exec [OF r1 ok1 raw raw30 1, of st, unfolded st0]
  have e1: "pres = [30 + t_tmp_next s0 ..< 30 + t_tmp_next s0 + ?n]" "t_tmp_next s1 = t_tmp_next s0 + ?n"
    "map (rd (fst (exec step (t_ops s1) st))) pres = map (\<lambda>x. le_read (cell m ?rg) x (width_bytes W8)) [0..<?n]"
    "\<And>n. n \<noteq> t_raw \<Longrightarrow> n \<notin> set pres \<Longrightarrow> rd (fst (exec step (t_ops s1) st)) n = rd h n
       \<and> ty (snd (exec step (t_ops s1) st)) n = ty m n"
    "cell (snd (exec step (t_ops s1) st)) = cell m"
    "\<And>n. n \<in> set pres \<Longrightarrow> ty (snd (exec step (t_ops s1) st)) n = Some W64"
    by auto
  have raw1: "t_raw < 30 + t_tmp_next s1" using t0 e1(2) by simp
  from read_cells_exec [OF r2 ok raw1 raw30 2, of st]
  have e2: "tags = [30 + t_tmp_next s1 ..< 30 + t_tmp_next s1 + ?n]" "t_tmp_next s' = t_tmp_next s1 + ?n"
    "map (rd (fst (exec step (t_ops s') st))) tags
      = map (\<lambda>x. le_read (cell m ?rg) x (width_bytes kw)) (map (m_tag_off mi) [0..<?n])"
    "\<And>n. n \<noteq> t_raw \<Longrightarrow> n \<notin> set tags \<Longrightarrow>
       rd (fst (exec step (t_ops s') st)) n = rd (fst (exec step (t_ops s1) st)) n
       \<and> ty (snd (exec step (t_ops s') st)) n = ty (snd (exec step (t_ops s1) st)) n"
    "cell (snd (exec step (t_ops s') st)) = cell m"
    "\<And>n. n \<in> set tags \<Longrightarrow> ty (snd (exec step (t_ops s') st)) n = Some W64"
    by (auto simp: e1(5))
  have len': "length pres = ?n" "length tags = ?n" using e1(1) e2(1) by simp_all
  have rng: "\<forall>t \<in> set pres \<union> set tags. t < 94" using read_cells_range [OF r1] read_cells_range [OF r2] by auto
  have apart: "t_raw \<notin> set tags" "set pres \<inter> set tags = {}" "t_raw \<notin> set pres"
    using e1(1,2) e2(1) t0 by auto
  have keep: "rd (fst (exec step (t_ops s') st)) n = rd h n \<and> ty (snd (exec step (t_ops s') st)) n = ty m n"
    if "n < 30 + t_tmp_next s \<or> 100 \<le> n" for n
  proof -
    have "n \<noteq> t_raw" "n \<notin> set pres" "n \<notin> set tags"
      using that rng e1(1) e2(1,2) t0 e1(2) fresh_tmp_range [OF f] by auto
    then show ?thesis using e1(4) [of n] e2(4) [of n] by simp
  qed
  have "rd (fst (exec step (t_ops s') st)) (pres ! i) = cell m ?rg i" if i: "i < ?n" for i
  proof -
    have "pres ! i \<in> set pres" using i len'(1) by simp
    then have "pres ! i \<noteq> t_raw" "pres ! i \<notin> set tags" using apart by auto
    moreover have "rd (fst (exec step (t_ops s1) st)) (pres ! i) = cell m ?rg i"
      using arg_cong [where f = "\<lambda>xs. xs ! i", OF e1(3)] i len'(1) by simp
    ultimately show ?thesis using e2(4) by simp
  qed
  moreover have "rd (fst (exec step (t_ops s') st)) (tags ! i) = le_read (cell m ?rg) (m_tag_off mi i) (m_key_size mi)"
    if i: "i < ?n" for i
    using arg_cong [where f = "\<lambda>xs. xs ! i", OF e2(3)] i len'(2) kw by simp
  moreover have "t_maps s' = t_maps s"
    using \<open>extends s0 s1\<close> \<open>extends s1 s'\<close> t0 by (simp add: extends_def)
  moreover have "t_tmp_next s \<le> t_tmp_next s'" using e1(2) e2(2) t0 by simp
  moreover have "\<forall>x \<in> set pres \<union> set tags. 30 \<le> x \<and> x < 30 + t_tmp_next s'"
    using e1(1,2) e2(1,2) by auto
  moreover have "\<forall>x \<in> set pres \<union> set tags. ty (snd (exec step (t_ops s') st)) x = Some W64"
    using e1(6) e2(4,6) apart by (metis Un_iff disjoint_iff)
  ultimately show ?thesis using len' keep e2(5) by simp
qed

end

section \<open>A decision\<close>

text \<open>The rule an arm becomes in the second transformer of a block.\<close>

abbreviation arm_rule :: "nat \<Rightarrow> nat \<Rightarrow> arm \<Rightarrow> ir_rule" where
  "arm_rule start pc arm \<equiv>
     SeqCtr (pc_entry (DECIDE_PC start) # fst arm) (snd arm @ [set_pc_op pc H_PC])"

lemma decision_modules:
  "t_modules (push_block start c (Some arms) pc pc' pc'' s) = t_modules s
     @ [TransformerModule (t_next_mod s)
          [SeqCtr [pc_entry (BLOCK_PC start)] (t_ops s @ [set_pc_op (DECIDE_PC start) H_PC]), default_rule],
        TransformerModule (t_next_mod s + 1) (map (arm_rule start pc) arms @ [default_rule])]"
  by (simp add: push_block_def push_transformer_def push_module_def emit_def op_raw_def rule_def Let_def
      split_beta comp_def)

context region_machine
begin

lemma holds_pc:
  "rd h H_PC = int pc \<Longrightarrow> pc < 20000 \<Longrightarrow> holds (pc_entry pc) h"
  using holds_const [of h H_PC W64 "int pc" CmpEq]
  by (simp add: pc_entry_def term_defs take_bit_int_id)

lemma cmp_entry_typed [simp]:
  "entry_typed T (pc_entry pc) = (T H_PC = Some W64)"
  "entry_typed T (cmp_entry k c (match_const v w)) = (T k = Some w)"
  "entry_typed T (cmp_entry k c (match_header k')) = (T k \<noteq> None \<and> T k' = T k)"
  by (simp_all add: pc_entry_def term_defs)

lemma step_pc:
  "fst (step (set_pc_op pc H_PC) st) = (fst st)(H_PC \<mapsto> take_bit 64 (int pc))"
  "cell (snd (step (set_pc_op pc H_PC) st)) = cell (snd st)"
  "ty (snd (step (set_pc_op pc H_PC) st)) = (ty (snd st))(H_PC := Some W64)"
  using step_binop [of "snd st" "OpConst (int pc)" W64 "OpConst 0" AddOp H_PC "fst st"] by (simp_all add: set_pc_op_def)

text \<open>The first arm whose entries hold is the one executed.\<close>

lemma xf_arms:
  assumes pc: "rd (fst st) H_PC = int (DECIDE_PC start)" "start \<le> MAX_INSNS" "ty (snd st) H_PC = Some W64"
    and typed: "\<forall>i \<in> set js. \<forall>e \<in> set (E i). entry_typed (ty (snd st)) e"
  shows "xf (map (arm_rule start pc) (map (\<lambda>i. (E i, body i)) js @ rest) @ [default_rule]) st =
    (case find (\<lambda>i. \<forall>e \<in> set (E i). holds e (fst st)) js of
       Some i \<Rightarrow> step (set_pc_op pc H_PC) (exec step (body i) st)
     | None \<Rightarrow> xf (map (arm_rule start pc) rest @ [default_rule]) st)"
proof -
  have "DECIDE_PC start < 20000" using pc(2) by simp
  then have p: "holds (pc_entry (DECIDE_PC start)) (fst st)" using holds_pc [OF pc(1)] by blast
  show ?thesis
    using typed
  proof (induction js)
    case (Cons i js)
    show ?case
    proof (cases "\<forall>e \<in> set (E i). holds e (fst st)")
      case True
      with p pc(3) Cons.prems show ?thesis by (auto simp: xf_first exec_def)
    next
      case False
      then obtain e where e: "e \<in> set (E i)" "\<not> holds e (fst st)" by blast
      have "xf (map (arm_rule start pc) (map (\<lambda>i. (E i, body i)) js @ rest) @ [default_rule]) st =
        (case find (\<lambda>i. \<forall>e \<in> set (E i). holds e (fst st)) js of
           Some i \<Rightarrow> step (set_pc_op pc H_PC) (exec step (body i) st)
         | None \<Rightarrow> xf (map (arm_rule start pc) rest @ [default_rule]) st)"
        by (rule Cons.IH) (use Cons.prems in simp)
      with False e Cons.prems xf_skip [of e "pc_entry (DECIDE_PC start) # E i" st] show ?thesis by auto
    qed
  qed simp
qed

lemma xf_last_arm:
  assumes pc: "rd (fst st) H_PC = int (DECIDE_PC start)" "start \<le> MAX_INSNS" "ty (snd st) H_PC = Some W64"
  shows "xf (map (arm_rule start pc) [([], ops)] @ rest) st = step (set_pc_op pc H_PC) (exec step ops st)"
proof -
  have "DECIDE_PC start < 20000" using pc(2) by simp
  then have "holds (pc_entry (DECIDE_PC start)) (fst st)" using holds_pc [OF pc(1)] by blast
  then show ?thesis using pc(3) by (simp add: xf_first exec_def)
qed

text \<open>The two transformers of a block that ends in a decision.\<close>

lemma run_decision:
  assumes pc: "rd (fst st0) H_PC = int (BLOCK_PC start)" "start \<le> MAX_INSNS" "ty (snd st0) H_PC = Some W64"
    and ex: "exec step (t_ops s) st0 = st"
  shows "run_chain xf (drop (length (t_modules s)) (t_modules (push_block start c (Some arms) pc pc' pc'' s))) st0
       = xf (map (arm_rule start pc) arms @ [default_rule]) (step (set_pc_op (DECIDE_PC start) H_PC) st)"
    and "rd (fst (step (set_pc_op (DECIDE_PC start) H_PC) st)) H_PC = int (DECIDE_PC start)"
    and "n \<noteq> H_PC \<Longrightarrow> rd (fst (step (set_pc_op (DECIDE_PC start) H_PC) st)) n = rd (fst st) n"
proof -
  have "BLOCK_PC start < 20000" using pc(2) by simp
  then have "holds (pc_entry (BLOCK_PC start)) (fst st0)" using holds_pc [OF pc(1)] by blast
  then show "run_chain xf (drop (length (t_modules s)) (t_modules (push_block start c (Some arms) pc pc' pc'' s))) st0
       = xf (map (arm_rule start pc) arms @ [default_rule]) (step (set_pc_op (DECIDE_PC start) H_PC) st)"
    using ex pc(3) by (simp add: decision_modules xf_first exec_def)
  show "rd (fst (step (set_pc_op (DECIDE_PC start) H_PC) st)) H_PC = int (DECIDE_PC start)"
    using pc(2) step_pc(1) [of "DECIDE_PC start" st] by (simp add: take_bit_int_id)
  show "n \<noteq> H_PC \<Longrightarrow> rd (fst (step (set_pc_op (DECIDE_PC start) H_PC) st)) n = rd (fst st) n"
    using step_pc(1) [of "DECIDE_PC start" st] by simp
qed

end

section \<open>Lookup\<close>

lemma map_key_bump [simp]:
  "map_key kp kw (s\<lparr>t_tmp_next := n\<rparr>) = map_key kp kw s"
  "map_key kp kw (count_map_site mp s) = map_key kp kw s"
  by (simp_all add: map_key_def fun_eq_iff stack_header_def region_of_def count_map_site_def split: option.split)

lemma count_map_site_fields [simp]:
  "t_ops (count_map_site mp s) = t_ops s" "t_tmp_next (count_map_site mp s) = t_tmp_next s"
  "t_maps (count_map_site mp s) = t_maps s" "t_had_error (count_map_site mp s) = t_had_error s"
  "stack_ok (count_map_site mp s) = stack_ok s" "region_of kp (count_map_site mp s) = region_of kp s"
  by (simp_all add: count_map_site_def region_of_def stack_ok_def)

lemma width_name_bytes: "n \<in> {1, 2, 4, 8} \<Longrightarrow> width_bytes (width_name (int n)) = n"
  by (auto simp: width_name_def)

lemma tagged_not_array: "m_tagged mi \<Longrightarrow> \<not> m_is_array mi \<and> check_map_modelled idx mi s = (True, s)"
  by (simp add: m_tagged_def m_is_array_def check_map_modelled_def)

text \<open>What an accepted lookup of a hash map emits.\<close>

lemma emit_map_lookup_tagged:
  assumes "emit_map_lookup idx a s = Some (Some arms, a', s')"
    and "mi = t_maps s ! mp" "mp = nat (ri_mapidx (a_reg a ! 1))" "m_tagged mi"
  obtains t pres tags s1 where "m_key_size mi \<in> {1, 2, 4, 8}"
    "read_map_key idx (a_reg a ! 2) (width_name (int (m_key_size mi))) (count_map_site mp (s\<lparr>t_tmp_next := 0\<rparr>)) = (Some t, s1)"
    "emit_slot_headers idx mp mi (width_name (int (m_key_size mi))) s1 = ((pres, tags), s')"
    "arms = lookup_arms mi t pres tags"
proof -
  let ?kw = "width_name (int (m_key_size mi))" and ?s = "count_map_site mp (s\<lparr>t_tmp_next := 0\<rparr>)"
  obtain t s1 where r: "read_map_key idx (a_reg a ! 2) ?kw ?s = (t, s1)" by fastforce
  obtain pres tags s2 where e: "emit_slot_headers idx mp mi ?kw s1 = ((pres, tags), s2)" by (metis prod.collapse)
  have k: "m_key_size mi \<in> {1, 2, 4, 8}"
    and res: "emit_tagged_lookup idx mp mi (a_reg a ! 2) ?kw ?s = (Some arms, s')"
    using assms tagged_not_array [OF assms(4)]
    by (auto simp: emit_map_lookup_def Let_def split_beta prod_eq_iff simp del: insert_iff split: if_splits option.splits)
  from res r e have "\<exists>x. t = Some x \<and> arms = lookup_arms mi x pres tags \<and> s2 = s'"
    by (auto simp: emit_tagged_lookup_def Let_def split: option.splits)
  with that k r e show ?thesis by blast
qed

lemma slot_of_Some: "slot_of mi c k = Some i \<Longrightarrow> i < m_nslots mi \<and> slot_holds mi c k i"
  by (auto simp: slot_of_def find_Some_iff)

lemma value_off_end: "i < m_nslots mi \<Longrightarrow> m_value_off mi i + m_value_size mi \<le> m_full_off mi"
  using slot_interval_end [of i "m_nslots mi" "m_value_size mi"] by (simp add: layout_defs)

lemma value_off_u64:
  "i < m_nslots mi \<Longrightarrow> m_length mi < 2 ^ 64 \<Longrightarrow> take_bit 64 (int (m_value_off mi i)) = int (m_value_off mi i)"
  using value_off_end [of i mi] by (intro take_bit_int_id) (auto simp: m_length_def)

lemma const_op_set: "[const_op n v] = op_set n v []" "[zero_op n] = op_set n 0 []"
  by (simp_all add: op_defs term_defs)

lemma find_arms: "(\<And>i. i \<in> set js \<Longrightarrow> P i = Q i) \<Longrightarrow> find P js = find Q js"
  by (induction js) auto

context region_machine
begin

text \<open>The entries of a tagged slot's arm hold exactly when the slot holds the key.\<close>

lemma slot_entries_hold:
  assumes v: "rd h pr = cell m rg i" "rd h tg = le_read (cell m rg) (m_tag_off mi i) (m_key_size mi)" "rd h t = key"
    and key: "key = take_bit 64 key" and kw: "width_bytes kw = m_key_size mi"
  shows "(\<forall>e \<in> set [cmp_entry pr CmpEq (match_const 1 W64), cmp_entry tg CmpEq (match_header t)]. holds e h)
      \<longleftrightarrow> slot_holds mi (cell m rg) key i"
    and "(\<forall>e \<in> set [cmp_entry pr CmpEq (match_const 0 W64)]. holds e h) \<longleftrightarrow> cell m rg i = 0"
proof -
  have c: "0 \<le> cell m rg i" "cell m rg i < 2 ^ 64" using cell_byte [of m rg i] by simp_all
  have g: "take_bit 64 (le_read (cell m rg) (m_tag_off mi i) (m_key_size mi))
      = le_read (cell m rg) (m_tag_off mi i) (m_key_size mi)"
    using le_read_width(2) [of m rg "m_tag_off mi i" kw] kw by simp
  have r: "0 \<le> take_bit 64 x \<and> take_bit 64 x < 2 ^ 64" for x :: int
    by simp
  have "0 \<le> rd h tg \<and> rd h tg < 2 ^ 64" "0 \<le> rd h t \<and> rd h t < 2 ^ 64"
    using r v(2,3) g key by metis+
  then show "(\<forall>e \<in> set [cmp_entry pr CmpEq (match_const 1 W64), cmp_entry tg CmpEq (match_header t)]. holds e h)
      \<longleftrightarrow> slot_holds mi (cell m rg) key i"
    using v c holds_const [of h pr W64 1 CmpEq] holds_header [of h tg t CmpEq]
    by (simp add: term_defs slot_holds_def)
  show "(\<forall>e \<in> set [cmp_entry pr CmpEq (match_const 0 W64)]. holds e h) \<longleftrightarrow> cell m rg i = 0"
    using v c holds_const [of h pr W64 0 CmpEq] by (simp add: term_defs)
qed

lemma map_key_range: "take_bit 64 (map_key kp kw s h (cell m)) = map_key kp kw s h (cell m)"
  by (simp add: map_key_def le_read_width)

lemma map_key_width: "take_bit (width_bits kw) (map_key kp kw s h (cell m)) = map_key kp kw s h (cell m)"
  by (simp add: map_key_def le_read_width)

lemma lookup_exec:
  assumes em: "emit_map_lookup idx a s = Some (Some arms, a', s')" and ok: "\<not> t_had_error s'" "stack_ok s"
    and mi: "mi = t_maps s ! mp" "mp = nat (ri_mapidx (a_reg a ! 1))" "m_tagged mi"
    and len: "m_length mi \<le> len (REGION_MAP mp)" "m_length mi < 2 ^ 64"
    and st: "exec step (t_ops s) st0 = (h, m)"
    and rdy: "operand_ready (a_reg a ! 2) 2 (width_name (int (m_key_size mi))) s h (ty m) len"
    and pc: "rd (fst st0) H_PC = int (BLOCK_PC start)" "ty (snd st0) H_PC = Some W64" "start \<le> MAX_INSNS" "pc \<le> BLOCK_PC MAX_INSNS"
    and key: "key = map_key (a_reg a ! 2) (width_name (int (m_key_size mi))) s h (cell m)"
    and run: "run_chain xf (drop (length (t_modules s'))
                (t_modules (push_block start cnd (Some arms) pc pc' pc'' s'))) st0 = (h', m')"
  shows "rd h' (H_REG 0) = (case slot_of mi (cell m (REGION_MAP mp)) key of
                               Some i \<Rightarrow> int (m_value_off mi i) | None \<Rightarrow> 0)"
    and "cell m' = cell m" and "rd h' H_PC = int pc" and "ty m' (H_REG 0) = Some W64"
    and "0 < n \<Longrightarrow> n < 11 \<Longrightarrow> rd h' (H_REG n) = rd h (H_REG n) \<and> ty m' (H_REG n) = ty m (H_REG n)"
proof -
  let ?kw = "width_name (int (m_key_size mi))" and ?rg = "REGION_MAP mp"
  obtain t pres tags s1 where k: "m_key_size mi \<in> {1, 2, 4, 8}"
    and r: "read_map_key idx (a_reg a ! 2) ?kw (count_map_site mp (s\<lparr>t_tmp_next := 0\<rparr>)) = (Some t, s1)"
    and e: "emit_slot_headers idx mp mi ?kw s1 = ((pres, tags), s')"
    and arms: "arms = lookup_arms mi t pres tags"
    by (rule emit_map_lookup_tagged [OF em mi])
  note kw = width_name_bytes [OF k]
  have "extends s1 (snd (emit_slot_headers idx mp mi ?kw s1))" by (rule extends_emit_slot_headers [OF extends_refl])
  then have ok1: "\<not> t_had_error s1" using ok e extends_error by simp
  have st': "exec step (t_ops (count_map_site mp (s\<lparr>t_tmp_next := 0\<rparr>))) st0 = (h, m)"
    and sk: "stack_ok (count_map_site mp (s\<lparr>t_tmp_next := 0\<rparr>))"
    using st ok by simp_all
  have rdy': "operand_ready (a_reg a ! 2) 2 ?kw (count_map_site mp (s\<lparr>t_tmp_next := 0\<rparr>)) h (ty m) len"
    using rdy operand_ready_cong [of "count_map_site mp (s\<lparr>t_tmp_next := 0\<rparr>)" s] by (simp add: count_map_site_def)
  obtain h1 m1 where x1: "exec step (t_ops s1) st0 = (h1, m1)" by fastforce
  obtain h2 m2 where x2: "exec step (t_ops s') st0 = (h2, m2)" by fastforce
  from read_map_key_exec [OF r ok1 sk st' rdy', unfolded x1]
  have k1: "30 \<le> t" "t < 30 + t_tmp_next s1" "rd h1 t = key" "cell m1 = cell m"
      "\<And>n. n < 30 \<Longrightarrow> rd h1 n = rd h n \<and> ty m1 n = ty m n" "ty m1 t = Some W64"
    by (auto simp: key)
  from emit_slot_headers_exec [OF e ok(1) x1 kw mi(3) len, unfolded x2]
  have k2: "cell m2 = cell m1" "\<And>n. n < 30 + t_tmp_next s1 \<Longrightarrow> rd h2 n = rd h1 n \<and> ty m2 n = ty m1 n"
      "\<And>i. i < m_nslots mi \<Longrightarrow> rd h2 (pres ! i) = cell m ?rg i
         \<and> rd h2 (tags ! i) = le_read (cell m ?rg) (m_tag_off mi i) (m_key_size mi)
         \<and> 30 \<le> pres ! i \<and> 30 \<le> tags ! i \<and> ty m2 (pres ! i) = Some W64 \<and> ty m2 (tags ! i) = Some W64"
    using k1(4) by auto
  let ?st = "step (set_pc_op (DECIDE_PC start) H_PC) (h2, m2)"
  note d = run_decision [OF pc(1,3,2) x2]
  have tys: "ty (snd ?st) = (ty m2)(H_PC := Some W64)" by (simp only: step_pc snd_conv)
  have typed: "\<forall>i \<in> set [0..<m_nslots mi]. \<forall>e \<in> set [cmp_entry (pres ! i) CmpEq (match_const 1 W64),
      cmp_entry (tags ! i) CmpEq (match_header t)]. entry_typed (ty (snd ?st)) e"
    unfolding tys using k2(3) k2(2) [of t] k1 by auto
  have hdrs: "rd (fst ?st) n = rd h2 n" if "10 \<le> n" for n using d(3) [of n] that by simp
  have cells: "cell (snd ?st) = cell m" using k1(4) k2(1) by (simp only: step_pc snd_conv)
  have sel: "find (\<lambda>i. \<forall>e \<in> set [cmp_entry (pres ! i) CmpEq (match_const 1 W64),
        cmp_entry (tags ! i) CmpEq (match_header t)]. holds e (fst ?st)) [0..<m_nslots mi] = slot_of mi (cell m ?rg) key"
    unfolding slot_of_def
  proof (rule find_arms)
    fix i assume "i \<in> set [0..<m_nslots mi]"
    then have i: "rd (fst ?st) (pres ! i) = cell m ?rg i" "rd (fst ?st) t = key"
        "rd (fst ?st) (tags ! i) = le_read (cell m ?rg) (m_tag_off mi i) (m_key_size mi)"
      using k2(3) [of i] k2(2) [of t] k1 hdrs by auto
    show "(\<forall>e \<in> set [cmp_entry (pres ! i) CmpEq (match_const 1 W64),
        cmp_entry (tags ! i) CmpEq (match_header t)]. holds e (fst ?st)) = slot_holds mi (cell m ?rg) key i"
      using map_key_range by (intro slot_entries_hold [OF i(1,3,2) _ kw]) (simp add: key)
  qed
  have arms': "arms = map (\<lambda>i. ([cmp_entry (pres ! i) CmpEq (match_const 1 W64),
        cmp_entry (tags ! i) CmpEq (match_header t)], [const_op (H_REG 0) (int (m_value_off mi i))])) [0..<m_nslots mi]
      @ [([], [zero_op (H_REG 0)])]"
    by (simp add: arms lookup_arms_def)
  let ?v = "case slot_of mi (cell m ?rg) key of Some i \<Rightarrow> int (m_value_off mi i) | None \<Rightarrow> 0"
  have pct: "ty (snd ?st) H_PC = Some W64" by (simp only: tys fun_upd_same)
  have fin: "(h', m') = step (set_pc_op pc H_PC) (exec step (op_set (H_REG 0) ?v []) ?st)"
    unfolding run [symmetric] d(1) arms' xf_arms [where E = "\<lambda>i. [cmp_entry (pres ! i) CmpEq (match_const 1 W64),
        cmp_entry (tags ! i) CmpEq (match_header t)]", OF d(2) pc(3) pct typed] sel
    using xf_last_arm [OF d(2) pc(3) pct, of pc "op_set (H_REG 0) 0 []" "[default_rule]"]
    by (simp add: const_op_set del: H_PC_def H_REG_def split: option.split)
  have "?v = take_bit 64 ?v"
    using len(2) by (auto split: option.split dest!: slot_of_Some simp: value_off_u64)
  then have h': "h' = (fst ?st)(H_REG 0 \<mapsto> ?v, H_PC \<mapsto> int pc)" and m': "cell m' = cell m"
    and ty': "ty m' = (ty m2)(H_PC := Some W64, H_REG 0 := Some W64, H_PC := Some W64)"
    using arg_cong [where f = fst, OF fin] arg_cong [where f = "\<lambda>x. cell (snd x)", OF fin]
      arg_cong [where f = "\<lambda>x. ty (snd x)", OF fin] pc(4) cells
    by (simp_all add: step_pc take_bit_int_id del: H_PC_def H_REG_def)
  show "cell m' = cell m" by (rule m')
  show "rd h' (H_REG 0) = ?v" "rd h' H_PC = int pc" "ty m' (H_REG 0) = Some W64" by (simp_all add: h' ty')
  show "0 < n \<Longrightarrow> n < 11 \<Longrightarrow> rd h' (H_REG n) = rd h (H_REG n) \<and> ty m' (H_REG n) = ty m (H_REG n)"
    using hdrs [of "H_REG n"] k2(2) [of "H_REG n"] k1(1,2,5) by (simp add: h' ty')
qed

end

section \<open>A key of another width\<close>

context region_machine
begin

lemma xf_error_arms:
  assumes "\<forall>i \<in> set js. \<exists>e \<in> set (E i). entry_error (ty (snd st)) e"
  shows "xf (map (arm_rule start pc) (map (\<lambda>i. (E i, body i)) js @ rest) @ [default_rule]) st
       = xf (map (arm_rule start pc) rest @ [default_rule]) st"
  using assms
proof (induction js)
  case (Cons i js)
  then obtain e where "e \<in> set (E i)" "entry_error (ty (snd st)) e" by auto
  then show ?case using Cons xf_error [of e "pc_entry (DECIDE_PC start) # E i" st] by auto
qed simp

text \<open>A stack slot that carries another width than the key's is read as \<open>ErrorVal\<close>, which no tag equals.\<close>

lemma lookup_mistyped_exec:
  assumes em: "emit_map_lookup idx a s = Some (Some arms, a', s')" and ok: "\<not> t_had_error s'" "stack_ok s"
    and mi: "mi = t_maps s ! mp" "mp = nat (ri_mapidx (a_reg a ! 1))" "m_tagged mi"
    and len: "m_length mi \<le> len (REGION_MAP mp)" "m_length mi < 2 ^ 64"
    and st: "exec step (t_ops s) st0 = (h, m)"
    and slot: "ri_tag (a_reg a ! 2) = T_STACK" "t_stack_hdr_of s (- ri_off (a_reg a ! 2)) = Some sh"
      "ty m sh \<noteq> Some (width_name (int (m_key_size mi)))"
    and pc: "rd (fst st0) H_PC = int (BLOCK_PC start)" "ty (snd st0) H_PC = Some W64" "start \<le> MAX_INSNS" "pc \<le> BLOCK_PC MAX_INSNS"
    and run: "run_chain xf (drop (length (t_modules s'))
                (t_modules (push_block start cnd (Some arms) pc pc' pc'' s'))) st0 = (h', m')"
  shows "rd h' (H_REG 0) = 0" and "cell m' = cell m" and "rd h' H_PC = int pc"
    and "0 < n \<Longrightarrow> n < 11 \<Longrightarrow> rd h' (H_REG n) = rd h (H_REG n)"
proof -
  let ?kw = "width_name (int (m_key_size mi))" and ?rg = "REGION_MAP mp" and ?s0 = "count_map_site mp (s\<lparr>t_tmp_next := 0\<rparr>)"
  obtain t pres tags s1 where k: "m_key_size mi \<in> {1, 2, 4, 8}"
    and r: "read_map_key idx (a_reg a ! 2) ?kw ?s0 = (Some t, s1)"
    and e: "emit_slot_headers idx mp mi ?kw s1 = ((pres, tags), s')"
    and arms: "arms = lookup_arms mi t pres tags"
    by (rule emit_map_lookup_tagged [OF em mi])
  have kw: "width_bytes ?kw = m_key_size mi" by (rule width_name_bytes [OF k])
  obtain t0 s0 where f: "fresh_tmp idx ?s0 = (t0, s0)" by fastforce
  have "extends s1 (snd (emit_slot_headers idx mp mi ?kw s1))" by (rule extends_emit_slot_headers [OF extends_refl])
  then have ok1: "\<not> t_had_error s1" using ok e extends_error by simp
  with r slot(1) f have "\<not> t_had_error s0"
    by (auto simp: read_map_key_def Let_def split_beta split: if_splits)
  with f have t0: "t0 = 30" "s0 = ?s0\<lparr>t_tmp_next := 1\<rparr>"
    using fresh_tmp_error [OF f] by auto
  let ?slot = "- ri_off (a_reg a ! 2)"
  have sh: "stack_header ?slot s0 = (fst (stack_header ?slot s0), s0)" "fst (stack_header ?slot s0) \<in> {0, sh}"
    using slot(2) by (simp_all add: stack_header_def t0(2) count_map_site_def)
  from r [unfolded read_map_key_def Let_def f split_beta fst_conv snd_conv] slot(1)
  have "fst (stack_header ?slot s0) \<noteq> 0" "t = t0" "s1 = emit (op_cast ?kw W64 (hdr (fst (stack_header ?slot s0))) t0) (snd (stack_header ?slot s0))"
    by (auto split: if_splits)
  with sh have "t = t0" "s1 = emit (op_cast ?kw W64 (hdr sh) t0) s0"
    by (metis insertE singletonD snd_conv)+
  then have s1: "t = 30" "t_ops s1 = op_cast ?kw W64 (hdr sh) 30 (t_ops s)" "t_tmp_next s1 = 1"
    by (simp_all add: t0)
  obtain h1 m1 where x1: "exec step (t_ops s1) st0 = (h1, m1)" by fastforce
  obtain h2 m2 where x2: "exec step (t_ops s') st0 = (h2, m2)" by fastforce
  have "\<not> has_width (ty (snd (exec step (t_ops s) st0))) (hdr sh) ?kw" using st slot(3) by simp
  from exec_cast_error [OF this, where t = 30 and w' = W64, folded s1(2), unfolded x1 st]
  have k1: "cell m1 = cell m" "ty m1 = (ty m)(30 := None)" "\<And>n. n \<noteq> 30 \<Longrightarrow> rd h1 n = rd h n" by simp_all
  from emit_slot_headers_exec [OF e ok(1) x1 kw mi(3) len, unfolded x2]
  have k2: "cell m2 = cell m" "ty m2 30 = None" "\<And>n. n < 30 \<Longrightarrow> rd h2 n = rd h n" using k1 s1(3) by simp_all
  let ?st = "step (set_pc_op (DECIDE_PC start) H_PC) (h2, m2)"
  note d = run_decision [OF pc(1,3,2) x2]
  have tys: "ty (snd ?st) = (ty m2)(H_PC := Some W64)" by (simp only: step_pc snd_conv)
  then have err: "\<forall>i \<in> set [0..<m_nslots mi]. \<exists>e \<in> set [cmp_entry (pres ! i) CmpEq (match_const 1 W64),
      cmp_entry (tags ! i) CmpEq (match_header t)]. entry_error (ty (snd ?st)) e"
    using k2(2) by (simp add: s1(1) term_defs)
  have pct: "ty (snd ?st) H_PC = Some W64" by (simp only: tys fun_upd_same)
  have "(h', m') = step (set_pc_op pc H_PC) (exec step (op_set (H_REG 0) 0 []) ?st)"
    unfolding run [symmetric] d(1) arms lookup_arms_def xf_error_arms [where E = "\<lambda>i. [cmp_entry (pres ! i) CmpEq (match_const 1 W64),
      cmp_entry (tags ! i) CmpEq (match_header t)]", OF err] const_op_set
    by (rule xf_last_arm [OF d(2) pc(3) pct])
  from arg_cong [where f = fst, OF this] arg_cong [where f = "\<lambda>x. cell (snd x)", OF this]
  have "h' = (fst ?st)(H_REG 0 \<mapsto> 0, H_PC \<mapsto> int pc)" "cell m' = cell m"
    using pc(4) k2(1) by (simp_all add: step_pc take_bit_int_id del: H_PC_def H_REG_def)
  then show "rd h' (H_REG 0) = 0" "cell m' = cell m" "rd h' H_PC = int pc"
    "0 < n \<Longrightarrow> n < 11 \<Longrightarrow> rd h' (H_REG n) = rd h (H_REG n)"
    using k2(3) [of "H_REG n"] d(3) [of "H_REG n"] by simp_all
qed

end

section \<open>Writing a slot\<close>

text \<open>What an arm of an update does to the cells: an insert claims the slot before the value is written.\<close>

definition write_slot :: "map_info \<Rightarrow> cells \<Rightarrow> nat \<Rightarrow> bool \<Rightarrow> int \<Rightarrow> int \<Rightarrow> cells" where
  "write_slot mi c i ins k v =
     le_write (if ins then le_write (le_write c (m_tag_off mi i) (m_key_size mi) k) i 1 1 else c)
       (m_value_off mi i) (m_value_size mi) v"

text \<open>The slot an update writes: the key's, or the first free one of a map that is not full.\<close>

definition target_slot :: "map_info \<Rightarrow> cells \<Rightarrow> int \<Rightarrow> nat option" where
  "target_slot mi c k =
     (case slot_of mi c k of
        Some i \<Rightarrow> Some i
      | None \<Rightarrow> if c (m_full_off mi) = 1 then None else find (\<lambda>i. c i = 0) [0..<m_nslots mi])"

lemma offsets_apart:
  assumes "i < m_nslots mi" "j < m_nslots mi" "m_tagged mi"
  shows "i \<noteq> j \<Longrightarrow> m_tag_off mi i + m_key_size mi \<le> m_tag_off mi j \<or> m_tag_off mi j + m_key_size mi \<le> m_tag_off mi i"
    and "i \<noteq> j \<Longrightarrow> m_value_off mi i + m_value_size mi \<le> m_value_off mi j \<or> m_value_off mi j + m_value_size mi \<le> m_value_off mi i"
    and "m_tag_off mi i + m_key_size mi \<le> m_value_off mi j" "i < m_tag_off mi j" "i < m_value_off mi j"
proof -
  have "i \<noteq> j \<Longrightarrow> i * k + k \<le> j * k \<or> j * k + k \<le> i * k" for k
    using slot_interval_le [of i j k] slot_interval_le [of j i k] by linarith
  then show "i \<noteq> j \<Longrightarrow> m_tag_off mi i + m_key_size mi \<le> m_tag_off mi j \<or> m_tag_off mi j + m_key_size mi \<le> m_tag_off mi i"
    "i \<noteq> j \<Longrightarrow> m_value_off mi i + m_value_size mi \<le> m_value_off mi j \<or> m_value_off mi j + m_value_size mi \<le> m_value_off mi i"
    by (auto simp: layout_defs)
  show "m_tag_off mi i + m_key_size mi \<le> m_value_off mi j" "i < m_tag_off mi j" "i < m_value_off mi j"
    using assms slot_interval_end [of i "m_nslots mi" "m_key_size mi"] by (auto simp: layout_defs)
qed

lemma write_slot_parts:
  assumes i: "i < m_nslots mi" and j: "j < m_nslots mi" and tagged: "m_tagged mi"
    and k: "0 \<le> k" "k < 256 ^ m_key_size mi" and v: "0 \<le> v" "v < 256 ^ m_value_size mi"
  shows "write_slot mi c i ins k v j = (if ins \<and> j = i then 1 else c j)"
    and "le_read (write_slot mi c i ins k v) (m_tag_off mi j) (m_key_size mi)
        = (if ins \<and> j = i then k else le_read c (m_tag_off mi j) (m_key_size mi))"
    and "slot_value mi (write_slot mi c i ins k v) j = (if j = i then v else slot_value mi c j)"
    and "write_slot mi c i ins k v (m_full_off mi) = c (m_full_off mi)"
proof -
  note ap = offsets_apart [OF i j tagged] offsets_apart [OF j i tagged] offsets_apart [OF i i tagged]
  note en = value_off_end [OF i] value_off_end [OF j]
  show "write_slot mi c i ins k v j = (if ins \<and> j = i then 1 else c j)"
    using ap by (auto simp: write_slot_def le_write_def)
  show "le_read (write_slot mi c i ins k v) (m_tag_off mi j) (m_key_size mi)
        = (if ins \<and> j = i then k else le_read c (m_tag_off mi j) (m_key_size mi))"
    using ap le_read_write_same [OF k] by (auto simp: write_slot_def le_read_write_other)
  show "slot_value mi (write_slot mi c i ins k v) j = (if j = i then v else slot_value mi c j)"
    using ap le_read_write_same [OF v] by (auto simp: write_slot_def slot_value_def le_read_write_other)
  have "m_tag_off mi i + m_key_size mi \<le> m_full_off mi" "i < m_full_off mi"
    using ap(13) ap(15) en(1) by linarith+
  then show "write_slot mi c i ins k v (m_full_off mi) = c (m_full_off mi)"
    using en(1) by (auto simp: write_slot_def le_write_def)
qed

lemma find_None_cong: "find P js = None \<longleftrightarrow> (\<forall>i \<in> set js. \<not> P i)"
  by (auto simp: find_None_iff)

lemma find_only:
  "j \<in> set js \<Longrightarrow> P j \<Longrightarrow> (\<And>i. i \<in> set js \<Longrightarrow> i \<noteq> j \<Longrightarrow> \<not> P i) \<Longrightarrow> find P js = Some j"
  by (induction js) auto

text \<open>The update of the abstract map: the written slot holds the new value of the key, and no other key is touched.\<close>

lemma write_slot_amap:
  assumes t: "target_slot mi c k = Some i" and tagged: "m_tagged mi"
    and ins: "ins \<longleftrightarrow> slot_of mi c k = None"
    and k: "0 \<le> k" "k < 256 ^ m_key_size mi" and v: "0 \<le> v" "v < 256 ^ m_value_size mi"
  shows "i < m_nslots mi" and "amap mi (write_slot mi c i ins k v) = (amap mi c)(k \<mapsto> v)"
proof -
  have i: "i < m_nslots mi \<and> (if ins then c i = 0 else slot_holds mi c k i)"
    using t ins by (auto simp: target_slot_def find_Some_iff dest: slot_of_Some split: option.splits if_splits)
  then show "i < m_nslots mi" by blast
  let ?c = "write_slot mi c i ins k v"
  note p = write_slot_parts [OF conjunct1 [OF i] _ tagged k v]
  have holds: "slot_holds mi ?c x j = (if ins \<and> j = i then x = k else slot_holds mi c x j)" if "j < m_nslots mi" for x j
    using p(1,2) [OF that] by (auto simp: slot_holds_def)
  have sl: "slot_of mi ?c x = (if x = k then Some i else slot_of mi c x)" for x
  proof (cases "x = k")
    case True
    show ?thesis
    proof (cases ins)
      case True
      then have "\<not> slot_holds mi c k j" if "j < m_nslots mi" for j
        using ins that by (auto simp: slot_of_def find_None_iff)
      then have "slot_of mi ?c k = Some i"
        unfolding slot_of_def using i holds True by (intro find_only) auto
      with \<open>x = k\<close> show ?thesis by simp
    next
      case False
      then have "slot_of mi ?c k = slot_of mi c k"
        unfolding slot_of_def using holds by (intro find_arms) auto
      moreover have "slot_of mi c k = Some i" using False ins t by (auto simp: target_slot_def)
      ultimately show ?thesis using \<open>x = k\<close> by simp
    qed
  next
    case False
    have "slot_of mi ?c x = slot_of mi c x"
      unfolding slot_of_def using holds i False
      by (intro find_arms) (auto simp: slot_holds_def split: if_splits)
    with False show ?thesis by simp
  qed
  show "amap mi ?c = (amap mi c)(k \<mapsto> v)"
  proof
    fix x
    show "amap mi ?c x = ((amap mi c)(k \<mapsto> v)) x"
    proof (cases "x = k")
      case True
      then show ?thesis using sl p(3) [of i] i by (simp add: amap_def)
    next
      case False
      have "slot_value mi ?c j = slot_value mi c j" if "slot_of mi c x = Some j" for j
        using slot_of_Some [OF that] i False p(3) [of j] by (auto simp: slot_holds_def split: if_splits)
      with False show ?thesis using sl by (cases "slot_of mi c x") (simp_all add: amap_def)
    qed
  qed
qed

section \<open>The arms of an update\<close>

text \<open>The value a helper is called with: in a stack slot, or in a region at the address in register 3.\<close>

definition map_value :: "reg_info \<Rightarrow> nat \<Rightarrow> tstate \<Rightarrow> hdrs \<Rightarrow> (nat \<Rightarrow> cells) \<Rightarrow> int" where
  "map_value vp n s h c =
     (if ri_tag vp = T_STACK then take_bit (8 * n) (rd h (fst (stack_header (- ri_off vp) s)))
      else le_read (c (region_of vp s)) (nat (rd h (H_REG 3))) n)"

lemma le_write_take_bit: "le_write c ofs n (take_bit (8 * n) v) = le_write c ofs n v"
proof -
  have "take_bit (8 * n) v div 256 ^ j mod 256 = v div 256 ^ j mod 256" if "j < n" for j
  proof -
    have e: "(256::int) ^ j = 2 ^ (8 * j)" by (simp add: power_mult)
    have "take_bit 8 (drop_bit (8 * j) (take_bit (8 * n) v)) = take_bit 8 (drop_bit (8 * j) v)"
      using that by (intro bit_eqI) (auto simp: bit_simps)
    then show ?thesis by (simp add: e take_bit_eq_mod drop_bit_eq_div)
  qed
  then show ?thesis by (auto simp: le_write_def fun_eq_iff)
qed

lemma copy_map_value_small:
  assumes "copy_map_value idx vp mi mp dest ops s = ((True, ops'), s')" "m_value_size mi \<in> {1, 2, 4, 8}"
    and "\<not> t_had_error s'" and "ri_tag vp = T_STACK \<Longrightarrow> t_stack_hdr_of s (- ri_off vp) = Some sh"
  shows "if ri_tag vp = T_STACK
      then s' = s \<and> fst (stack_header (- ri_off vp) s) = sh
         \<and> ops' = op_store (width_name (int (m_value_size mi))) (REGION_MAP mp) dest (hdr sh) ops
      else s' = s\<lparr>t_tmp_next := Suc (t_tmp_next s)\<rparr>
         \<and> ops' = op_store (width_name (int (m_value_size mi))) (REGION_MAP mp) dest (hdr (30 + t_tmp_next s))
             (op_load (width_name (int (m_value_size mi))) (region_of vp s) (hdr (H_REG 3)) (30 + t_tmp_next s) ops)"
proof (cases "ri_tag vp = T_STACK")
  case True
  with assms(4) have "t_stack_hdr_of s (- ri_off vp) = Some sh" by blast
  then have "stack_header (- ri_off vp) s = (sh, s) \<or> stack_header (- ri_off vp) s = (0, s)"
    by (simp add: stack_header_def)
  with True assms(1,2) show ?thesis
    by (auto simp: copy_map_value_def Let_def split: if_splits)
next
  case False
  obtain t1 s1 where f: "fresh_tmp idx s = (t1, s1)" by fastforce
  from False assms(1,2) f have e: "s' = s1" "ops' = op_store (width_name (int (m_value_size mi))) (REGION_MAP mp) dest (hdr t1)
      (op_load (width_name (int (m_value_size mi))) (region_of vp s) (hdr (H_REG 3)) t1 ops)"
    by (auto simp: copy_map_value_def Let_def simp del: insert_iff split: if_splits)
  with assms(3) fresh_tmp_error [OF f] have "t_tmp_next s < 64" by blast
  with f e False show ?thesis by auto
qed

context region_machine
begin

lemma arm_exec:
  assumes ar: "arm_ops idx mp mi vp kw t_tag n0 i ins s = (Some ops, s')" and ok: "\<not> t_had_error s'"
    and i: "i < m_nslots mi" and tagged: "m_tagged mi" and vs: "m_value_size mi \<in> {1, 2, 4, 8}"
    and kw: "width_bytes kw = m_key_size mi"
    and len: "m_length mi \<le> len (REGION_MAP mp)" "m_length mi < 2 ^ 64"
    and tag: "rd h t_tag = key" "ty m t_tag = Some kw"
    and rdy: "operand_ready vp 3 (width_name (int (m_value_size mi))) s h (ty m) len"
    and rv: "ri_tag vp \<noteq> T_STACK \<and> region_of vp s = REGION_MAP mp \<Longrightarrow> m_value_base mi \<le> nat (rd h (H_REG 3))"
    and v: "v = map_value vp (m_value_size mi) s h (cell m)"
  shows "t_maps s' = t_maps s" "t_stack_hdr_of s' = t_stack_hdr_of s" "t_ops s' = t_ops s"
    "rd (fst (exec step ops (h, m))) (H_REG 0) = 0" "n < 30 \<Longrightarrow> n \<noteq> H_REG 0 \<Longrightarrow> rd (fst (exec step ops (h, m))) n = rd h n
       \<and> ty (snd (exec step ops (h, m))) n = ty m n"
    "ty (snd (exec step ops (h, m))) (H_REG 0) = Some W64"
    "cell (snd (exec step ops (h, m))) = (cell m)(REGION_MAP mp := write_slot mi (cell m (REGION_MAP mp)) i ins key v)"
proof -
  let ?rg = "REGION_MAP mp" and ?vw = "width_name (int (m_value_size mi))"
  define ops0 where "ops0 = (if ins then op_store W8 ?rg (konst (int i)) (konst 1)
      (op_store kw ?rg (konst (int (m_tag_off mi i))) (hdr t_tag) []) else [])"
  define c1 where "c1 = (if ins then le_write (le_write (cell m ?rg) (m_tag_off mi i) (m_key_size mi) key) i 1 1 else cell m ?rg)"
  obtain ops1 s1 where cp: "copy_map_value idx vp mi mp (konst (int (m_value_off mi i))) ops0 (s\<lparr>t_tmp_next := n0\<rparr>) = ((True, ops1), s')"
    and ops: "ops = op_set (H_REG 0) 0 ops1"
    using ar by (auto simp: arm_ops_def Let_def split_beta prod_eq_iff ops0_def split: if_splits)
  note ap = offsets_apart [OF i i tagged] and vo = value_off_end [OF i]
  have bd: "m_tag_off mi i + width_bytes kw \<le> len ?rg" "i + 1 \<le> len ?rg" "m_value_off mi i + width_bytes ?vw \<le> len ?rg"
    "int (m_tag_off mi i) < 2 ^ 64" "int i < 2 ^ 64"
    using ap(3,5) vo len kw width_name_bytes [OF vs] by (simp_all add: m_length_def)
  have o64: "take_bit 64 (int (m_tag_off mi i)) = int (m_tag_off mi i)" "take_bit 64 (int i) = int i"
    "take_bit 64 (int (m_value_off mi i)) = int (m_value_off mi i)"
    using bd(4,5) value_off_u64 [OF i len(2)] by (simp_all add: take_bit_int_id)
  have x0: "fst (exec step ops0 (h, m)) = h" "cell (snd (exec step ops0 (h, m))) = (cell m)(?rg := c1)"
    "ty (snd (exec step ops0 (h, m))) = ty m"
    using exec_store [of "[]" "(h, m)" "konst (int (m_tag_off mi i))" kw ?rg "hdr t_tag"]
      exec_store [of "op_store kw ?rg (konst (int (m_tag_off mi i))) (hdr t_tag) []" "(h, m)" "konst (int i)" W8 ?rg "konst 1"]
      bd tag o64 kw
    by (auto simp: ops0_def c1_def konst_take_bit hdr_def)
  define sh where "sh = the (t_stack_hdr_of s (- ri_off vp))"
  have sv: "t_stack_hdr_of s (- ri_off vp) = Some sh \<and> ty m sh = Some ?vw" if "ri_tag vp = T_STACK"
    using that rdy by (auto simp: operand_ready_def sh_def split: option.splits)
  note cs = copy_map_value_small [OF cp vs ok, of sh]
  have src_kept: "le_read (((cell m)(?rg := c1)) (region_of vp s)) (nat (rd h (H_REG 3))) (m_value_size mi)
      = le_read (cell m (region_of vp s)) (nat (rd h (H_REG 3))) (m_value_size mi)" if "ri_tag vp \<noteq> T_STACK"
  proof (cases "region_of vp s = ?rg")
    case True
    with rv that have "m_value_base mi \<le> nat (rd h (H_REG 3))" by blast
    moreover have "m_tag_off mi i + m_key_size mi \<le> m_value_base mi" "i + 1 \<le> m_value_base mi"
      using i tagged slot_interval_end [OF i, of "m_key_size mi"] by (simp_all add: layout_defs)
    ultimately show ?thesis using True by (simp add: c1_def le_read_write_other)
  qed simp
  have w: "width_bytes ?vw = m_value_size mi" "width_bits ?vw = 8 * m_value_size mi"
    using width_name_bytes [OF vs] vs by (auto simp: width_name_def)
  have "t_maps s' = t_maps s \<and> t_stack_hdr_of s' = t_stack_hdr_of s \<and> t_ops s' = t_ops s
      \<and> (\<forall>n < 30. rd (fst (exec step ops1 (h, m))) n = rd h n \<and> ty (snd (exec step ops1 (h, m))) n = ty m n)
      \<and> cell (snd (exec step ops1 (h, m))) = (cell m)(?rg := write_slot mi (cell m ?rg) i ins key v)"
  proof (cases "ri_tag vp = T_STACK")
    case True
    with cs sv have s': "s' = s\<lparr>t_tmp_next := n0\<rparr>" "fst (stack_header (- ri_off vp) s) = sh"
      "ops1 = op_store ?vw ?rg (konst (int (m_value_off mi i))) (hdr sh) ops0" by simp_all
    then have "write_slot mi (cell m ?rg) i ins key v = le_write c1 (m_value_off mi i) (m_value_size mi) (rd h sh)"
      using True by (simp add: write_slot_def c1_def v map_value_def le_write_take_bit)
    with exec_store [of ops0 "(h, m)" "konst (int (m_value_off mi i))" ?vw ?rg "hdr sh"] s' x0 o64 bd(3) sv [OF True] w
    show ?thesis by (auto simp: konst_take_bit hdr_def)
  next
    case False
    let ?t = "30 + n0" and ?l = "op_load ?vw (region_of vp s) (hdr (H_REG 3)) (30 + n0) ops0"
    from cs False have s': "s' = s\<lparr>t_tmp_next := Suc n0\<rparr>"
      "ops1 = op_store ?vw ?rg (konst (int (m_value_off mi i))) (hdr ?t) ?l" by simp_all
    have ld: "fst (exec step ?l (h, m)) = h(?t \<mapsto> v)" "cell (snd (exec step ?l (h, m))) = (cell m)(?rg := c1)"
        "ty (snd (exec step ?l (h, m))) = (ty m)(?t := Some ?vw)"
      using exec_load [of ops0 "(h, m)" "hdr (H_REG 3)" ?vw "region_of vp s" ?t] rdy [unfolded operand_ready_def] src_kept [OF False] w x0 False
      by (simp_all add: v map_value_def hdr_def)
    have "write_slot mi (cell m ?rg) i ins key v = le_write c1 (m_value_off mi i) (m_value_size mi) v"
      by (simp add: write_slot_def c1_def)
    with exec_store [of ?l "(h, m)" "konst (int (m_value_off mi i))" ?vw ?rg "hdr ?t"] s' ld o64 bd(3) w
    show ?thesis by (auto simp: konst_take_bit hdr_def)
  qed
  then show "t_maps s' = t_maps s" "t_stack_hdr_of s' = t_stack_hdr_of s" "t_ops s' = t_ops s"
    "rd (fst (exec step ops (h, m))) (H_REG 0) = 0" "n < 30 \<Longrightarrow> n \<noteq> H_REG 0 \<Longrightarrow> rd (fst (exec step ops (h, m))) n = rd h n
       \<and> ty (snd (exec step ops (h, m))) n = ty m n"
    "ty (snd (exec step ops (h, m))) (H_REG 0) = Some W64"
    "cell (snd (exec step ops (h, m))) = (cell m)(REGION_MAP mp := write_slot mi (cell m (REGION_MAP mp)) i ins key v)"
    by (simp_all add: ops)
qed

end

text \<open>The arms that \<open>slot_arms\<close> builds, from what one of them does.\<close>

lemma slot_arms_all:
  assumes one: "\<And>i s ops s1. i \<in> set js \<Longrightarrow> I s \<Longrightarrow> mk i s = (Some ops, s1) \<Longrightarrow> \<not> t_had_error s1 \<Longrightarrow> I s1 \<and> Q i ops"
    and ext: "\<And>i s r s1. mk i s = (r, s1) \<Longrightarrow> extends s s1 \<and> (\<forall>ops. r = Some ops \<longrightarrow> safe_ops ops)"
  shows "slot_arms mk entries js s = (Some arms, s') \<Longrightarrow> distinct js \<Longrightarrow> I s \<Longrightarrow> \<not> t_had_error s' \<Longrightarrow>
    I s' \<and> (\<exists>body. arms = map (\<lambda>i. (entries i, body i)) js \<and> (\<forall>i \<in> set js. Q i (body i)))"
  using one
proof (induction js arbitrary: s arms)
  case (Cons i js)
  obtain r s1 where m: "mk i s = (r, s1)" by fastforce
  obtain ra s2 where rest: "slot_arms mk entries js s1 = (ra, s2)" by fastforce
  from Cons.prems(1) m rest obtain ops arms1 where
    e: "r = Some ops" "ra = Some arms1" "s2 = s'" "arms = (entries i, ops) # arms1"
    by (auto split: option.splits)
  have ok1: "\<not> t_had_error s1"
    using slot_arms_frame [where mk = mk, OF _ rest] ext e(3) Cons.prems(4) extends_error by blast
  have i: "I s1 \<and> Q i ops" using Cons.prems(5) [of i s ops s1] Cons.prems(3) m e(1) ok1 by simp
  have "I s' \<and> (\<exists>body. arms1 = map (\<lambda>i. (entries i, body i)) js \<and> (\<forall>i \<in> set js. Q i (body i)))"
    using Cons.prems(2,4,5) i rest e by (intro Cons.IH [of s1]) auto
  then obtain body where b: "I s'" "arms1 = map (\<lambda>i. (entries i, body i)) js" "\<forall>i \<in> set js. Q i (body i)"
    by blast
  have "arms = map (\<lambda>j. (entries j, (body(i := ops)) j)) (i # js)"
    using b(2) e(4) Cons.prems(2) by simp
  moreover have "\<forall>j \<in> set (i # js). Q j ((body(i := ops)) j)" using b(3) i by auto
  ultimately show ?case using b(1) by blast
qed simp

lemma read_cells_stack: "t_stack_hdr_of (snd (read_cells idx rg w t_raw offs s)) = t_stack_hdr_of s"
  by (induction offs arbitrary: s) (simp_all add: Let_def split_beta fresh_tmp_def emit_def)

lemma stack_hdr_kept:
  "t_stack_hdr_of s x = Some y \<Longrightarrow> t_stack_hdr_of (snd (read_map_key idx kp kw s)) x = Some y"
  "t_stack_hdr_of (snd (emit_slot_headers idx mp mi kw s)) = t_stack_hdr_of s"
  "t_stack_hdr_of (snd (fresh_tmp idx s)) = t_stack_hdr_of s" "t_stack_hdr_of (emit f s) = t_stack_hdr_of s"
  by (auto simp: read_map_key_def emit_slot_headers_def read_cells_stack Let_def split_beta fresh_tmp_def emit_def
      stack_header_def split: option.split)

text \<open>What an accepted update of a hash map emits.\<close>

lemma emit_map_update_tagged:
  assumes "emit_map_update idx a s = Some (Some arms, a', s')"
    and "mi = t_maps s ! mp" "mp = nat (ri_mapidx (a_reg a ! 1))" "m_tagged mi"
    and kw: "kw = width_name (int (m_key_size mi))"
  obtains t pres tags s1 s2 t_tag s3 t_raw s4 t_full s5 s6 hits inserts s7 where "m_key_size mi \<in> {1, 2, 4, 8}"
    "read_map_key idx (a_reg a ! 2) kw (count_map_site mp (s\<lparr>t_tmp_next := 0\<rparr>)) = (Some t, s1)"
    "emit_slot_headers idx mp mi kw s1 = ((pres, tags), s2)"
    "fresh_tmp idx s2 = (t_tag, s3)" "fresh_tmp idx (emit (op_cast W64 kw (hdr t) t_tag) s3) = (t_raw, s4)"
    "fresh_tmp idx s4 = (t_full, s5)"
    "s6 = emit (op_cast W8 W64 (hdr t_raw) t_full) (emit (op_load W8 (REGION_MAP mp) (konst (int (m_full_off mi))) t_raw) s5)"
    "slot_arms (\<lambda>i. arm_ops idx mp mi (a_reg a ! 3) kw t_tag (t_tmp_next s6) i False)
       (\<lambda>i. [cmp_entry (pres ! i) CmpEq (match_const 1 W64), cmp_entry (tags ! i) CmpEq (match_header t)])
       [0..<m_nslots mi] s6 = (Some hits, s7)"
    "slot_arms (\<lambda>i. arm_ops idx mp mi (a_reg a ! 3) kw t_tag (t_tmp_next s6) i True)
       (\<lambda>i. [cmp_entry (pres ! i) CmpEq (match_const 0 W64)]) [0..<m_nslots mi] s7 = (Some inserts, s')"
    "arms = hits @ [([cmp_entry t_full CmpEq (match_const 1 W64)], [const_op (H_REG 0) (- E2BIG)])]
       @ inserts @ [([], [const_op (H_REG 0) (- E2BIG)])]"
proof -
  let ?s = "count_map_site mp (s\<lparr>t_tmp_next := 0\<rparr>)"
  have k: "m_key_size mi \<in> {1, 2, 4, 8}"
    and res: "emit_tagged_update idx mp mi (a_reg a ! 2) (a_reg a ! 3) kw ?s = (Some arms, s')"
    using assms tagged_not_array [OF assms(4)]
    by (auto simp: emit_map_update_def Let_def split_beta prod_eq_iff simp del: insert_iff
        split: if_splits option.splits)
  with that kw show ?thesis
    by (auto simp: emit_tagged_update_def Let_def split: option.splits prod.splits)
qed

lemma fresh_tmp_taken:
  "fresh_tmp idx s = (t, s') \<Longrightarrow> \<not> t_had_error s' \<Longrightarrow>
   t = 30 + t_tmp_next s \<and> s' = s\<lparr>t_tmp_next := Suc (t_tmp_next s)\<rparr> \<and> t_tmp_next s < 64 \<and> \<not> t_had_error s"
  using fresh_tmp_error [of idx s t s'] by auto

lemma map_value_cong:
  "t_maps s' = t_maps s \<Longrightarrow> t_stack_hdr_of s' = t_stack_hdr_of s \<Longrightarrow>
   (ri_tag vp = T_STACK \<Longrightarrow> t_stack_hdr_of s (- ri_off vp) = Some sh) \<Longrightarrow>
   map_value vp n s' h c = map_value vp n s h c \<and> region_of vp s' = region_of vp s"
  by (auto simp: map_value_def stack_header_def region_of_def)

context region_machine
begin

text \<open>The state the arms of an update are decided in.\<close>

lemma update_headers_exec:
  assumes rk: "read_map_key idx kp kw sA = (Some t, s1)" and hd: "emit_slot_headers idx mp mi kw s1 = ((pres, tags), s2)"
    and tt: "fresh_tmp idx s2 = (t_tag, s3)" "fresh_tmp idx (emit (op_cast W64 kw (hdr t) t_tag) s3) = (t_raw, s4)"
      "fresh_tmp idx s4 = (t_full, s5)"
    and s6: "s6 = emit (op_cast W8 W64 (hdr t_raw) t_full) (emit (op_load W8 (REGION_MAP mp) (konst (int (m_full_off mi))) t_raw) s5)"
    and ok: "\<not> t_had_error s6" "stack_ok sA" and tagged: "m_tagged mi" and kw: "width_bytes kw = m_key_size mi"
    and len: "m_length mi \<le> len (REGION_MAP mp)" "m_length mi < 2 ^ 64"
    and st: "exec step (t_ops sA) st0 = (h, m)"
    and rdy: "operand_ready kp 2 kw sA h (ty m) len"
    and key: "key = map_key kp kw sA h (cell m)" and x6: "exec step (t_ops s6) st0 = (h6, m6)"
  shows "t_maps s6 = t_maps sA" "cell m6 = cell m" "rd h6 t_tag = key" "ty m6 t_tag = Some kw" "rd h6 t = key"
    "rd h6 t_full = cell m (REGION_MAP mp) (m_full_off mi)" "30 \<le> t" "30 \<le> t_full"
    "n < 30 \<or> 100 \<le> n \<Longrightarrow> rd h6 n = rd h n \<and> ty m6 n = ty m n"
    "i < m_nslots mi \<Longrightarrow> rd h6 (pres ! i) = cell m (REGION_MAP mp) i
       \<and> rd h6 (tags ! i) = le_read (cell m (REGION_MAP mp)) (m_tag_off mi i) (m_key_size mi)
       \<and> 30 \<le> pres ! i \<and> 30 \<le> tags ! i \<and> ty m6 (pres ! i) = Some W64 \<and> ty m6 (tags ! i) = Some W64"
    "t_stack_hdr_of sA x = Some y \<Longrightarrow> t_stack_hdr_of s6 x = Some y"
    "ty m6 t = Some W64" "ty m6 t_full = Some W64"
proof -
  let ?rg = "REGION_MAP mp"
  note f5 = fresh_tmp_taken [OF tt(3)] and f4 = fresh_tmp_taken [OF tt(2)] and f3 = fresh_tmp_taken [OF tt(1)]
  have ok5: "\<not> t_had_error s5" "\<not> t_had_error s4" "\<not> t_had_error s3" "\<not> t_had_error s2"
    using ok(1) s6 f5 f4 f3 by auto
  have "extends s1 (snd (emit_slot_headers idx mp mi kw s1))" by (rule extends_emit_slot_headers [OF extends_refl])
  then have ok1: "\<not> t_had_error s1" using ok5(4) hd extends_error by simp
  obtain h1 m1 where x1: "exec step (t_ops s1) st0 = (h1, m1)" by fastforce
  obtain h2 m2 where x2: "exec step (t_ops s2) st0 = (h2, m2)" by fastforce
  from read_map_key_exec [OF rk ok1 ok(2) st rdy, unfolded x1]
  have k1: "30 \<le> t" "t < 30 + t_tmp_next s1" "rd h1 t = key" "cell m1 = cell m" "t_maps s1 = t_maps sA"
      "\<And>n. n < 30 \<or> 100 \<le> n \<Longrightarrow> rd h1 n = rd h n \<and> ty m1 n = ty m n" "ty m1 t = Some W64"
    by (auto simp: key)
  from emit_slot_headers_exec [OF hd ok5(4) x1 kw tagged len, unfolded x2]
  have k2: "cell m2 = cell m" "t_maps s2 = t_maps s1" "t_tmp_next s1 \<le> t_tmp_next s2"
      "\<And>n. n < 30 + t_tmp_next s1 \<or> 100 \<le> n \<Longrightarrow> rd h2 n = rd h1 n \<and> ty m2 n = ty m1 n"
      "\<And>i. i < m_nslots mi \<Longrightarrow> rd h2 (pres ! i) = cell m ?rg i
         \<and> rd h2 (tags ! i) = le_read (cell m ?rg) (m_tag_off mi i) (m_key_size mi)
         \<and> pres ! i \<in> set pres \<and> tags ! i \<in> set tags"
      "\<forall>x \<in> set pres \<union> set tags. 30 \<le> x \<and> x < 30 + t_tmp_next s2 \<and> ty m2 x = Some W64"
    using k1(4) by auto
  have n: "t_tag = 30 + t_tmp_next s2" "t_raw = 31 + t_tmp_next s2" "t_full = 32 + t_tmp_next s2" "t_tmp_next s2 < 62"
    using f3 [OF ok5(3)] f4 [OF ok5(2)] f5 [OF ok5(1)] by auto
  have o6: "t_ops s6 = op_cast W8 W64 (hdr t_raw) t_full (op_load W8 ?rg (konst (int (m_full_off mi))) t_raw
      (op_cast W64 kw (hdr t) t_tag (t_ops s2)))" "t_maps s6 = t_maps s2" "t_stack_hdr_of s6 = t_stack_hdr_of s2"
    using f3 [OF ok5(3)] f4 [OF ok5(2)] f5 [OF ok5(1)] s6 by auto
  have fo: "take_bit 64 (int (m_full_off mi)) = int (m_full_off mi)" "m_full_off mi + width_bytes W8 \<le> len ?rg"
    using len tagged by (auto simp: m_length_def intro!: take_bit_int_id)
  have byte: "take_bit 8 (cell m r x) = cell m r x" "take_bit 64 (cell m r x) = cell m r x" for r x
    using cell_byte [of m r x] by (auto intro!: take_bit_int_id)
  have kr: "take_bit (width_bits kw) key = key" "take_bit 64 key = key"
    using map_key_width map_key_range by (simp_all add: key)
  have t2: "rd h2 t = key" "ty m2 t = Some W64" using k1(2,3,7) k2(4) by simp_all
  have "fst (exec step (op_cast W64 kw (hdr t) t_tag (t_ops s2)) st0) = h2(t_tag \<mapsto> key)"
    "ty (snd (exec step (op_cast W64 kw (hdr t) t_tag (t_ops s2)) st0)) = (ty m2)(t_tag := Some kw)"
    "cell (snd (exec step (op_cast W64 kw (hdr t) t_tag (t_ops s2)) st0)) = cell m"
    using t2 kr k2(1) by (simp_all add: x2)
  note c = this exec_load [of "op_cast W64 kw (hdr t) t_tag (t_ops s2)" st0 "konst (int (m_full_off mi))" W8 ?rg t_raw]
  have fin: "h6 = h2(t_tag \<mapsto> key, t_raw \<mapsto> cell m ?rg (m_full_off mi), t_full \<mapsto> cell m ?rg (m_full_off mi))"
    "ty m6 = (ty m2)(t_tag := Some kw, t_raw := Some W8, t_full := Some W64)" "cell m6 = cell m"
    using arg_cong [where f = fst, OF x6] arg_cong [where f = "\<lambda>x. ty (snd x)", OF x6]
      arg_cong [where f = "\<lambda>x. cell (snd x)", OF x6] c fo byte
    by (simp_all add: o6(1) konst_take_bit)
  show "t_maps s6 = t_maps sA" "cell m6 = cell m" "rd h6 t_tag = key" "ty m6 t_tag = Some kw"
    "rd h6 t_full = cell m (REGION_MAP mp) (m_full_off mi)" "30 \<le> t" "30 \<le> t_full"
    using o6(2) k2(2) k1(1,5) fin n by simp_all
  show "rd h6 t = key" "ty m6 t = Some W64" "ty m6 t_full = Some W64" using t2 k1(2) k2(3) fin n by simp_all
  show "n < 30 \<or> 100 \<le> n \<Longrightarrow> rd h6 n = rd h n \<and> ty m6 n = ty m n"
    using k1(6) k2(4) fin n by auto
  show "rd h6 (pres ! i) = cell m (REGION_MAP mp) i
       \<and> rd h6 (tags ! i) = le_read (cell m (REGION_MAP mp)) (m_tag_off mi i) (m_key_size mi)
       \<and> 30 \<le> pres ! i \<and> 30 \<le> tags ! i \<and> ty m6 (pres ! i) = Some W64 \<and> ty m6 (tags ! i) = Some W64" if i: "i < m_nslots mi"
    proof -
      from i have r: "30 \<le> pres ! i \<and> pres ! i < 30 + t_tmp_next s2 \<and> ty m2 (pres ! i) = Some W64"
          "30 \<le> tags ! i \<and> tags ! i < 30 + t_tmp_next s2 \<and> ty m2 (tags ! i) = Some W64"
        using k2(5) [of i] k2(6) by auto
      then show ?thesis using k2(5) [OF i] by (simp add: fin n)
    qed
  show "t_stack_hdr_of sA x = Some y \<Longrightarrow> t_stack_hdr_of s6 x = Some y"
    using o6(3) stack_hdr_kept(1) [of sA x y idx kp kw] stack_hdr_kept(2) [of idx mp mi kw s1] rk hd by simp
qed

end

context region_machine
begin

text \<open>The arms of an update: the hits, the capacity test, the inserts, and the failure.\<close>

lemma xf_update:
  assumes d: "rd (fst st) H_PC = int (DECIDE_PC start)" "start \<le> MAX_INSNS" "ty (snd st) H_PC = Some W64"
    and T: "\<forall>i \<in> set js. \<forall>e \<in> set (Eh i). entry_typed (ty (snd st)) e"
      "\<forall>i \<in> set js. \<forall>e \<in> set (Ei i). entry_typed (ty (snd st)) e" "entry_typed (ty (snd st)) f"
    and P: "find (\<lambda>i. \<forall>e \<in> set (Eh i). holds e (fst st)) js = hit" "find (\<lambda>i. \<forall>e \<in> set (Ei i). holds e (fst st)) js = free"
    and full: "holds f (fst st) \<longleftrightarrow> full"
  shows "xf (map (arm_rule start pc) (map (\<lambda>i. (Eh i, bh i)) js @ [([f], b0)] @ map (\<lambda>i. (Ei i, bi i)) js @ [([], b0)])
        @ [default_rule]) st =
    step (set_pc_op pc H_PC)
      (case hit of Some i \<Rightarrow> exec step (bh i) st
       | None \<Rightarrow> if full then exec step b0 st
                else (case free of Some i \<Rightarrow> exec step (bi i) st | None \<Rightarrow> exec step b0 st))"
proof -
  let ?fail = "step (set_pc_op pc H_PC) (exec step b0 st)" and ?ins = "map (\<lambda>i. (Ei i, bi i)) js @ [([], b0)]"
  have e: "xf (map (arm_rule start pc) [([], b0)] @ [default_rule]) st = ?fail"
    by (rule xf_last_arm [OF d])
  have i: "xf (map (arm_rule start pc) ?ins @ [default_rule]) st =
      (case free of Some i \<Rightarrow> step (set_pc_op pc H_PC) (exec step (bi i) st) | None \<Rightarrow> ?fail)"
    unfolding xf_arms [OF d T(2)] P e ..
  have "xf (map (arm_rule start pc) ([([f], b0)] @ ?ins) @ [default_rule]) st =
      (if full then ?fail else xf (map (arm_rule start pc) ?ins @ [default_rule]) st)"
    using xf_arms [OF d, of "[()]" "\<lambda>_. [f]" pc "\<lambda>_. b0" ?ins] full T(3) by (cases full) simp_all
  with i show ?thesis unfolding xf_arms [OF d T(1)] P by (simp split: option.split)
qed

lemma update_exec:
  assumes em: "emit_map_update idx a s = Some (Some arms, a', s')" and ok: "\<not> t_had_error s'" "stack_ok s"
    and mi: "mi = t_maps s ! mp" "mp = nat (ri_mapidx (a_reg a ! 1))" "m_tagged mi"
    and vs: "m_value_size mi \<in> {1, 2, 4, 8}"
    and len: "m_length mi \<le> len (REGION_MAP mp)" "m_length mi < 2 ^ 64"
    and st: "exec step (t_ops s) st0 = (h, m)"
    and rdk: "operand_ready (a_reg a ! 2) 2 (width_name (int (m_key_size mi))) s h (ty m) len"
    and rdv: "operand_ready (a_reg a ! 3) 3 (width_name (int (m_value_size mi))) s h (ty m) len"
    and rv: "ri_tag (a_reg a ! 3) \<noteq> T_STACK \<and> region_of (a_reg a ! 3) s = REGION_MAP mp \<Longrightarrow>
          m_value_base mi \<le> nat (rd h (H_REG 3))"
    and pc: "rd (fst st0) H_PC = int (BLOCK_PC start)" "ty (snd st0) H_PC = Some W64" "start \<le> MAX_INSNS" "pc \<le> BLOCK_PC MAX_INSNS"
    and key: "key = map_key (a_reg a ! 2) (width_name (int (m_key_size mi))) s h (cell m)"
    and v: "v = map_value (a_reg a ! 3) (m_value_size mi) s h (cell m)"
    and c: "c = cell m (REGION_MAP mp)"
    and run: "run_chain xf (drop (length (t_modules s'))
                (t_modules (push_block start cnd (Some arms) pc pc' pc'' s'))) st0 = (h', m')"
  shows "rd h' (H_REG 0) = (if target_slot mi c key = None then 2 ^ 64 - E2BIG else 0)"
    and "cell m' = (case target_slot mi c key of None \<Rightarrow> cell m
           | Some i \<Rightarrow> (cell m)(REGION_MAP mp := write_slot mi c i (slot_of mi c key = None) key v))"
    and "rd h' H_PC = int pc" and "ty m' (H_REG 0) = Some W64"
    and "0 < n \<Longrightarrow> n < 11 \<Longrightarrow> rd h' (H_REG n) = rd h (H_REG n) \<and> ty m' (H_REG n) = ty m (H_REG n)"
proof -
  let ?kw = "width_name (int (m_key_size mi))" and ?rg = "REGION_MAP mp" and ?js = "[0..<m_nslots mi]"
    and ?sA = "count_map_site mp (s\<lparr>t_tmp_next := 0\<rparr>)" and ?vp = "a_reg a ! 3"
  obtain t pres tags s1 s2 t_tag s3 t_raw s4 t_full s5 s6 hits inserts s7 where k: "m_key_size mi \<in> {1, 2, 4, 8}"
    and g: "read_map_key idx (a_reg a ! 2) ?kw ?sA = (Some t, s1)" "emit_slot_headers idx mp mi ?kw s1 = ((pres, tags), s2)"
    "fresh_tmp idx s2 = (t_tag, s3)" "fresh_tmp idx (emit (op_cast W64 ?kw (hdr t) t_tag) s3) = (t_raw, s4)"
    "fresh_tmp idx s4 = (t_full, s5)"
    "s6 = emit (op_cast W8 W64 (hdr t_raw) t_full) (emit (op_load W8 ?rg (konst (int (m_full_off mi))) t_raw) s5)"
    and hits: "slot_arms (\<lambda>i. arm_ops idx mp mi ?vp ?kw t_tag (t_tmp_next s6) i False)
       (\<lambda>i. [cmp_entry (pres ! i) CmpEq (match_const 1 W64), cmp_entry (tags ! i) CmpEq (match_header t)])
       ?js s6 = (Some hits, s7)"
    and inserts: "slot_arms (\<lambda>i. arm_ops idx mp mi ?vp ?kw t_tag (t_tmp_next s6) i True)
       (\<lambda>i. [cmp_entry (pres ! i) CmpEq (match_const 0 W64)]) ?js s7 = (Some inserts, s')"
    and arms: "arms = hits @ [([cmp_entry t_full CmpEq (match_const 1 W64)], [const_op (H_REG 0) (- E2BIG)])]
       @ inserts @ [([], [const_op (H_REG 0) (- E2BIG)])]"
    by (rule emit_map_update_tagged [OF em mi refl])
  note kw = width_name_bytes [OF k]
  have ok7: "\<not> t_had_error s7" using conjunct1 [OF tagged_arms_frame [OF inserts]] ok(1) extends_error by blast
  have ok6: "\<not> t_had_error s6" using conjunct1 [OF tagged_arms_frame [OF hits]] ok7 extends_error by blast
  obtain h6 m6 where x6: "exec step (t_ops s6) st0 = (h6, m6)" by fastforce
  have sA: "stack_ok ?sA" "exec step (t_ops ?sA) st0 = (h, m)" "key = map_key (a_reg a ! 2) ?kw ?sA h (cell m)"
    using ok(2) st key by simp_all
  have bA: "operand_ready (a_reg a ! 2) 2 ?kw ?sA h (ty m) len"
    using rdk operand_ready_cong [of ?sA s] by (simp add: count_map_site_def)
  note u = update_headers_exec [OF g(1-6) ok6 sA(1) mi(3) kw len sA(2) bA sA(3) x6]
  let ?st = "step (set_pc_op (DECIDE_PC start) H_PC) (h6, m6)"
  obtain hd md where st6: "?st = (hd, md)" by fastforce
  have d: "rd hd H_PC = int (DECIDE_PC start)" "\<And>n. n \<noteq> H_PC \<Longrightarrow> rd hd n = rd h6 n"
      "cell md = cell m" "\<And>n. n \<noteq> H_PC \<Longrightarrow> ty md n = ty m6 n" "ty md H_PC = Some W64"
    using run_decision(2,3) [OF pc(1,3,2) x6] step_pc(2,3) [of "DECIDE_PC start" "(h6, m6)"] u(2) unfolding st6 by auto
  let ?sh = "the (t_stack_hdr_of s (- ri_off ?vp))"
  have keep: "rd hd n = rd h n \<and> ty md n = ty m n" if "n \<noteq> H_PC" "n < 30 \<or> 100 \<le> n" for n
    using u(9) [OF that(2)] d(2,4) [OF that(1)] by simp
  have sh: "t_stack_hdr_of s (- ri_off ?vp) = Some ?sh" "ty m ?sh = Some (width_name (int (m_value_size mi)))" "100 \<le> ?sh"
    if "ri_tag ?vp = T_STACK"
    using rdv that ok(2) by (auto simp: operand_ready_def stack_ok_def ran_def split: option.splits)
  define I where "I sx \<longleftrightarrow> t_maps sx = t_maps s6 \<and> t_stack_hdr_of sx = t_stack_hdr_of s6 \<and> t_ops sx = t_ops s6" for sx :: tstate
  define Q where "Q ins i ops \<longleftrightarrow> rd (fst (exec step ops (hd, md))) (H_REG 0) = 0
      \<and> ty (snd (exec step ops (hd, md))) (H_REG 0) = Some W64
      \<and> (\<forall>n < 30. n \<noteq> H_REG 0 \<longrightarrow> rd (fst (exec step ops (hd, md))) n = rd hd n
            \<and> ty (snd (exec step ops (hd, md))) n = ty md n)
      \<and> cell (snd (exec step ops (hd, md))) = (cell m)(?rg := write_slot mi c i ins key v)" for ins i ops
  have one: "I sy \<and> Q ins i ops" if "i \<in> set ?js" "I sx"
    "arm_ops idx mp mi ?vp ?kw t_tag (t_tmp_next s6) i ins sx = (Some ops, sy)" "\<not> t_had_error sy" for i ins sx sy ops
  proof -
    have i: "i < m_nslots mi" using that(1) by simp
    have tg: "rd hd t_tag = key" "ty md t_tag = Some ?kw"
      using u(3,4) d(2,4) [of t_tag] fresh_tmp_range [OF g(3)] by simp_all
    have mp: "t_maps sx = t_maps s" "t_stack_hdr_of s x = Some y \<Longrightarrow> t_stack_hdr_of sx x = Some y" for x y
      using that(2) u(1) u(11) [of x y] by (auto simp: I_def count_map_site_def)
    have rg: "region_of ?vp sx = region_of ?vp s" using mp(1) by (simp add: region_of_def)
    have r3: "rd hd (H_REG 3) = rd h (H_REG 3)" "ty md (H_REG 3) = ty m (H_REG 3)" using keep [of "H_REG 3"] by simp_all
    have sv': "operand_ready ?vp 3 (width_name (int (m_value_size mi))) sx hd (ty md) len"
      using rdv sh mp(2) keep [of ?sh] rg r3
      by (cases "ri_tag ?vp = T_STACK") (auto simp: operand_ready_def split: option.splits)
    have rv': "ri_tag ?vp \<noteq> T_STACK \<and> region_of ?vp sx = ?rg \<Longrightarrow> m_value_base mi \<le> nat (rd hd (H_REG 3))"
      using rv rg r3 by simp
    have v': "v = map_value ?vp (m_value_size mi) sx hd (cell md)"
    proof (cases "ri_tag ?vp = T_STACK")
      case True
      then obtain y where y: "t_stack_hdr_of s (- ri_off ?vp) = Some y" "100 \<le> y" using sh by auto
      with True show ?thesis
        using mp(2) [OF y(1)] keep [of y] keep [of 0] by (simp add: v map_value_def stack_header_def)
    qed (use rg r3 d(3) in \<open>simp add: v map_value_def\<close>)
    from arm_exec [OF that(3,4) i mi(3) vs kw len tg sv' rv' v'] that(2) d(3)
    show ?thesis by (auto simp: I_def Q_def c)
  qed
  have all_arms: "I sy \<and> (\<exists>body. as = map (\<lambda>i. (ent i, body i)) ?js \<and> (\<forall>i \<in> set ?js. Q ins i (body i)))"
    if "slot_arms (\<lambda>i. arm_ops idx mp mi ?vp ?kw t_tag (t_tmp_next s6) i ins) ent ?js sx = (Some as, sy)" "I sx" "\<not> t_had_error sy"
    for ins ent sx sy as
  proof (rule slot_arms_all [where I = I and Q = "Q ins", OF _ _ that(1) _ that(2,3)])
    fix i sz ops sw
    show "arm_ops idx mp mi ?vp ?kw t_tag (t_tmp_next s6) i ins sz = (ops, sw) \<Longrightarrow>
        extends sz sw \<and> (\<forall>o'. ops = Some o' \<longrightarrow> safe_ops o')"
      by (auto dest: arm_ops_frame)
  qed (use one in auto)
  from all_arms [OF hits _ ok7]
  obtain bh where h: "hits = map (\<lambda>i. ([cmp_entry (pres ! i) CmpEq (match_const 1 W64), cmp_entry (tags ! i) CmpEq (match_header t)], bh i)) ?js"
      "\<forall>i \<in> set ?js. Q False i (bh i)" "I s7"
    by (auto simp: I_def)
  from all_arms [OF inserts h(3) ok(1)]
  obtain bi where b: "inserts = map (\<lambda>i. ([cmp_entry (pres ! i) CmpEq (match_const 0 W64)], bi i)) ?js"
      "\<forall>i \<in> set ?js. Q True i (bi i)" "I s'"
    by blast
  have slot: "rd hd (pres ! i) = cell m ?rg i" "rd hd (tags ! i) = le_read (cell m ?rg) (m_tag_off mi i) (m_key_size mi)"
    if "i \<in> set ?js" for i
    using u(10) [of i] d(2) that by auto
  have t30: "30 \<le> n \<Longrightarrow> ty md n = ty m6 n" for n using d(4) [of n] by simp
  have typed: "\<forall>i \<in> set ?js. \<forall>e \<in> set [cmp_entry (pres ! i) CmpEq (match_const 1 W64),
        cmp_entry (tags ! i) CmpEq (match_header t)]. entry_typed (ty md) e"
    "\<forall>i \<in> set ?js. \<forall>e \<in> set [cmp_entry (pres ! i) CmpEq (match_const 0 W64)]. entry_typed (ty md) e"
    "entry_typed (ty md) (cmp_entry t_full CmpEq (match_const 1 W64))"
    using u(7,8,10,12,13) t30 by auto
  have kt: "rd hd t = key" "rd hd t_full = c (m_full_off mi)" "key = take_bit 64 key"
    using u(5-8) d(2) map_key_range by (simp_all add: key c)
  have sel: "find (\<lambda>i. \<forall>e \<in> set [cmp_entry (pres ! i) CmpEq (match_const 1 W64),
        cmp_entry (tags ! i) CmpEq (match_header t)]. holds e hd) ?js = slot_of mi c key"
    "find (\<lambda>i. \<forall>e \<in> set [cmp_entry (pres ! i) CmpEq (match_const 0 W64)]. holds e hd) ?js = find (\<lambda>i. c i = 0) ?js"
    unfolding slot_of_def c
    by (rule find_arms, rule slot_entries_hold [OF slot(1,2) kt(1,3) kw], assumption+)+
  have full: "holds (cmp_entry t_full CmpEq (match_const 1 W64)) hd \<longleftrightarrow> c (m_full_off mi) = 1"
    using holds_const [of hd t_full W64 1 CmpEq] kt(2) cell_byte [of m ?rg "m_full_off mi"]
    by (simp add: term_defs c)
  have x6': "exec step (t_ops s') st0 = (h6, m6)" using x6 b(3) by (simp add: I_def)
  have eq: "(h', m') = step (set_pc_op pc H_PC) (case target_slot mi c key of
        None \<Rightarrow> exec step (op_set (H_REG 0) (- E2BIG) []) (hd, md)
      | Some i \<Rightarrow> exec step (if slot_of mi c key = None then bi i else bh i) (hd, md))"
    using xf_update [where st = "(hd, md)" and Eh = "\<lambda>i. [cmp_entry (pres ! i) CmpEq (match_const 1 W64),
          cmp_entry (tags ! i) CmpEq (match_header t)]" and Ei = "\<lambda>i. [cmp_entry (pres ! i) CmpEq (match_const 0 W64)]", unfolded fst_conv snd_conv, OF d(1) pc(3) d(5) typed sel full]
    unfolding run [symmetric] run_decision(1) [OF pc(1,3,2) x6', unfolded st6] arms const_op_set h(1) b(1)
    by (simp add: target_slot_def split: option.split)
  define r where "r = (case target_slot mi c key of
        None \<Rightarrow> exec step (op_set (H_REG 0) (- E2BIG) []) (hd, md)
      | Some i \<Rightarrow> exec step (if slot_of mi c key = None then bi i else bh i) (hd, md))"
  have "rd (fst r) (H_REG 0) = (if target_slot mi c key = None then 2 ^ 64 - E2BIG else 0)
    \<and> ty (snd r) (H_REG 0) = Some W64 \<and> (\<forall>n < 30. n \<noteq> H_REG 0 \<longrightarrow> rd (fst r) n = rd hd n \<and> ty (snd r) n = ty md n)
    \<and> cell (snd r) = (case target_slot mi c key of None \<Rightarrow> cell m
           | Some i \<Rightarrow> (cell m)(?rg := write_slot mi c i (slot_of mi c key = None) key v))"
  proof (cases "target_slot mi c key")
    case None
    then show ?thesis using d(3) by (simp add: r_def take_bit_minus_small_eq)
  next
    case (Some i)
    then have "i \<in> set ?js"
      by (auto simp: target_slot_def find_Some_iff dest: slot_of_Some split: option.splits if_splits)
    with h(2) b(2) have "Q (slot_of mi c key = None) i (if slot_of mi c key = None then bi i else bh i)" by auto
    with Some show ?thesis by (auto simp: r_def Q_def simp del: H_REG_def)
  qed
  moreover have "h' = (fst r)(H_PC \<mapsto> int pc)" "cell m' = cell (snd r)" "ty m' = (ty (snd r))(H_PC := Some W64)"
    using arg_cong [where f = fst, OF eq] arg_cong [where f = "\<lambda>x. cell (snd x)", OF eq]
      arg_cong [where f = "\<lambda>x. ty (snd x)", OF eq] pc(4)
    unfolding r_def [symmetric] by (simp_all add: step_pc take_bit_int_id del: H_PC_def H_REG_def)
  ultimately show "rd h' (H_REG 0) = (if target_slot mi c key = None then 2 ^ 64 - E2BIG else 0)"
    "cell m' = (case target_slot mi c key of None \<Rightarrow> cell m
           | Some i \<Rightarrow> (cell m)(REGION_MAP mp := write_slot mi c i (slot_of mi c key = None) key v))"
    "rd h' H_PC = int pc" "ty m' (H_REG 0) = Some W64"
    "0 < n \<Longrightarrow> n < 11 \<Longrightarrow> rd h' (H_REG n) = rd h (H_REG n) \<and> ty m' (H_REG n) = ty m (H_REG n)"
    using keep [of "H_REG n"] by auto
qed

lemma le_read_range: "0 \<le> le_read (cell m rg) x n \<and> le_read (cell m rg) x n < 256 ^ n"
  using le_read_bounds [of "cell m rg"] cell_byte by blast

lemma key_value_range:
  assumes "width_bytes kw = k"
  shows "0 \<le> map_key kp kw s h (cell m) \<and> map_key kp kw s h (cell m) < 256 ^ k"
    and "0 \<le> map_value vp n s h (cell m) \<and> map_value vp n s h (cell m) < 256 ^ n"
proof -
  have "(2::int) ^ width_bits kw = 256 ^ k" using assms by (cases kw) auto
  then show "0 \<le> map_key kp kw s h (cell m) \<and> map_key kp kw s h (cell m) < 256 ^ k"
    using take_bit_int_less_exp [of "width_bits kw"] le_read_range assms by (simp add: map_key_def)
  have "(2::int) ^ (8 * n) = 256 ^ n" by (simp add: power_mult)
  then show "0 \<le> map_value vp n s h (cell m) \<and> map_value vp n s h (cell m) < 256 ^ n"
    using take_bit_int_less_exp [of "8 * n"] le_read_range by (simp add: map_value_def)
qed

end

end
