(* ===== verification/Map_Pool.thy ===== *)
theory Map_Pool
  imports Frame
begin

text \<open>
  When the two map helpers are translated: the operands they accept, and the scratch headers one call
  takes from the pool.  \<open>MAP_SLOTS_MAX\<close> is chosen so that a call on a map of that many slots fits.
\<close>

section \<open>Operands\<close>

definition operand_ok :: "reg_info \<Rightarrow> tstate \<Rightarrow> bool" where
  "operand_ok r s \<longleftrightarrow>
     (if ri_tag r = T_STACK then ri_known r \<and> - int BPF_STACK_SIZE \<le> ri_off r \<and> ri_off r \<le> 0
      else region_of r s \<noteq> REGION_NONE)"

text \<open>No report so far, the map table, and at most \<open>k\<close> scratch headers taken.\<close>

definition pool_ok :: "map_info list \<Rightarrow> nat \<Rightarrow> tstate \<Rightarrow> bool" where
  "pool_ok maps k s \<longleftrightarrow> \<not> t_had_error s \<and> stack_ok s \<and> t_maps s = maps \<and> t_tmp_next s \<le> k"

lemma pool_mono: "pool_ok maps k s \<Longrightarrow> k \<le> k' \<Longrightarrow> pool_ok maps k' s"
  by (simp add: pool_ok_def)

lemma pool_emit: "pool_ok maps k s \<Longrightarrow> pool_ok maps k (emit f s)"
  by (simp add: pool_ok_def emit_def stack_ok_def)

lemma pool_fresh: "pool_ok maps k s \<Longrightarrow> k < 64 \<Longrightarrow> pool_ok maps (Suc k) (snd (fresh_tmp idx s))"
  by (auto simp: pool_ok_def fresh_tmp_def Let_def stack_ok_def)

lemma operand_ok_maps: "t_maps s' = t_maps s \<Longrightarrow> operand_ok r s' = operand_ok r s \<and> region_of r s' = region_of r s"
  by (simp add: operand_ok_def region_of_def)

lemma pool_stack_header:
  assumes "pool_ok maps k s" "0 \<le> slot" "slot \<le> int BPF_STACK_SIZE"
  shows "fst (stack_header slot s) \<noteq> 0" "pool_ok maps k (snd (stack_header slot s))"
proof -
  have "stack_ok (snd (stack_header slot s))"
    using assms(1) stack_header_ok(1) [of s slot] by (metis pool_ok_def prod.collapse)
  then show "pool_ok maps k (snd (stack_header slot s))"
    using assms(1) by (auto simp: pool_ok_def stack_header_def split: option.split)
  show "fst (stack_header slot s) \<noteq> 0"
    using assms by (auto simp: pool_ok_def stack_ok_def stack_header_def ran_def split: option.split)
qed

lemma pool_read_map_key:
  assumes "pool_ok maps k s" "k \<le> 62" "operand_ok kp s"
  shows "\<exists>t s'. read_map_key idx kp kw s = (Some t, s') \<and> pool_ok maps (k + 2) s'"
proof -
  let ?s = "snd (fresh_tmp idx s)"
  have p: "pool_ok maps (Suc k) ?s" using pool_fresh assms by auto
  have o': "operand_ok kp ?s" using operand_ok_maps [of ?s s] assms p by (auto simp: pool_ok_def)
  show ?thesis
  proof (cases "ri_tag kp = T_STACK")
    case True
    with o' pool_stack_header [OF p, of "- ri_off kp"] show ?thesis
      by (auto simp: operand_ok_def read_map_key_def Let_def split_beta intro!: pool_emit intro: pool_mono)
  next
    case False
    with o' pool_fresh [OF p, of idx] assms(2) show ?thesis
      by (auto simp: operand_ok_def read_map_key_def Let_def split_beta intro!: pool_emit)
  qed
qed

lemma pool_read_cells:
  "pool_ok maps k s \<Longrightarrow> k + length offs \<le> 64 \<Longrightarrow>
   pool_ok maps (k + length offs) (snd (read_cells idx rg w t_raw offs s))"
proof (induction offs arbitrary: s k)
  case (Cons x offs)
  let ?s = "emit (op_cast w W64 (hdr t_raw) (fst (fresh_tmp idx s)))
      (emit (op_load w rg (konst (int x)) t_raw) (snd (fresh_tmp idx s)))"
  have "pool_ok maps (Suc k) ?s" using Cons.prems by (intro pool_emit pool_fresh) auto
  from Cons.IH [OF this] Cons.prems(2) show ?case by (simp add: Let_def split_beta)
qed simp

lemma pool_slot_headers:
  assumes "pool_ok maps k s" "k + 2 * m_nslots mi < 64"
  shows "pool_ok maps (Suc (k + 2 * m_nslots mi)) (snd (emit_slot_headers idx mp mi kw s))"
proof -
  have "pool_ok maps (Suc k) (snd (fresh_tmp idx s))" using assms by (intro pool_fresh) auto
  from pool_read_cells [OF this, of "[0..<m_nslots mi]" idx "REGION_MAP mp" W8 "fst (fresh_tmp idx s)"] assms(2)
  have "pool_ok maps (Suc k + m_nslots mi) (snd (read_cells idx (REGION_MAP mp) W8 (fst (fresh_tmp idx s))
     [0..<m_nslots mi] (snd (fresh_tmp idx s))))" by simp
  from pool_read_cells [OF this, of "map (m_tag_off mi) [0..<m_nslots mi]" idx "REGION_MAP mp" kw "fst (fresh_tmp idx s)"] assms(2)
  show ?thesis by (simp add: emit_slot_headers_def Let_def split_beta mult_2 add.assoc)
qed

lemma pool_copy_value:
  assumes p: "pool_ok maps k s" "k < 64" and o': "operand_ok vp s" and vs: "m_value_size mi \<in> {1, 2, 4, 8}"
  shows "\<exists>ops' s'. copy_map_value idx vp mi mp dest ops s = ((True, ops'), s') \<and> pool_ok maps (Suc k) s'"
proof (cases "ri_tag vp = T_STACK")
  case True
  obtain sh s1 where sh: "stack_header (- ri_off vp) s = (sh, s1)" by fastforce
  with pool_stack_header [OF p(1), of "- ri_off vp"] o' True have "sh \<noteq> 0" "pool_ok maps k s1"
    by (simp_all add: operand_ok_def)
  then have "copy_map_value idx vp mi mp dest ops s
      = ((True, op_store (width_name (int (m_value_size mi))) (REGION_MAP mp) dest (hdr sh) ops), s1)"
    using True o' vs sh by (simp add: copy_map_value_def operand_ok_def Let_def del: insert_iff)
  with pool_mono [OF \<open>pool_ok maps k s1\<close>, of "Suc k"] show ?thesis by simp
next
  case False
  with o' have r: "region_of vp s \<noteq> REGION_NONE" by (simp add: operand_ok_def)
  obtain t s1 where f: "fresh_tmp idx s = (t, s1)" by fastforce
  with False r vs have "\<exists>ops'. copy_map_value idx vp mi mp dest ops s = ((True, ops'), s1)"
    by (simp add: copy_map_value_def Let_def del: insert_iff)
  with pool_fresh [OF p, of idx] f show ?thesis by auto
qed

lemma pool_arm_ops:
  assumes "pool_ok maps k s" "n0 < 64" "operand_ok vp s" "m_value_size mi \<in> {1, 2, 4, 8}"
  shows "\<exists>ops s'. arm_ops idx mp mi vp kw t_tag n0 i ins s = (Some ops, s') \<and> pool_ok maps (Suc n0) s'"
proof -
  let ?s = "s\<lparr>t_tmp_next := n0\<rparr>"
  have p: "pool_ok maps n0 ?s" using assms(1) by (simp add: pool_ok_def stack_ok_def)
  have "operand_ok vp ?s" using operand_ok_maps [of ?s s] assms(3) by simp
  from pool_copy_value [OF p assms(2) this assms(4)]
  show ?thesis unfolding arm_ops_def Let_def split_beta by (metis (no_types, lifting) fst_conv snd_conv)
qed

lemma pool_slot_arms:
  assumes "n0 < 64" "m_value_size mi \<in> {1, 2, 4, 8}"
  shows "pool_ok maps k s \<Longrightarrow> operand_ok vp s \<Longrightarrow>
    \<exists>arms s' k'. slot_arms (\<lambda>i. arm_ops idx mp mi vp kw t_tag n0 i ins) ent js s = (Some arms, s') \<and> pool_ok maps k' s'"
proof (induction js arbitrary: s k)
  case (Cons i js)
  obtain ops s1 where 1: "arm_ops idx mp mi vp kw t_tag n0 i ins s = (Some ops, s1)" "pool_ok maps (Suc n0) s1"
    using pool_arm_ops [OF Cons.prems(1) assms(1) Cons.prems(2) assms(2)] by blast
  have "operand_ok vp s1" using operand_ok_maps [of s1 s] 1(2) Cons.prems by (simp add: pool_ok_def)
  from Cons.IH [OF 1(2) this] 1(1) show ?case by auto
qed auto

section \<open>The helpers are translated\<close>

text \<open>The argument registers of a helper call on a hash map that the translator accepts.\<close>

definition call_ok :: "abs_state \<Rightarrow> tstate \<Rightarrow> bool" where
  "call_ok a s \<longleftrightarrow>
     (let mp = a_reg a ! 1; mi = t_maps s ! nat (ri_mapidx mp)
      in ri_tag mp = T_MAP \<and> 0 \<le> ri_mapidx mp \<and> nat (ri_mapidx mp) < length (t_maps s)
         \<and> m_tagged mi \<and> m_nslots mi \<le> MAP_SLOTS_MAX \<and> m_key_size mi \<in> {1, 2, 4, 8} \<and> operand_ok (a_reg a ! 2) s)"

lemma pool_start:
  "\<not> t_had_error s \<Longrightarrow> stack_ok s \<Longrightarrow> pool_ok (t_maps s) 0 (count_map_site m (s\<lparr>t_tmp_next := 0\<rparr>))"
  by (simp add: pool_ok_def count_map_site_def stack_ok_def)

lemma call_ok_map:
  assumes "call_ok a s" "mi = t_maps s ! nat (ri_mapidx (a_reg a ! 1))"
  shows "\<not> (ri_tag (a_reg a ! 1) \<noteq> T_MAP \<or> ri_mapidx (a_reg a ! 1) < 0)" "nat (ri_mapidx (a_reg a ! 1)) < length (t_maps s)"
    "check_map_modelled idx mi s' = (True, s')" "\<not> m_is_array mi" "m_key_size mi \<in> {1, 2, 4, 8}" "m_nslots mi \<le> 28"
    "operand_ok (a_reg a ! 2) s"
  using assms by (simp_all add: call_ok_def Let_def m_tagged_def m_is_array_def check_map_modelled_def)

lemma lookup_translated:
  assumes c: "call_ok a s" and s: "\<not> t_had_error s" "stack_ok s"
  shows "\<exists>arms a' s'. emit_map_lookup idx a s = Some (Some arms, a', s') \<and> \<not> t_had_error s'"
proof -
  define mi where "mi = t_maps s ! nat (ri_mapidx (a_reg a ! 1))"
  note m = call_ok_map [OF c mi_def]
  let ?m = "nat (ri_mapidx (a_reg a ! 1))" and ?kw = "width_name (int (m_key_size mi))"
  let ?s = "count_map_site ?m (s\<lparr>t_tmp_next := 0\<rparr>)"
  have "operand_ok (a_reg a ! 2) ?s" using operand_ok_maps [of ?s s] m(7) by (simp add: count_map_site_def)
  from pool_read_map_key [OF pool_start [OF s] _ this, of idx ?kw]
  obtain t s1 where r: "read_map_key idx (a_reg a ! 2) ?kw ?s = (Some t, s1)" "pool_ok (t_maps s) (0 + 2) s1" by fastforce
  obtain pt s2 where h: "emit_slot_headers idx ?m mi ?kw s1 = (pt, s2)" by fastforce
  with pool_slot_headers [OF r(2), of mi idx ?m ?kw] m(6) have "\<not> t_had_error s2" by (simp add: pool_ok_def)
  with h r(1) have "\<exists>arms s'. emit_tagged_lookup idx ?m mi (a_reg a ! 2) ?kw ?s = (Some arms, s') \<and> \<not> t_had_error s'"
    by (auto simp: emit_tagged_lookup_def Let_def split: prod.split)
  then show ?thesis
    using m by (auto simp: emit_map_lookup_def Let_def mi_def [symmetric] simp del: insert_iff One_nat_def)
qed

lemma update_translated:
  assumes c: "call_ok a s" and s: "\<not> t_had_error s" "stack_ok s"
    and v: "operand_ok (a_reg a ! 3) s" "m_value_size (t_maps s ! nat (ri_mapidx (a_reg a ! 1))) \<in> {1, 2, 4, 8}"
    and fl: "ri_tag (a_reg a ! 4) = T_SCALAR" "ri_const (a_reg a ! 4) = Some 0"
  shows "\<exists>arms a' s'. emit_map_update idx a s = Some (Some arms, a', s') \<and> \<not> t_had_error s'"
proof -
  define mi where "mi = t_maps s ! nat (ri_mapidx (a_reg a ! 1))"
  note m = call_ok_map [OF c mi_def]
  let ?m = "nat (ri_mapidx (a_reg a ! 1))" and ?kw = "width_name (int (m_key_size mi))" and ?vp = "a_reg a ! 3"
  let ?s = "count_map_site ?m (s\<lparr>t_tmp_next := 0\<rparr>)"
  have "operand_ok (a_reg a ! 2) ?s" using operand_ok_maps [of ?s s] m(7) by (simp add: count_map_site_def)
  from pool_read_map_key [OF pool_start [OF s] _ this, of idx ?kw]
  obtain t s1 where r: "read_map_key idx (a_reg a ! 2) ?kw ?s = (Some t, s1)" "pool_ok (t_maps s) (0 + 2) s1" by fastforce
  obtain pres tags s2 where h: "emit_slot_headers idx ?m mi ?kw s1 = ((pres, tags), s2)" by (metis prod.collapse)
  with pool_slot_headers [OF r(2), of mi idx ?m ?kw] m(6) have p2: "pool_ok (t_maps s) 59 s2"
    by (auto elim: pool_mono)
  obtain t_tag s3 where f3: "fresh_tmp idx s2 = (t_tag, s3)" by fastforce
  let ?s3 = "emit (op_cast W64 ?kw (hdr t) t_tag) s3"
  have p3: "pool_ok (t_maps s) 60 ?s3" using pool_fresh [OF p2, of idx] f3 by (simp add: pool_emit)
  obtain t_raw s4 where f4: "fresh_tmp idx ?s3 = (t_raw, s4)" by fastforce
  have p4: "pool_ok (t_maps s) 61 s4" using pool_fresh [OF p3, of idx] f4 by simp
  obtain t_full s5 where f5: "fresh_tmp idx s4 = (t_full, s5)" by fastforce
  have p5: "pool_ok (t_maps s) 62 s5" using pool_fresh [OF p4, of idx] f5 by simp
  define s6 where "s6 = emit (op_cast W8 W64 (hdr t_raw) t_full)
      (emit (op_load W8 (REGION_MAP ?m) (konst (int (m_full_off mi))) t_raw) s5)"
  have p6: "pool_ok (t_maps s) 62 s6" using p5 by (simp add: s6_def pool_emit)
  have n0: "t_tmp_next s6 < 64" and v6: "operand_ok ?vp s6"
    using p6 operand_ok_maps [of s6 s] v(1) by (simp_all add: pool_ok_def)
  have vs: "m_value_size mi \<in> {1, 2, 4, 8}" using v(2) by (simp add: mi_def)
  obtain hits s7 k where a1: "slot_arms (\<lambda>i. arm_ops idx ?m mi ?vp ?kw t_tag (t_tmp_next s6) i False)
      (\<lambda>i. [cmp_entry (pres ! i) CmpEq (match_const 1 W64), cmp_entry (tags ! i) CmpEq (match_header t)])
      [0..<m_nslots mi] s6 = (Some hits, s7)" "pool_ok (t_maps s) k s7"
    using pool_slot_arms [OF n0 vs p6 v6] by blast
  have "operand_ok ?vp s7" using operand_ok_maps [of s7 s] v(1) a1(2) by (simp add: pool_ok_def)
  from pool_slot_arms [OF n0 vs a1(2) this]
  obtain ins s8 k' where a2: "slot_arms (\<lambda>i. arm_ops idx ?m mi ?vp ?kw t_tag (t_tmp_next s6) i True)
      (\<lambda>i. [cmp_entry (pres ! i) CmpEq (match_const 0 W64)]) [0..<m_nslots mi] s7 = (Some ins, s8)" "pool_ok (t_maps s) k' s8"
    by blast
  have "\<exists>arms s'. emit_tagged_update idx ?m mi (a_reg a ! 2) ?vp ?kw ?s = (Some arms, s') \<and> \<not> t_had_error s'"
    using r(1) h f3 f4 f5 a1(1) a2 unfolding s6_def
    by (simp add: emit_tagged_update_def Let_def pool_ok_def)
  then show ?thesis
    using m fl by (auto simp: emit_map_update_def Let_def mi_def [symmetric] simp del: insert_iff One_nat_def)
qed

end
