(* ===== verification/Map_Laws.thy ===== *)
theory Map_Laws
  imports Map_Model Map_Pool
begin

text \<open>
  The map helpers as operations on the abstract map a region stands for: a lookup returns the address
  of the value of the key, and an update changes the map at the key and nowhere else, or fails and
  changes nothing.
\<close>

section \<open>A hash map of two slots for the witnesses\<close>

definition demo_map :: map_info where
  "demo_map = \<lparr>m_name = ''m'', m_type = 1, m_key_size = 4, m_value_size = 4, m_max_entries = 2, m_slots_budget = 2\<rparr>"

text \<open>The key is spilled to the slot 4 below the frame pointer, the value to the one 8 below.\<close>

definition demo_state :: tstate where
  "demo_state = (translator_init CTX_XDP_MD None)
     \<lparr>t_maps := [demo_map], t_stack_hdr_of := [4 \<mapsto> 100, 8 \<mapsto> 101], t_next_stack_hdr := 102\<rparr>"

definition demo_regs :: abs_state where
  "demo_regs = set_reg 1 (map_pointer T_MAP 0 0) (set_reg 2 (pointer T_STACK (- 4))
     (set_reg 3 (pointer T_STACK (- 8)) (set_reg 4 (scalar_const 0) abs_init)))"

text \<open>Slot 1 holds the key 7 and slot 0 is free; the two stack slots were stored as words of 32 bits.\<close>

definition demo_regions :: regions where
  "demo_regions = \<lparr>rm_cells = (\<lambda>rg x. if x = 1 then 1 else if x = 6 then 7 else if x = 14 then 42 else 0), 
     rm_types = (\<lambda>n. if n < 100 then Some W64 else Some W32)\<rparr>"

definition demo_hdrs :: hdrs where
  "demo_hdrs = [1 \<mapsto> 1, 100 \<mapsto> 7, 101 \<mapsto> 9]"

lemma demo_stack_ok: "stack_ok demo_state"
  by (auto simp: stack_ok_def demo_state_def translator_init_def inj_on_def ran_def split: if_splits)

lemma demo_facts:
  "t_ops demo_state = []" "t_maps demo_state = [demo_map]" "m_tagged demo_map" "m_length demo_map = 19"
  "ri_tag (a_reg demo_regs ! Suc 0) = T_MAP" "ri_mapidx (a_reg demo_regs ! Suc 0) = 0"
  "ri_tag (a_reg demo_regs ! 4) = T_SCALAR" "ri_const (a_reg demo_regs ! 4) = Some 0"
  "ri_off (a_reg demo_regs ! 2) = - 4" "ri_known (a_reg demo_regs ! 2)" "ri_known (a_reg demo_regs ! 3)"
  "m_nslots demo_map = 2" "m_family demo_map = Some FAMILY_HASH" "\<not> m_is_array demo_map" "\<not> t_had_error demo_state"
  "t_stack_hdr_of demo_state = [4 \<mapsto> 100, 8 \<mapsto> 101]"
  "ri_tag (a_reg demo_regs ! 2) = T_STACK"
  "ri_tag (a_reg demo_regs ! 3) = T_STACK" "ri_off (a_reg demo_regs ! 3) = - 8"
  "map_key (a_reg demo_regs ! 2) W32 demo_state demo_hdrs c = 7"
  "map_value (a_reg demo_regs ! 3) 4 demo_state demo_hdrs c = 9"
  "m_key_size demo_map = 4" "m_value_size demo_map = 4"
  "rd demo_hdrs (Suc 0) = 1" "m_value_off demo_map 1 = 14" "m_value_base demo_map = 10"
  by (simp_all add: demo_state_def translator_init_def demo_map_def layout_defs m_tagged_def m_is_array_def m_family_def scalar_const_def
      ARRAY_TYPES_def HASH_TYPES_def m_nslots_def demo_regs_def set_reg_def abs_init_def map_pointer_def pointer_def
      map_key_def map_value_def stack_header_def demo_hdrs_def rd_def)

lemma demo_slots: "slot_of demo_map (rm_cell demo_regions 10) 7 = Some 1"
  by code_simp

lemma demo_amap: "amap demo_map (rm_cell demo_regions 10) 7 = Some 42"
  by code_simp

lemma demo_ready:
  "operand_ready (a_reg demo_regs ! 2) 2 W32 demo_state demo_hdrs (rm_types demo_regions) len"
  "operand_ready (a_reg demo_regs ! 3) 3 W32 demo_state demo_hdrs (rm_types demo_regions) len"
  "rm_types demo_regions H_PC = Some W64"
  by (simp_all add: operand_ready_def demo_facts demo_regions_def)

lemma demo_ok: "call_ok demo_regs demo_state" "operand_ok (a_reg demo_regs ! 3) demo_state"
  by (simp_all add: call_ok_def operand_ok_def demo_facts)

lemma demo_calls:
  "\<exists>arms a' s'. emit_map_lookup 5 demo_regs demo_state = Some (Some arms, a', s') \<and> \<not> t_had_error s'"
  "\<exists>arms a' s'. emit_map_update 5 demo_regs demo_state = Some (Some arms, a', s') \<and> \<not> t_had_error s'"
  using lookup_translated [OF demo_ok(1) _ demo_stack_ok] update_translated [OF demo_ok(1) _ demo_stack_ok demo_ok(2)]
  by (simp_all add: demo_facts)

section \<open>The calls that are translated\<close>

text \<open>
  C27: A lookup of a hash map of at most \<open>MAP_SLOTS_MAX\<close> slots, whose key is a stack slot of the frame or
  lies in a known region and has a size of 1, 2, 4 or 8 bytes, is translated without a report: it
  never runs out of scratch headers.  So is an update of it when in addition the value has a size of
  1, 2, 4 or 8 bytes and such a place, and the flags in register 4 are the known constant 0 (any
  other flags are refused).
\<close>

theorem helper_calls_translated:
  assumes "call_ok a s" and "\<not> t_had_error s" and "stack_ok s"
  shows "(\<exists>arms a' s'. emit_map_lookup idx a s = Some (Some arms, a', s') \<and> \<not> t_had_error s')
    \<and> (operand_ok (a_reg a ! 3) s \<and> m_value_size (t_maps s ! nat (ri_mapidx (a_reg a ! 1))) \<in> {1, 2, 4, 8}
         \<and> ri_tag (a_reg a ! 4) = T_SCALAR \<and> ri_const (a_reg a ! 4) = Some 0 \<longrightarrow>
       (\<exists>arms a' s'. emit_map_update idx a s = Some (Some arms, a', s') \<and> \<not> t_had_error s'))"
  using lookup_translated [OF assms] update_translated [OF assms] by blast

theorem helper_calls_translated_witness:
  "\<exists>arms a' s'. emit_map_update 5 demo_regs demo_state = Some (Some arms, a', s') \<and> \<not> t_had_error s'"
  using helper_calls_translated [OF demo_ok(1) _ demo_stack_ok, of 5] demo_ok(2) by (simp add: demo_facts)

section \<open>Lookup\<close>

text \<open>
  C5: The two transformers of a block that ends in a lookup of a hash map leave in register 0 the
  address of the value the map holds for the key, or 0 when it holds none; they write no region, no
  other register, and go on to the next block.  The key is in a region, or in a stack slot that was
  stored at the width of the key.
\<close>

theorem map_lookup_correct:
  assumes "region_machine holds step xf cell ty len"
    and "emit_map_lookup idx a s = Some (Some arms, a', s')" and "\<not> t_had_error s'" and "stack_ok s"
    and "mi = t_maps s ! mp" and "mp = nat (ri_mapidx (a_reg a ! 1))" and "m_tagged mi"
    and "m_length mi \<le> len (REGION_MAP mp)" and "m_length mi < 2 ^ 64"
    and "exec step (t_ops s) st0 = (h, m)"
    and "operand_ready (a_reg a ! 2) 2 (width_name (int (m_key_size mi))) s h (ty m) len"
    and "rd (fst st0) H_PC = int (BLOCK_PC start)" and "ty (snd st0) H_PC = Some W64"
    and "start \<le> MAX_INSNS" and "pc \<le> BLOCK_PC MAX_INSNS"
    and "key = map_key (a_reg a ! 2) (width_name (int (m_key_size mi))) s h (cell m)"
    and "run_chain xf (drop (length (t_modules s'))
           (t_modules (push_block start cnd (Some arms) pc pc' pc'' s'))) st0 = (h', m')"
  shows "(case amap mi (cell m (REGION_MAP mp)) key of
            None \<Rightarrow> rd h' (H_REG 0) = 0
          | Some v \<Rightarrow> 0 < rd h' (H_REG 0)
              \<and> le_read (cell m (REGION_MAP mp)) (nat (rd h' (H_REG 0))) (m_value_size mi) = v)
    \<and> cell m' = cell m \<and> rd h' H_PC = int pc \<and> ty m' (H_REG 0) = Some W64
    \<and> (\<forall>n. 0 < n \<and> n < 11 \<longrightarrow> rd h' (H_REG n) = rd h (H_REG n) \<and> ty m' (H_REG n) = ty m (H_REG n))"
proof -
  note r = region_machine.lookup_exec [OF assms]
  have "0 < m_value_off mi i" if "slot_of mi c key = Some i" for c i
    using slot_of_Some [OF that] by (auto simp: layout_defs)
  with r show ?thesis by (auto simp: amap_def slot_value_def split: option.split)
qed

theorem map_lookup_correct_witness:
  "\<exists>arms a' s'. emit_map_lookup 5 demo_regs demo_state = Some (Some arms, a', s')
     \<and> le_read (rm_cell demo_regions 10) (nat (rd (fst (run_chain rm_rules (drop (length (t_modules s'))
           (t_modules (push_block 0 None (Some arms) 3 3 3 s'))) (demo_hdrs, demo_regions))) (H_REG 0))) 4 = 42"
proof -
  obtain arms a' s' where e: "emit_map_lookup 5 demo_regs demo_state = Some (Some arms, a', s')" "\<not> t_had_error s'"
    using demo_calls(1) by blast
  obtain h' m' where r: "run_chain rm_rules (drop (length (t_modules s'))
      (t_modules (push_block 0 None (Some arms) 3 3 3 s'))) (demo_hdrs, demo_regions) = (h', m')" by fastforce
  from map_lookup_correct [OF rm.region_machine_axioms e demo_stack_ok refl refl _ _ _ _ _ _ _ _ _ refl r] demo_amap
  have "le_read (rm_cell demo_regions 10) (nat (rd h' (H_REG 0))) 4 = 42"
    using demo_ready by (simp add: demo_facts width_name_def)
  with e(1) r show ?thesis by auto
qed

text \<open>
  C40: A key on the stack that was stored at another width than the key's is not found: the lookup
  leaves 0 in register 0 whatever the map holds, since the read of the slot is \<open>ErrorVal\<close>.
\<close>

theorem map_lookup_mistyped:
  assumes "region_machine holds step xf cell ty len"
    and "emit_map_lookup idx a s = Some (Some arms, a', s')" and "\<not> t_had_error s'" and "stack_ok s"
    and "mi = t_maps s ! mp" and "mp = nat (ri_mapidx (a_reg a ! 1))" and "m_tagged mi"
    and "m_length mi \<le> len (REGION_MAP mp)" and "m_length mi < 2 ^ 64"
    and "exec step (t_ops s) st0 = (h, m)"
    and "ri_tag (a_reg a ! 2) = T_STACK" and "t_stack_hdr_of s (- ri_off (a_reg a ! 2)) = Some sh"
    and "ty m sh \<noteq> Some (width_name (int (m_key_size mi)))"
    and "rd (fst st0) H_PC = int (BLOCK_PC start)" and "ty (snd st0) H_PC = Some W64"
    and "start \<le> MAX_INSNS" and "pc \<le> BLOCK_PC MAX_INSNS"
    and "run_chain xf (drop (length (t_modules s'))
           (t_modules (push_block start cnd (Some arms) pc pc' pc'' s'))) st0 = (h', m')"
  shows "rd h' (H_REG 0) = 0 \<and> cell m' = cell m \<and> rd h' H_PC = int pc
    \<and> (\<forall>n. 0 < n \<and> n < 11 \<longrightarrow> rd h' (H_REG n) = rd h (H_REG n))"
  using region_machine.lookup_mistyped_exec [OF assms] by blast

text \<open>The map holds the key 7, but the slot of the key was stored as a word of 64 bits.\<close>

theorem map_lookup_mistyped_witness:
  "\<exists>arms a' s'. emit_map_lookup 5 demo_regs demo_state = Some (Some arms, a', s')
     \<and> amap demo_map (rm_cell demo_regions 10) 7 = Some 42
     \<and> rd (fst (run_chain rm_rules (drop (length (t_modules s'))
           (t_modules (push_block 0 None (Some arms) 3 3 3 s')))
           (demo_hdrs, demo_regions\<lparr>rm_types := \<lambda>n. Some W64\<rparr>))) (H_REG 0) = 0"
proof -
  let ?m = "demo_regions\<lparr>rm_types := \<lambda>n. Some W64\<rparr>"
  obtain arms a' s' where e: "emit_map_lookup 5 demo_regs demo_state = Some (Some arms, a', s')" "\<not> t_had_error s'"
    using demo_calls(1) by blast
  obtain h' m' where r: "run_chain rm_rules (drop (length (t_modules s'))
      (t_modules (push_block 0 None (Some arms) 3 3 3 s'))) (demo_hdrs, ?m) = (h', m')" by fastforce
  from map_lookup_mistyped [OF rm.region_machine_axioms e demo_stack_ok refl refl _ _ _ _ _ _ _ _ _ _ _ r, of demo_hdrs ?m 100]
  have "rd h' (H_REG 0) = 0" by (simp add: demo_facts width_name_def)
  with e(1) r demo_amap show ?thesis by auto
qed

section \<open>Update\<close>

text \<open>
  C4: The two transformers of a block that ends in an update of a hash map refine the update of the
  abstract map: either they put 0 in register 0 and the region stands for the same map with the key
  now bound to the value, or, when the key is absent and the map is full, they put -E2BIG there and
  write nothing.  No other region and no other register is written.  Key and value are in a region, or
  in a stack slot that was stored at the width of the key, or of the value.
\<close>

theorem map_update_correct:
  assumes "region_machine holds step xf cell ty len"
    and "emit_map_update idx a s = Some (Some arms, a', s')" and "\<not> t_had_error s'" and "stack_ok s"
    and "mi = t_maps s ! mp" and "mp = nat (ri_mapidx (a_reg a ! 1))" and "m_tagged mi"
    and "m_value_size mi \<in> {1, 2, 4, 8}"
    and "m_length mi \<le> len (REGION_MAP mp)" and "m_length mi < 2 ^ 64"
    and "exec step (t_ops s) st0 = (h, m)"
    and "operand_ready (a_reg a ! 2) 2 (width_name (int (m_key_size mi))) s h (ty m) len"
    and "operand_ready (a_reg a ! 3) 3 (width_name (int (m_value_size mi))) s h (ty m) len"
    and "ri_tag (a_reg a ! 3) \<noteq> T_STACK \<and> region_of (a_reg a ! 3) s = REGION_MAP mp \<Longrightarrow>
          m_value_base mi \<le> nat (rd h (H_REG 3))"
    and "rd (fst st0) H_PC = int (BLOCK_PC start)" and "ty (snd st0) H_PC = Some W64"
    and "start \<le> MAX_INSNS" and "pc \<le> BLOCK_PC MAX_INSNS"
    and "key = map_key (a_reg a ! 2) (width_name (int (m_key_size mi))) s h (cell m)"
    and "v = map_value (a_reg a ! 3) (m_value_size mi) s h (cell m)"
    and "c = cell m (REGION_MAP mp)"
    and "run_chain xf (drop (length (t_modules s'))
           (t_modules (push_block start cnd (Some arms) pc pc' pc'' s'))) st0 = (h', m')"
  shows "(case target_slot mi c key of
            None \<Rightarrow> rd h' (H_REG 0) = 2 ^ 64 - E2BIG \<and> amap mi c key = None \<and> cell m' = cell m
          | Some i \<Rightarrow> rd h' (H_REG 0) = 0 \<and> amap mi (cell m' (REGION_MAP mp)) = (amap mi c)(key \<mapsto> v)
              \<and> (\<forall>rg. rg \<noteq> REGION_MAP mp \<longrightarrow> cell m' rg = cell m rg))
    \<and> rd h' H_PC = int pc \<and> ty m' (H_REG 0) = Some W64
    \<and> (\<forall>n. 0 < n \<and> n < 11 \<longrightarrow> rd h' (H_REG n) = rd h (H_REG n) \<and> ty m' (H_REG n) = ty m (H_REG n))"
proof -
  note r = region_machine.update_exec [OF assms]
  have k: "m_key_size mi \<in> {1, 2, 4, 8}"
    by (rule emit_map_update_tagged [OF assms(2,5-7) refl])
  note kr = region_machine.key_value_range [OF assms(1) width_name_bytes [OF k]]
  have "amap mi (write_slot mi c i (slot_of mi c key = None) key v) = (amap mi c)(key \<mapsto> v)"
    if "target_slot mi c key = Some i" for i
    using write_slot_amap(2) [OF that assms(7) refl] kr by (simp add: assms(19,20))
  moreover have "amap mi c key = None" if "target_slot mi c key = None"
    using that by (simp add: target_slot_def amap_def split: option.splits)
  ultimately show ?thesis using r by (auto split: option.split)
qed

text \<open>The second slot holds the key: the update overwrites its value.\<close>

lemma demo_target: "target_slot demo_map (rm_cell demo_regions 10) 7 = Some 1"
  by code_simp

theorem map_update_correct_witness:
  "\<exists>arms a' s' h' m'. emit_map_update 5 demo_regs demo_state = Some (Some arms, a', s')
     \<and> run_chain rm_rules (drop (length (t_modules s'))
           (t_modules (push_block 0 None (Some arms) 3 3 3 s'))) (demo_hdrs, demo_regions) = (h', m')
     \<and> rd h' (H_REG 0) = 0 \<and> amap demo_map (rm_cell m' 10) = (amap demo_map (rm_cell demo_regions 10))(7 \<mapsto> 9)"
proof -
  obtain arms a' s' where e: "emit_map_update 5 demo_regs demo_state = Some (Some arms, a', s')" "\<not> t_had_error s'"
    using demo_calls(2) by blast
  obtain h' m' where r: "run_chain rm_rules (drop (length (t_modules s'))
      (t_modules (push_block 0 None (Some arms) 3 3 3 s'))) (demo_hdrs, demo_regions) = (h', m')" by fastforce
  have "rd h' (H_REG 0) = 0 \<and> amap demo_map (rm_cell m' 10) = (amap demo_map (rm_cell demo_regions 10))(7 \<mapsto> 9)"
    using map_update_correct [OF rm.region_machine_axioms e demo_stack_ok refl refl _ _ _ _ _ _ _ _ _ _ _ _ refl refl refl r] demo_target
    demo_ready by (simp add: demo_facts width_name_def)
  with e(1) r show ?thesis by blast
qed

end
