(* ===== verification/Region_Laws.thy ===== *)
theory Region_Laws
  imports Map_Laws
begin

text \<open>
  Loads and stores through a pointer into a region, on the machine with regions: the ops a translated
  instruction emits access the cells at the address the register and the offset give.
\<close>

definition access_addr :: "nat \<Rightarrow> int \<Rightarrow> hdrs \<Rightarrow> int" where
  "access_addr r ofs h = take_bit 64 (rd h (H_REG r) + ofs)"

lemma size_bytes_width: "width_bytes (width_name (size_bytes c)) = nat (size_bytes c)"
  by (auto simp: size_bytes_def width_name_def)

lemma ctx_access_ok_fields:
  "t_ops (snd (ctx_access_ok idx b ofs n what s)) = t_ops s" "t_tmp_next (snd (ctx_access_ok idx b ofs n what s)) = t_tmp_next s"
  "t_had_error s \<Longrightarrow> t_had_error (snd (ctx_access_ok idx b ofs n what s))"
  by (auto simp: ctx_access_ok_def Let_def)

lemma le_write_low: "8 * n \<le> k \<Longrightarrow> le_write c ofs n (take_bit k v) = le_write c ofs n v"
  using le_write_take_bit [of c ofs n "take_bit k v"] le_write_take_bit [of c ofs n v] by (simp add: min_def)

lemma width_bits_bytes: "width_bits w = 8 * width_bytes w" "8 * width_bytes w \<le> 64"
  by (cases w; simp)+

context region_machine
begin

lemma load_exec:
  assumes tr: "translate_ldx idx i a s = Some (a', s')" and ok: "\<not> t_had_error s'"
    and base: "get_reg (src i) a = Some b" "ri_tag b \<noteq> T_STACK" and regs: "length (a_reg a) = NUM_BPF_REGS"
    and st: "exec step (t_ops s) st0 = (h, m)" and typed: "ty m (H_REG (src i)) = Some W64"
    and bnd: "nat (access_addr (src i) (off i) h) + nat (size_bytes (code i)) \<le> len (region_of b s)"
    and run: "exec step (t_ops s') st0 = (h', m')"
  shows "rd h' (H_REG (dst i)) = le_read (cell m (region_of b s)) (nat (access_addr (src i) (off i) h)) (nat (size_bytes (code i)))"
    and "cell m' = cell m" and "ty m' (H_REG (dst i)) = Some W64"
    and "n < 11 \<Longrightarrow> n \<noteq> dst i \<Longrightarrow> rd h' (H_REG n) = rd h (H_REG n) \<and> ty m' (H_REG n) = ty m (H_REG n)"
    and "region_of b s \<noteq> REGION_NONE"
proof -
  let ?w = "width_name (size_bytes (code i))" and ?rg = "region_of b s"
  define s0 where "s0 = (if ?rg = REGION_NONE then unsupported idx (RegionUnknown ''load'' (src i)) s else s)"
  define s1 where "s1 = snd (ctx_access_ok idx b (off i) (size_bytes (code i)) ''load'' s0)"
  obtain ta s2 where f: "fresh_tmp idx s1 = (ta, s2)" by fastforce
  define s3 where "s3 = emit (op_binop AddOp W64 (hdr (H_REG (src i))) (konst (off i)) ta) s2"
  obtain tv s4 where g: "fresh_tmp idx s3 = (tv, s4)" by fastforce
  have e: "dst i < 11 \<and> src i < 11 \<and> s' = emit (op_cast ?w W64 (hdr tv) (H_REG (dst i))) (emit (op_load ?w ?rg (hdr ta) tv) s4)"
  proof -
    have "map_option snd (translate_ldx idx i a s) = (if dst i < 11 then
        Some (emit (op_cast ?w W64 (hdr tv) (H_REG (dst i))) (emit (op_load ?w ?rg (hdr ta) tv) s4)) else None)"
      using base regs
      unfolding translate_ldx_def Let_def base(1) bind.bind_lunit split_beta emit_address_def fst_conv snd_conv s0_def [symmetric] s1_def [symmetric] f
          s3_def [symmetric] g by (simp add: put_reg_def)
    with tr base regs show ?thesis by (auto simp: get_reg_def split: if_splits)
  qed
  then have "\<not> t_had_error s4" using ok by simp
  note g' = fresh_tmp_taken [OF g this]
  then have "\<not> t_had_error s2" by (simp add: s3_def)
  note f' = fresh_tmp_taken [OF f this]
  then have ok0: "\<not> t_had_error s0" using ctx_access_ok_fields(3) [of s0] s1_def by blast
  then show rg: "?rg \<noteq> REGION_NONE" by (auto simp: s0_def)
  have o3: "t_ops s4 = op_binop AddOp W64 (hdr (H_REG (src i))) (konst (off i)) ta (t_ops s)" "ta = 30 + t_tmp_next s1" "tv = Suc ta"
    using f' g' rg by (simp_all add: s3_def s1_def s0_def ctx_access_ok_fields)
  obtain h4 m4 where x4: "exec step (t_ops s4) st0 = (h4, m4)" by fastforce
  have h4: "h4 = h(ta \<mapsto> access_addr (src i) (off i) h)" "cell m4 = cell m" "ty m4 = (ty m)(ta := Some W64)"
    using arg_cong [where f = fst, OF x4] arg_cong [where f = "\<lambda>x. cell (snd x)", OF x4]
      arg_cong [where f = "\<lambda>x. ty (snd x)", OF x4] st typed
    by (simp_all add: o3 access_addr_def konst_take_bit take_bit_add)
  have "nat (rd h4 ta) + width_bytes ?w \<le> len ?rg" "0 \<le> rd h4 ta"
    using bnd h4(1) by (simp_all add: size_bytes_width access_addr_def)
  then have ld: "fst (exec step (op_load ?w ?rg (hdr ta) tv (t_ops s4)) st0)
        = h4(tv \<mapsto> le_read (cell m ?rg) (nat (access_addr (src i) (off i) h)) (nat (size_bytes (code i))))"
      "cell (snd (exec step (op_load ?w ?rg (hdr ta) tv (t_ops s4)) st0)) = cell m"
      "ty (snd (exec step (op_load ?w ?rg (hdr ta) tv (t_ops s4)) st0)) = (ty m4)(tv := Some ?w)"
    using exec_load [of "t_ops s4" st0 "hdr ta" ?w ?rg tv] x4 h4 by (simp_all add: size_bytes_width hdr_def)
  have "h' = h4(tv \<mapsto> le_read (cell m ?rg) (nat (access_addr (src i) (off i) h)) (nat (size_bytes (code i))),
      H_REG (dst i) \<mapsto> le_read (cell m ?rg) (nat (access_addr (src i) (off i) h)) (nat (size_bytes (code i))))" "cell m' = cell m"
      "ty m' = (ty m)(ta := Some W64, tv := Some ?w, H_REG (dst i) := Some W64)"
    using arg_cong [where f = fst, OF run] arg_cong [where f = "\<lambda>x. cell (snd x)", OF run]
      arg_cong [where f = "\<lambda>x. ty (snd x)", OF run] ld e h4(3)
      le_read_width [where w = ?w and m = m and rg = ?rg, unfolded size_bytes_width]
    by simp_all
  then show "rd h' (H_REG (dst i)) = le_read (cell m ?rg) (nat (access_addr (src i) (off i) h)) (nat (size_bytes (code i)))"
    and "cell m' = cell m" and "ty m' (H_REG (dst i)) = Some W64"
    and "n < 11 \<Longrightarrow> n \<noteq> dst i \<Longrightarrow> rd h' (H_REG n) = rd h (H_REG n) \<and> ty m' (H_REG n) = ty m (H_REG n)"
    using h4(1) o3 by simp_all
qed

lemma store_exec:
  assumes tr: "translate_store idx i a from_reg s = Some (a', s')" and ok: "\<not> t_had_error s'"
    and base: "get_reg (dst i) a = Some b" "ri_tag b \<noteq> T_STACK" and regs: "src i < 16"
    and st: "exec step (t_ops s) st0 = (h, m)"
    and typed: "ty m (H_REG (dst i)) = Some W64" "from_reg \<Longrightarrow> ty m (H_REG (src i)) = Some W64"
    and bnd: "nat (access_addr (dst i) (off i) h) + nat (size_bytes (code i)) \<le> len (region_of b s)"
    and run: "exec step (t_ops s') st0 = (h', m')"
  shows "cell m' = (cell m)(region_of b s := le_write (cell m (region_of b s)) (nat (access_addr (dst i) (off i) h))
           (nat (size_bytes (code i))) (if from_reg then rd h (H_REG (src i)) else imm i))"
    and "n < 11 \<Longrightarrow> rd h' (H_REG n) = rd h (H_REG n) \<and> ty m' (H_REG n) = ty m (H_REG n)"
    and "region_of b s \<noteq> REGION_NONE"
proof -
  let ?w = "width_name (size_bytes (code i))" and ?rg = "region_of b s" and ?n = "nat (size_bytes (code i))"
  define s0 where "s0 = (if ?rg = REGION_NONE then unsupported idx (RegionUnknown ''store'' (dst i)) s else s)"
  define s1 where "s1 = snd (ctx_access_ok idx b (off i) (size_bytes (code i)) ''store'' s0)"
  obtain ta s2 where f: "fresh_tmp idx s1 = (ta, s2)" by fastforce
  define s3 where "s3 = emit (op_binop AddOp W64 (hdr (H_REG (dst i))) (konst (off i)) ta) s2"
  obtain tv s4 where g: "fresh_tmp idx s3 = (tv, s4)" by fastforce
  define s5 where "s5 = emit (op_cast W64 ?w (hdr (H_REG (src i))) tv) s4"
  have e: "s' = (if from_reg then emit (op_store ?w ?rg (hdr ta) (hdr tv)) s5
      else emit (op_store ?w ?rg (hdr ta) (konst (take_bit 64 (imm i)))) s3)"
  proof -
    have "translate_store idx i a from_reg s = Some (a, if from_reg then emit (op_store ?w ?rg (hdr ta) (hdr tv)) s5
      else emit (op_store ?w ?rg (hdr ta) (konst (take_bit 64 (imm i)))) s3)"
      using base
      unfolding translate_store_def Let_def base(1) bind.bind_lunit split_beta emit_address_def fst_conv snd_conv s0_def [symmetric] s1_def [symmetric] f
          s3_def [symmetric] g s5_def [symmetric] by simp
    with tr show ?thesis by simp
  qed
  have ok3: "\<not> t_had_error s3 \<and> (from_reg \<longrightarrow> \<not> t_had_error s4)"
    using e ok fresh_tmp_taken [OF g] by (auto simp: s5_def split: if_splits)
  then have "\<not> t_had_error s2" by (simp add: s3_def)
  note f' = fresh_tmp_taken [OF f this]
  then have ok0: "\<not> t_had_error s0" using ctx_access_ok_fields(3) [of s0] s1_def by blast
  then show rg: "?rg \<noteq> REGION_NONE" by (auto simp: s0_def)
  have o3: "t_ops s3 = op_binop AddOp W64 (hdr (H_REG (dst i))) (konst (off i)) ta (t_ops s)" "ta = 30 + t_tmp_next s1"
    using f' rg by (simp_all add: s3_def s1_def s0_def ctx_access_ok_fields)
  obtain h3 m3 where x3: "exec step (t_ops s3) st0 = (h3, m3)" by fastforce
  have h3: "h3 = h(ta \<mapsto> access_addr (dst i) (off i) h)" "cell m3 = cell m" "ty m3 = (ty m)(ta := Some W64)"
    using arg_cong [where f = fst, OF x3] arg_cong [where f = "\<lambda>x. cell (snd x)", OF x3]
      arg_cong [where f = "\<lambda>x. ty (snd x)", OF x3] st typed
    by (simp_all add: o3 access_addr_def konst_take_bit take_bit_add)
  have bd: "nat (access_addr (dst i) (off i) h) + width_bytes ?w \<le> len ?rg" "0 \<le> access_addr (dst i) (off i) h"
    using bnd by (simp_all add: size_bytes_width access_addr_def)
  note lw = le_write_low [of ?n "width_bits ?w"] le_write_low [of ?n 64]
  have wn: "8 * ?n = width_bits ?w" "8 * ?n \<le> 64" using width_bits_bytes [of ?w] by (simp_all add: size_bytes_width)
  have "cell m' = (cell m)(?rg := le_write (cell m ?rg) (nat (access_addr (dst i) (off i) h)) ?n
      (if from_reg then rd h (H_REG (src i)) else imm i)) \<and> (\<forall>n < 11. rd h' (H_REG n) = rd h (H_REG n) \<and> ty m' (H_REG n) = ty m (H_REG n))"
  proof (cases from_reg)
    case True
    with ok3 have g': "tv = Suc ta" "t_ops s4 = t_ops s3"
      using fresh_tmp_taken [OF g] f' by (simp_all add: s3_def)
    have x5: "fst (exec step (t_ops s5) st0) = h3(tv \<mapsto> take_bit (width_bits ?w) (take_bit 64 (rd h3 (H_REG (src i)))))"
      "cell (snd (exec step (t_ops s5) st0)) = cell m" "ty (snd (exec step (t_ops s5) st0)) = (ty m3)(tv := Some ?w)"
      using x3 h3(2,3) typed(2) [OF True] o3(2) regs by (simp_all add: s5_def g')
    have "rd h3 (H_REG (src i)) = rd h (H_REG (src i))" using h3(1) o3(2) regs by simp
    with exec_store [of "t_ops s5" st0 "hdr ta" ?w ?rg "hdr tv"] x5 e True run h3 o3(2) bd g'(1) lw wn
    show ?thesis by (auto simp: size_bytes_width hdr_def)
  next
    case False
    with exec_store [of "t_ops s3" st0 "hdr ta" ?w ?rg "konst (take_bit 64 (imm i))"] e run x3 h3 o3(2) bd lw wn
    show ?thesis by (auto simp: size_bytes_width hdr_def konst_take_bit)
  qed
  then show "cell m' = (cell m)(?rg := le_write (cell m ?rg) (nat (access_addr (dst i) (off i) h)) ?n
      (if from_reg then rd h (H_REG (src i)) else imm i))"
    and "n < 11 \<Longrightarrow> rd h' (H_REG n) = rd h (H_REG n) \<and> ty m' (H_REG n) = ty m (H_REG n)" by blast+
qed

end

text \<open>
  C6: A load or store through a pointer into a region, when it is not reported, reads or writes the
  cells of that region at the register's value plus the offset, at the width of the instruction; the
  registers it reads hold values of 64 bits, as every op that writes a register leaves them.  A load zero-extends into its destination, and no other register and no other cell is written.
\<close>

theorem region_access_correct:
  assumes "region_machine holds step xf cell ty len"
    and "(if is_load then translate_ldx idx i a s else translate_store idx i a from_reg s) = Some (a', s')"
    and "\<not> t_had_error s'" and "length (a_reg a) = NUM_BPF_REGS" and "src i < 16"
    and "ptr = (if is_load then src i else dst i)" and "get_reg ptr a = Some b" and "ri_tag b \<noteq> T_STACK"
    and "n = nat (size_bytes (code i))" and "addr = nat (access_addr ptr (off i) h)"
    and "addr + n \<le> len (region_of b s)"
    and "exec step (t_ops s) st0 = (h, m)" and "ty m (H_REG ptr) = Some W64"
    and "\<not> is_load \<and> from_reg \<Longrightarrow> ty m (H_REG (src i)) = Some W64"
    and "exec step (t_ops s') st0 = (h', m')"
  shows "region_of b s \<noteq> REGION_NONE
    \<and> (if is_load
       then rd h' (H_REG (dst i)) = le_read (cell m (region_of b s)) addr n \<and> cell m' = cell m
              \<and> ty m' (H_REG (dst i)) = Some W64
       else cell m' = (cell m)(region_of b s := le_write (cell m (region_of b s)) addr n
              (if from_reg then rd h (H_REG (src i)) else imm i)))
    \<and> (\<forall>r < 11. (is_load \<longrightarrow> r \<noteq> dst i) \<longrightarrow> rd h' (H_REG r) = rd h (H_REG r) \<and> ty m' (H_REG r) = ty m (H_REG r))"
proof (cases is_load)
  case True
  with assms have "translate_ldx idx i a s = Some (a', s')" "get_reg (src i) a = Some b" "ty m (H_REG (src i)) = Some W64"
    "nat (access_addr (src i) (off i) h) + nat (size_bytes (code i)) \<le> len (region_of b s)" by simp_all
  from region_machine.load_exec [OF assms(1) this(1) assms(3) this(2) assms(8,4,12) this(3,4) assms(15)] True assms(6,9,10)
  show ?thesis by auto
next
  case False
  with assms have "translate_store idx i a from_reg s = Some (a', s')" "get_reg (dst i) a = Some b"
    "ty m (H_REG (dst i)) = Some W64" "from_reg \<Longrightarrow> ty m (H_REG (src i)) = Some W64"
    "nat (access_addr (dst i) (off i) h) + nat (size_bytes (code i)) \<le> len (region_of b s)" by simp_all
  from region_machine.store_exec [OF assms(1) this(1) assms(3) this(2) assms(8,5,12) this(3-5) assms(15)] False assms(6,9,10)
  show ?thesis by auto
qed

text \<open>\<open>r3 = *(u32 *)(r1 + 4)\<close> with a pointer to the first value of the map in register 1.\<close>

theorem region_access_correct_witness:
  "\<exists>a' s'. translate_ldx 3 \<lparr>code = 0x61, dst = 3, src = 1, off = 4, imm = 0\<rparr>
       (set_reg 1 (map_pointer T_MAPVAL 0 0) abs_init) demo_state = Some (a', s')
     \<and> rd (fst (exec rm_step (t_ops s') ([11 \<mapsto> 10], demo_regions))) (H_REG 3) = 42"
proof -
  let ?i = "\<lparr>code = 0x61, dst = 3, src = 1, off = 4, imm = 0\<rparr>" and ?b = "map_pointer T_MAPVAL 0 0"
  let ?a = "set_reg 1 ?b abs_init"
  have "size_bytes (code ?i) = 4" by code_simp
  moreover have b: "get_reg 1 ?a = Some ?b" "length (a_reg ?a) = NUM_BPF_REGS" "ri_tag ?b \<noteq> T_STACK"
      "region_of ?b demo_state = 10"
    by (simp_all add: get_reg_def set_reg_def abs_init_def map_pointer_def region_of_def demo_state_def)
  moreover have "\<exists>a' s'. translate_ldx 3 ?i ?a demo_state = Some (a', s') \<and> \<not> t_had_error s'"
    using b calculation(1)
    by (simp add: translate_ldx_def ctx_access_ok_def emit_address_def fresh_tmp_def put_reg_def emit_def Let_def
        demo_state_def translator_init_def map_pointer_def)
  then obtain a' s' where e: "translate_ldx 3 ?i ?a demo_state = Some (a', s')" "\<not> t_had_error s'" by blast
  obtain h' m' where r: "exec rm_step (t_ops s') ([11 \<mapsto> 10], demo_regions) = (h', m')" by fastforce
  have "le_read (rm_cell demo_regions 10) 14 4 = 42" by code_simp
  moreover have "access_addr 1 4 [11 \<mapsto> 10] = 14" by (simp add: access_addr_def rd_def)
  ultimately have "rd h' (H_REG 3) = 42"
    using region_access_correct [where is_load = True, OF rm.region_machine_axioms _ e(2) _ _ refl _ _ refl refl _ _ _ _ r,
        of 3 ?i ?a demo_state undefined a' ?b "[11 \<mapsto> 10]" demo_regions] e(1)
    by (simp add: demo_facts demo_regions_def [THEN arg_cong [where f = rm_types]])
  with e(1) r show ?thesis by auto
qed

end
