(* ===== verification/Array_Model.thy ===== *)
theory Array_Model
  imports Map_Model Map_Pool
begin

text \<open>
  The array maps on the machine with regions: the key is the index, so a lookup computes the address
  of the value and an update stores to it, without a search.
\<close>

section \<open>The slot of a key\<close>

text \<open>The key of a call on an array map: known when the program is translated, or read when it runs.\<close>

definition array_key :: "reg_info \<Rightarrow> abs_state \<Rightarrow> width \<Rightarrow> tstate \<Rightarrow> hdrs \<Rightarrow> (nat \<Rightarrow> cells) \<Rightarrow> int" where
  "array_key kp a kw s h c = (case const_key kp a of Some k \<Rightarrow> k | None \<Rightarrow> map_key kp kw s h c)"

lemma mod_u64: "0 < (n::int) \<Longrightarrow> n < 2 ^ 64 \<Longrightarrow> take_bit 64 (k mod n) = k mod n"
  by (rule take_bit_int_id) (auto intro: order_less_trans [OF pos_mod_bound])

context region_machine
begin

lemma emit_slot_exec:
  assumes em: "emit_slot idx mp kp a kw s = ((Some t, ck), s')" and ok: "\<not> t_had_error s'" "stack_ok s"
    and n: "n = m_nslots (t_maps s ! mp)" "0 < n" "int n < 2 ^ 64"
    and st: "exec step (t_ops s) st0 = (h, m)"
    and rdy: "const_key kp a = None \<Longrightarrow> operand_ready kp 2 kw s h (ty m) len"
    and x: "exec step (t_ops s') st0 = (h', m')"
  shows "ck = const_key kp a" "t = 30 + t_tmp_next s" "t < 30 + t_tmp_next s'" "t_maps s' = t_maps s"
    "rd h' t = array_key kp a kw s h (cell m) mod int n" "cell m' = cell m"
    "i < 30 + t_tmp_next s \<or> 100 \<le> i \<Longrightarrow> rd h' i = rd h i \<and> ty m' i = ty m i"
    "t_stack_hdr_of s p = Some y \<Longrightarrow> t_stack_hdr_of s' p = Some y" "ty m' t = Some W64"
proof -
  obtain t0 s0 where f: "fresh_tmp idx s = (t0, s0)" by fastforce
  have "t = 30 + t_tmp_next s \<and> ck = const_key kp a \<and> t < 30 + t_tmp_next s' \<and> t_maps s' = t_maps s
    \<and> rd h' t = array_key kp a kw s h (cell m) mod int n \<and> cell m' = cell m
    \<and> (\<forall>i. i < 30 + t_tmp_next s \<or> 100 \<le> i \<longrightarrow> rd h' i = rd h i \<and> ty m' i = ty m i)
    \<and> (\<forall>p y. t_stack_hdr_of s p = Some y \<longrightarrow> t_stack_hdr_of s' p = Some y) \<and> ty m' t = Some W64"
  proof (cases "const_key kp a")
    case (Some k)
    with em f n(1) have e: "t = t0" "ck = Some k" "s' = emit (op_set t0 (k mod int n)) s0"
      by (auto simp: emit_slot_def Let_def)
    with ok have "\<not> t_had_error s0" by simp
    note t = fresh_tmp_taken [OF f this]
    have "h' = h(t0 \<mapsto> k mod int n)" "cell m' = cell m" "ty m' = (ty m)(t0 := Some W64)"
      using arg_cong [where f = fst, OF x] arg_cong [where f = "\<lambda>x. cell (snd x)", OF x]
        arg_cong [where f = "\<lambda>x. ty (snd x)", OF x] st t e(3) n by (simp_all add: mod_u64)
    with e t Some show ?thesis by (auto simp: array_key_def)
  next
    case None
    obtain r s1 where rk: "read_map_key idx kp kw s0 = (r, s1)" by fastforce
    with em f None n(1) obtain tk where e: "r = Some tk" "t = t0" "ck = None"
      "s' = emit (op_binop ModOp W64 (hdr tk) (konst (int n)) t0) s1"
      by (auto simp: emit_slot_def Let_def split: option.splits)
    with ok have ok1: "\<not> t_had_error s1" by simp
    have "extends s0 (snd (read_map_key idx kp kw s0))" by (rule extends_read_map_key [OF extends_refl])
    with rk ok1 have "\<not> t_had_error s0" using extends_error by simp
    note t = fresh_tmp_taken [OF f this]
    have st': "exec step (t_ops s0) st0 = (h, m)" "stack_ok s0" using st ok t by simp_all
    have rdy': "operand_ready kp 2 kw s0 h (ty m) len"
      using rdy [OF None] t operand_ready_cong [of s0 s] by simp
    obtain h1 m1 where x1: "exec step (t_ops s1) st0 = (h1, m1)" by fastforce
    from read_map_key_exec [OF rk [unfolded e(1)] ok1 st'(2,1) rdy', unfolded x1]
    have k: "tk = 31 + t_tmp_next s" "tk < 30 + t_tmp_next s1" "t_maps s1 = t_maps s"
        "rd h1 tk = map_key kp kw s h (cell m)" "cell m1 = cell m"
        "\<And>i. i < 31 + t_tmp_next s \<or> 100 \<le> i \<Longrightarrow> rd h1 i = rd h i \<and> ty m1 i = ty m i" "ty m1 tk = Some W64"
      using t by auto
    have n64: "take_bit 64 (int n) = int n" "n \<noteq> 0" using n by (simp_all add: take_bit_int_id)
    have "h' = h1(t0 \<mapsto> map_key kp kw s h (cell m) mod int n)" "cell m' = cell m" "ty m' = (ty m1)(t0 := Some W64)"
      using arg_cong [where f = fst, OF x] arg_cong [where f = "\<lambda>x. cell (snd x)", OF x]
        arg_cong [where f = "\<lambda>x. ty (snd x)", OF x] x1 k(4,5,7) n n64 map_key_range e(4)
      by (simp_all add: mod_u64 konst_take_bit)
    with e t k None stack_hdr_kept(1) [of s0 _ _ idx kp kw] rk show ?thesis
      by (auto simp: array_key_def)
  qed
  then show "ck = const_key kp a" "t = 30 + t_tmp_next s" "t < 30 + t_tmp_next s'" "t_maps s' = t_maps s"
    "rd h' t = array_key kp a kw s h (cell m) mod int n" "cell m' = cell m"
    "i < 30 + t_tmp_next s \<or> 100 \<le> i \<Longrightarrow> rd h' i = rd h i \<and> ty m' i = ty m i"
    "t_stack_hdr_of s p = Some y \<Longrightarrow> t_stack_hdr_of s' p = Some y" "ty m' t = Some W64"
    by auto
qed

end

section \<open>Lookup\<close>

lemma check_array_key_fields:
  "check_array_key idx mp k s = (True, s') \<Longrightarrow> t_ops s' = t_ops s \<and> t_maps s' = t_maps s
     \<and> t_stack_hdr_of s' = t_stack_hdr_of s \<and> t_next_stack_hdr s' = t_next_stack_hdr s
     \<and> t_tmp_next s' = t_tmp_next s \<and> t_had_error s' = t_had_error s
     \<and> (case k of Some i \<Rightarrow> i < int (m_nslots (t_maps s ! mp))
        | None \<Rightarrow> m_max_entries (t_maps s ! mp) \<le> m_nslots (t_maps s ! mp))"
  by (auto simp: check_array_key_def Let_def split: option.splits if_splits)

lemma map_key_cong:
  "t_stack_hdr_of s' = t_stack_hdr_of s \<Longrightarrow> t_next_stack_hdr s' = t_next_stack_hdr s \<Longrightarrow> t_maps s' = t_maps s \<Longrightarrow>
   map_key kp kw s' h c = map_key kp kw s h c \<and> region_of kp s' = region_of kp s \<and> stack_ok s' = stack_ok s"
  by (auto simp: map_key_def stack_header_def region_of_def stack_ok_def split: option.split)

lemma nslots_entries:
  "0 < m_max_entries mi \<Longrightarrow> m_nslots mi \<le> m_max_entries mi"
  "m_nslots mi = 0 \<Longrightarrow> m_slots_budget mi = 0 \<or> m_max_entries mi = 0"
  by (auto simp: m_nslots_def Let_def split: if_splits)

text \<open>The arms of a lookup.\<close>

definition arms_of_array :: "map_info \<Rightarrow> int option \<Rightarrow> nat \<Rightarrow> nat \<Rightarrow> nat \<Rightarrow> arm list" where
  "arms_of_array mi ck t_slot t_key t_vp =
     [([case ck of Some k \<Rightarrow> cmp_entry t_slot CmpEq (match_const (k mod int (m_nslots mi)) W64)
          | None \<Rightarrow> cmp_entry t_key CmpLt (match_const (int (m_max_entries mi)) W64)],
       [assign_op (H_REG 0) t_vp]), ([], [zero_op (H_REG 0)])]"

text \<open>What an accepted lookup of an array map emits.\<close>

lemma emit_map_lookup_array:
  assumes "emit_map_lookup idx a s = Some (Some arms, a', s')"
    and "mi = t_maps s ! mp" "mp = nat (ri_mapidx (a_reg a ! 1))" "m_is_array mi"
    and kw: "kw = width_name (int (m_key_size mi))"
  obtains t ck s0 s1 t_vp s2 s3 t_key where "m_key_size mi \<in> {1, 2, 4, 8}"
    "check_array_key idx mp (const_key (a_reg a ! 2) a) (count_map_site mp (s\<lparr>t_tmp_next := 0\<rparr>)) = (True, s0)"
    "emit_slot idx mp (a_reg a ! 2) a kw s0 = ((Some t, ck), s1)" "fresh_tmp idx s1 = (t_vp, s2)"
    "s3 = emit (op_binop AddOp W64 (hdr t_vp) (konst (int (m_value_base mi))) t_vp)
       (emit (op_binop MulOp W64 (hdr t) (konst (int (m_value_size mi))) t_vp) s2)"
    "ck \<noteq> None \<longrightarrow> s' = s3"
    "ck = None \<longrightarrow> (\<exists>s4. fresh_tmp idx s3 = (t_key, s4) \<and> s' = emit (op_cast W64 W64 (hdr t) t_key) s4)"
    "arms = arms_of_array mi ck t t_key t_vp"
proof -
  let ?s = "count_map_site mp (s\<lparr>t_tmp_next := 0\<rparr>)"
  have c: "check_map_modelled idx mi s = (True, s)"
    using assms(4) by (simp add: m_is_array_def check_map_modelled_def)
  have k: "m_key_size mi \<in> {1, 2, 4, 8}"
    and res: "emit_array_lookup idx mp mi (a_reg a ! 2) a kw ?s = (Some arms, s')"
    using assms c
    by (auto simp: emit_map_lookup_def Let_def split_beta prod_eq_iff simp del: insert_iff split: if_splits option.splits)
  obtain okb s0 where c0: "check_array_key idx mp (const_key (a_reg a ! 2) a) ?s = (okb, s0)" by fastforce
  obtain tt ck s1 where e: "emit_slot idx mp (a_reg a ! 2) a kw s0 = ((tt, ck), s1)" by (metis prod.collapse)
  obtain t_vp s2 where f: "fresh_tmp idx s1 = (t_vp, s2)" by fastforce
  define s3 where "s3 = emit (op_binop AddOp W64 (hdr t_vp) (konst (int (m_value_base mi))) t_vp)
       (emit (op_binop MulOp W64 (hdr (the tt)) (konst (int (m_value_size mi))) t_vp) s2)"
  obtain t_key s4 where g: "fresh_tmp idx s3 = (t_key, s4)" by fastforce
  note r = res [unfolded emit_array_lookup_def Let_def c0 split_beta fst_conv snd_conv e f]
  have ok: "okb" "tt \<noteq> None" using r by (auto split: if_splits option.splits)
  show ?thesis
  proof (rule that [OF k])
    show "check_array_key idx mp (const_key (a_reg a ! 2) a) ?s = (True, s0)" using c0 ok by simp
    show "emit_slot idx mp (a_reg a ! 2) a kw s0 = ((Some (the tt), ck), s1)" using e ok by simp
    show "fresh_tmp idx s1 = (t_vp, s2)" by (rule f)
    show "s3 = emit (op_binop AddOp W64 (hdr t_vp) (konst (int (m_value_base mi))) t_vp)
       (emit (op_binop MulOp W64 (hdr (the tt)) (konst (int (m_value_size mi))) t_vp) s2)" by (rule s3_def)
    show "ck \<noteq> None \<longrightarrow> s' = s3" using r ok g by (auto simp: s3_def)
    show "ck = None \<longrightarrow> (\<exists>s4. fresh_tmp idx s3 = (t_key, s4) \<and> s' = emit (op_cast W64 W64 (hdr (the tt)) t_key) s4)"
      using r ok g by (auto simp: s3_def)
    show "arms = arms_of_array mi ck (the tt) t_key t_vp"
      using r ok g by (auto simp: s3_def arms_of_array_def split: option.split)
  qed
qed

lemma assign_op_binop: "[assign_op n k] = op_binop AddOp W64 (hdr k) (konst 0) n []"
  by (simp add: op_defs term_defs)

lemma value_addr_u64:
  assumes "i < int (m_nslots mi)" "0 \<le> i" "m_length mi < 2 ^ 64"
  shows "take_bit 64 (int (m_value_size mi)) = int (m_value_size mi)"
    "take_bit 64 (int (m_value_base mi)) = int (m_value_base mi)"
    "take_bit 64 (i * int (m_value_size mi)) = i * int (m_value_size mi)"
    "take_bit 64 (i * int (m_value_size mi) + int (m_value_base mi)) = int (m_value_off mi (nat i))"
    "take_bit 64 i = i" "m_value_off mi (nat i) + m_value_size mi \<le> m_length mi"
proof -
  let ?v = "m_value_size mi"
  have i: "nat i < m_nslots mi" using assms by linarith
  have e: "i * int ?v + int (m_value_base mi) = int (m_value_off mi (nat i))"
    using assms(2) by (simp add: m_value_off_def)
  have l: "m_value_off mi (nat i) + ?v \<le> m_length mi" using value_off_end [OF i] by (simp add: m_length_def)
  then show "m_value_off mi (nat i) + ?v \<le> m_length mi" .
  have b: "int (m_value_off mi (nat i)) + int ?v < 2 ^ 64" using l assms(3) by simp
  have "m_nslots mi \<le> m_length mi" "m_value_base mi \<le> m_value_off mi (nat i)" by (simp_all add: layout_defs)
  then have n: "i < 2 ^ 64" "m_value_base mi \<le> m_value_off mi (nat i)" using assms by simp_all
  show "take_bit 64 (int ?v) = int ?v" "take_bit 64 (int (m_value_base mi)) = int (m_value_base mi)"
    "take_bit 64 (i * int ?v) = i * int ?v" "take_bit 64 (i * int ?v + int (m_value_base mi)) = int (m_value_off mi (nat i))"
    "take_bit 64 i = i"
    using b e assms(2) n mult_nonneg_nonneg [of i "int ?v"] by (auto intro!: take_bit_int_id)
qed

context region_machine
begin

lemma array_lookup_exec:
  assumes em: "emit_map_lookup idx a s = Some (Some arms, a', s')" and ok: "\<not> t_had_error s'" "stack_ok s"
    and mi: "mi = t_maps s ! mp" "mp = nat (ri_mapidx (a_reg a ! 1))" "m_is_array mi"
    and n: "0 < m_nslots mi" "0 < m_max_entries mi"
    and len: "m_length mi < 2 ^ 64"
    and st: "exec step (t_ops s) st0 = (h, m)"
    and rdy: "const_key (a_reg a ! 2) a = None \<Longrightarrow>
          operand_ready (a_reg a ! 2) 2 (width_name (int (m_key_size mi))) s h (ty m) len"
    and pc: "rd (fst st0) H_PC = int (BLOCK_PC start)" "ty (snd st0) H_PC = Some W64" "start \<le> MAX_INSNS" "pc \<le> BLOCK_PC MAX_INSNS"
    and key: "key = array_key (a_reg a ! 2) a (width_name (int (m_key_size mi))) s h (cell m)"
    and run: "run_chain xf (drop (length (t_modules s'))
                (t_modules (push_block start cnd (Some arms) pc pc' pc'' s'))) st0 = (h', m')"
  shows "rd h' (H_REG 0) = int (m_value_off mi (nat (key mod int (m_nslots mi))))"
    and "case const_key (a_reg a ! 2) a of Some k \<Rightarrow> k < int (m_nslots mi) | None \<Rightarrow> m_nslots mi = m_max_entries mi"
    and "cell m' = cell m" and "rd h' H_PC = int pc" and "ty m' (H_REG 0) = Some W64"
    and "0 < i \<Longrightarrow> i < 11 \<Longrightarrow> rd h' (H_REG i) = rd h (H_REG i) \<and> ty m' (H_REG i) = ty m (H_REG i)"
proof -
  let ?kw = "width_name (int (m_key_size mi))" and ?n = "int (m_nslots mi)"
    and ?sA = "count_map_site mp (s\<lparr>t_tmp_next := 0\<rparr>)" and ?kp = "a_reg a ! 2"
  obtain t ck s0 s1 t_vp s2 s3 t_key where k: "m_key_size mi \<in> {1, 2, 4, 8}"
    and c0: "check_array_key idx mp (const_key ?kp a) ?sA = (True, s0)"
    and e: "emit_slot idx mp ?kp a ?kw s0 = ((Some t, ck), s1)" and f: "fresh_tmp idx s1 = (t_vp, s2)"
    and s3: "s3 = emit (op_binop AddOp W64 (hdr t_vp) (konst (int (m_value_base mi))) t_vp)
       (emit (op_binop MulOp W64 (hdr t) (konst (int (m_value_size mi))) t_vp) s2)"
    and c: "ck \<noteq> None \<longrightarrow> s' = s3"
      "ck = None \<longrightarrow> (\<exists>s4. fresh_tmp idx s3 = (t_key, s4) \<and> s' = emit (op_cast W64 W64 (hdr t) t_key) s4)"
    and arms: "arms = arms_of_array mi ck t t_key t_vp"
    by (rule emit_map_lookup_array [OF em mi refl])
  note kw = width_name_bytes [OF k]
  note ca = check_array_key_fields [OF c0]
  have nm: "?n = int (m_nslots (t_maps s0 ! mp))" "0 < m_nslots (t_maps s0 ! mp)" "int (m_nslots (t_maps s0 ! mp)) < 2 ^ 64"
    using ca mi(1) n(1) len by (auto simp: layout_defs)
  have ok3: "\<not> t_had_error s3"
    using c ok(1) fresh_tmp_taken [of idx s3 t_key] by (cases ck) auto
  then have "\<not> t_had_error s2" using s3 by simp
  note tv = fresh_tmp_taken [OF f this]
  then have ok1: "\<not> t_had_error s1" by simp
  have cg: "map_key ?kp ?kw s0 h (cell m) = map_key ?kp ?kw s h (cell m)" "region_of ?kp s0 = region_of ?kp s" "stack_ok s0"
    using map_key_cong [of s0 ?sA ?kp ?kw h "cell m"] ca ok(2) by simp_all
  have st1: "exec step (t_ops s0) st0 = (h, m)" using ca st by simp
  have "t_stack_hdr_of s0 = t_stack_hdr_of s" "t_maps s0 = t_maps s" using ca by (simp_all add: count_map_site_def)
  then have bA: "const_key ?kp a = None \<Longrightarrow> operand_ready ?kp 2 ?kw s0 h (ty m) len"
    using rdy operand_ready_cong [of s0 s] by simp
  obtain h1 m1 where x1: "exec step (t_ops s1) st0 = (h1, m1)" by fastforce
  note es = emit_slot_exec [OF e ok1 cg(3) refl nm(2,3) st1 bA x1]
  define sl where "sl = key mod ?n"
  have sl: "0 \<le> sl" "sl < ?n" using n(1) by (simp_all add: sl_def)
  have kk: "rd h1 t = sl" using es(5) nm(1) cg(1) by (simp add: sl_def key array_key_def split: option.split)
  note va = value_addr_u64 [OF sl(2,1) len]
  obtain h3 m3 where x3: "exec step (t_ops s3) st0 = (h3, m3)" by fastforce
  have h3: "h3 = h1(t_vp \<mapsto> sl * int (m_value_size mi), t_vp \<mapsto> int (m_value_off mi (nat sl)))" "cell m3 = cell m"
      "ty m3 = (ty m1)(t_vp := Some W64)"
    using arg_cong [where f = fst, OF x3] arg_cong [where f = "\<lambda>x. cell (snd x)", OF x3]
      arg_cong [where f = "\<lambda>x. ty (snd x)", OF x3] x1 kk va tv es(6,9)
    by (simp_all add: s3 konst_take_bit)
  have ent: "case const_key ?kp a of Some k \<Rightarrow> k < ?n | None \<Rightarrow> m_nslots mi = m_max_entries mi"
    using ca mi(1) nslots_entries(1) [OF n(2)] by (simp split: option.splits)
  then show "case const_key (a_reg a ! 2) a of Some k \<Rightarrow> k < int (m_nslots mi) | None \<Rightarrow> m_nslots mi = m_max_entries mi" .
  have keep: "rd h3 i = rd h i" "ty m3 i = ty m i" if "i < 30" for i
    using es(7) [of i] that h3 tv by simp_all
  obtain h4 m4 where x4: "exec step (t_ops s') st0 = (h4, m4)" by fastforce
  have h4: "rd h4 t_vp = int (m_value_off mi (nat sl)) \<and> rd h4 t = sl \<and> (ck = None \<longrightarrow> rd h4 t_key = sl)
      \<and> cell m4 = cell m \<and> (\<forall>i < 30. rd h4 i = rd h i \<and> ty m4 i = ty m i)
      \<and> (ck = None \<longrightarrow> 30 \<le> t_key \<and> ty m4 t_key = Some W64) \<and> ty m4 t = Some W64 \<and> ty m4 t_vp = Some W64"
  proof (cases ck)
    case None
    then obtain s4 where g: "fresh_tmp idx s3 = (t_key, s4)" "s' = emit (op_cast W64 W64 (hdr t) t_key) s4"
      using c by blast
    then have "\<not> t_had_error s4" using ok(1) by simp
    note tk = fresh_tmp_taken [OF g(1) this]
    have "h4 = h3(t_key \<mapsto> sl)" "cell m4 = cell m" "ty m4 = (ty m3)(t_key := Some W64)"
      using arg_cong [where f = fst, OF x4] arg_cong [where f = "\<lambda>x. cell (snd x)", OF x4]
        arg_cong [where f = "\<lambda>x. ty (snd x)", OF x4] x3 h3 kk g(2) tk va(5) es(3,9) tv
      by simp_all
    with h3 kk keep None tk tv es(3,9) s3 show ?thesis by auto
  next
    case Some
    with c x3 x4 h3 kk keep tv es(3,9) show ?thesis by auto
  qed
  obtain hd md where hd: "step (set_pc_op (DECIDE_PC start) H_PC) (h4, m4) = (hd, md)" by fastforce
  have d: "rd hd H_PC = int (DECIDE_PC start)" "\<And>n. n \<noteq> H_PC \<Longrightarrow> rd hd n = rd h4 n" "cell md = cell m"
      "ty md = (ty m4)(H_PC := Some W64)"
    using run_decision(2,3) [OF pc(1,3,2) x4] step_pc(2,3) [of "DECIDE_PC start" "(h4, m4)"] h4 unfolding hd by auto
  define en where "en = (case ck of Some k \<Rightarrow> cmp_entry t CmpEq (match_const (k mod ?n) W64)
      | None \<Rightarrow> cmp_entry t_key CmpLt (match_const (int (m_max_entries mi)) W64))"
  have t: "t \<noteq> H_PC" "t_vp \<noteq> H_PC" using es(2) tv by simp_all
  have "?n < 2 ^ 64" using nm by simp
  then have "holds en hd"
    using holds_const [of hd t W64 sl CmpEq] holds_const [of hd t_key W64 ?n CmpLt] sl d(2) [OF t(1)] d(2) [of t_key] h4 ent es(1)
    by (auto simp: en_def term_defs take_bit_int_id va(5) sl_def key array_key_def split: option.splits)
  moreover have "entry_typed (ty md) en" "ty md H_PC = Some W64"
    using h4 es(1,2) by (auto simp: en_def d(4) split: option.split)
  ultimately have eq: "(h', m') = step (set_pc_op pc H_PC) (exec step (op_binop AddOp W64 (hdr t_vp) (konst 0) (H_REG 0) []) (hd, md))"
    using xf_arms [where st = "(hd, md)" and js = "[()]" and E = "\<lambda>_. [en]" and body = "\<lambda>_. [assign_op (H_REG 0) t_vp]"
        and start = start and pc = pc and rest = "[([], [zero_op (H_REG 0)])]", unfolded fst_conv, OF d(1) pc(3)]
    unfolding run [symmetric] run_decision(1) [OF pc(1,3,2) x4, unfolded hd] arms arms_of_array_def en_def [symmetric]
      assign_op_binop by simp
  have "take_bit 64 (int (m_value_off mi (nat sl))) = int (m_value_off mi (nat sl))"
    using sl by (intro value_off_u64 [OF _ len]) linarith
  moreover have "ty md t_vp = Some W64" using h4 t(2) by (simp add: d(4) del: H_PC_def)
  ultimately have r: "h' = hd(H_REG 0 \<mapsto> int (m_value_off mi (nat sl)), H_PC \<mapsto> int pc)" "cell m' = cell m"
    "ty m' = (ty md)(H_REG 0 := Some W64, H_PC := Some W64)"
    using arg_cong [where f = fst, OF eq] arg_cong [where f = "\<lambda>x. cell (snd x)", OF eq]
      arg_cong [where f = "\<lambda>x. ty (snd x)", OF eq] pc(4) d(3) d(2) [OF t(2)] h4
    by (simp_all add: step_pc take_bit_int_id konst_take_bit del: H_PC_def H_REG_def)
  show "rd h' (H_REG 0) = int (m_value_off mi (nat (key mod ?n)))" "rd h' H_PC = int pc" "ty m' (H_REG 0) = Some W64"
    by (simp_all add: r(1,3) sl_def)
  show "cell m' = cell m" by (rule r(2))
  show "0 < i \<Longrightarrow> i < 11 \<Longrightarrow> rd h' (H_REG i) = rd h (H_REG i) \<and> ty m' (H_REG i) = ty m (H_REG i)"
    using d(2) [of "H_REG i"] h4 by (simp add: r(1,3) d(4))
qed

end

section \<open>Update\<close>

lemma copy_map_value_failed:
  "copy_map_value idx vp mi mp dest ops s = ((False, ops'), s') \<Longrightarrow> t_had_error s'"
  by (auto simp: copy_map_value_def Let_def split_beta split: if_splits)

lemma emit_slot_const:
  "const_key kp a = Some k \<Longrightarrow> emit_slot idx mp kp a kw s =
     ((Some (fst (fresh_tmp idx s)), Some k),
      emit (op_set (fst (fresh_tmp idx s)) (k mod int (m_nslots (t_maps s ! mp)))) (snd (fresh_tmp idx s)))"
  by (auto simp: emit_slot_def Let_def split_beta)

lemma clobber_slots: "a_slot (clobber a) = a_slot a"
proof -
  have "a_slot (fold (\<lambda>r. set_reg r SCALAR) xs a) = a_slot a" for xs
    by (induction xs arbitrary: a) (simp_all add: set_reg_def)
  then show ?thesis by (simp only: clobber_def)
qed

lemma const_key_clobber: "const_key kp (clobber a) = const_key kp a"
  by (simp only: const_key_def clobber_slots)

lemma check_array_key_failed: "check_array_key idx mp k s = (False, s') \<Longrightarrow> t_had_error s'"
  by (auto simp: check_array_key_def Let_def split: option.splits if_splits)

text \<open>What an accepted update of an array map emits: no decision, the write is part of the block.\<close>

lemma emit_map_update_array:
  assumes "emit_map_update idx a s = Some (arms, a', s')" "\<not> t_had_error s'" "mp = nat (ri_mapidx (a_reg a ! 1))"
    and "mi = t_maps s ! mp" "m_is_array mi" "0 < m_max_entries mi"
  obtains k s0 t s1 t_dst s2 s3 ops s4 where "const_key (a_reg a ! 2) a = Some k" "arms = None"
    "check_array_key idx mp (Some k) s = (True, s0)"
    "fresh_tmp idx (count_map_site mp (s0\<lparr>t_tmp_next := 0\<rparr>)) = (t, s1)"
    "fresh_tmp idx (emit (op_set t (k mod int (m_nslots mi))) s1) = (t_dst, s2)"
    "s3 = emit (op_binop AddOp W64 (hdr t_dst) (konst (int (m_value_base mi))) t_dst)
       (emit (op_binop MulOp W64 (hdr t) (konst (int (m_value_size mi))) t_dst) s2)"
    "copy_map_value idx (a_reg a ! 3) mi mp (hdr t_dst) (t_ops s3) s3 = ((True, ops), s4)"
    "s' = emit (op_set (H_REG 0) 0) (s4\<lparr>t_ops := ops\<rparr>)"
proof -
  have c: "check_map_modelled idx mi s = (True, s)"
    using assms(5) by (simp add: m_is_array_def check_map_modelled_def)
  obtain okb s0 where c0: "check_array_key idx mp (const_key (a_reg a ! 2) a) s = (okb, s0)" by fastforce
  let ?s = "count_map_site mp (s0\<lparr>t_tmp_next := 0\<rparr>)" and ?kw = "width_name (int (m_key_size mi))"
  have okb: okb
    using assms c c0 check_array_key_failed [of idx mp _ s s0]
    by (cases okb) (auto simp: emit_map_update_def Let_def simp del: insert_iff One_nat_def split: if_splits)
  note fl = check_array_key_fields [OF c0 [unfolded eqTrueI [OF okb]]]
  obtain k where k: "const_key (a_reg a ! 2) a = Some k"
    using assms c c0 okb
    by (cases "const_key (a_reg a ! 2) a") (auto simp: emit_map_update_def Let_def simp del: insert_iff One_nat_def split: if_splits)
  have "k < int (m_max_entries mi)"
    using fl k assms(4) nslots_entries(1) [OF assms(6)] by simp
  with assms c c0 okb k have e: "emit_array_update idx mp mi (a_reg a ! 2) (a_reg a ! 3) (clobber a) ?kw ?s = (arms, a', s')"
    by (auto simp: emit_map_update_def Let_def simp del: insert_iff One_nat_def split: if_splits)
  have k': "const_key (a_reg a ! 2) (clobber a) = Some k"
    using k by (simp add: const_key_clobber)
  obtain t s1 where f: "fresh_tmp idx ?s = (t, s1)" by fastforce
  let ?s1 = "emit (op_set t (k mod int (m_nslots mi))) s1"
  have n: "t_maps ?s ! mp = mi" using fl assms(4) by simp
  obtain t_dst s2 where g: "fresh_tmp idx ?s1 = (t_dst, s2)" by fastforce
  define s3 where "s3 = emit (op_binop AddOp W64 (hdr t_dst) (konst (int (m_value_base mi))) t_dst)
       (emit (op_binop MulOp W64 (hdr t) (konst (int (m_value_size mi))) t_dst) s2)"
  obtain okc ops s4 where cp: "copy_map_value idx (a_reg a ! 3) mi mp (hdr t_dst) (t_ops s3) s3 = ((okc, ops), s4)"
    by (metis prod.collapse)
  note r = e [unfolded emit_array_update_def emit_slot_const [OF k'] Let_def split_beta fst_conv snd_conv f n option.case g
      s3_def [symmetric] cp]
  have okc: okc
    using r assms(2) copy_map_value_failed [of idx "a_reg a ! 3" mi mp "hdr t_dst" "t_ops s3" s3 ops s4] cp
    by (cases okc) (auto split: if_splits)
  show ?thesis
    by (rule that [OF k _ c0 [unfolded k eqTrueI [OF okb]] f g s3_def cp [unfolded eqTrueI [OF okc]]])
       (use r okc in \<open>simp_all\<close>)
qed

context region_machine
begin

lemma array_update_exec:
  assumes em: "emit_map_update idx a s = Some (arms, a', s')" and ok: "\<not> t_had_error s'" "stack_ok s"
    and mi: "mi = t_maps s ! mp" "mp = nat (ri_mapidx (a_reg a ! 1))" "m_is_array mi"
    and n: "0 < m_nslots mi" "0 < m_max_entries mi" and vs: "m_value_size mi \<in> {1, 2, 4, 8}"
    and len: "m_length mi \<le> len (REGION_MAP mp)" "m_length mi < 2 ^ 64"
    and st: "exec step (t_ops s) st0 = (h, m)"
    and rdy: "operand_ready (a_reg a ! 3) 3 (width_name (int (m_value_size mi))) s h (ty m) len"
    and v: "v = map_value (a_reg a ! 3) (m_value_size mi) s h (cell m)"
    and run: "exec step (t_ops s') st0 = (h', m')"
  shows "\<exists>k. const_key (a_reg a ! 2) a = Some k \<and> k < int (m_nslots mi) \<and> arms = None
      \<and> cell m' = (cell m)(REGION_MAP mp :=
           le_write (cell m (REGION_MAP mp)) (m_value_off mi (nat (k mod int (m_nslots mi)))) (m_value_size mi) v)"
    and "rd h' (H_REG 0) = 0" and "ty m' (H_REG 0) = Some W64"
    and "0 < i \<Longrightarrow> i < 11 \<Longrightarrow> rd h' (H_REG i) = rd h (H_REG i) \<and> ty m' (H_REG i) = ty m (H_REG i)"
proof -
  let ?vp = "a_reg a ! 3" and ?n = "int (m_nslots mi)" and ?rg = "REGION_MAP mp" and ?vw = "width_name (int (m_value_size mi))"
  obtain k s0 t s1 t_dst s2 s3 ops s4 where k: "const_key (a_reg a ! 2) a = Some k" "arms = None"
    and c0: "check_array_key idx mp (Some k) s = (True, s0)"
    and f: "fresh_tmp idx (count_map_site mp (s0\<lparr>t_tmp_next := 0\<rparr>)) = (t, s1)"
    and g: "fresh_tmp idx (emit (op_set t (k mod ?n)) s1) = (t_dst, s2)"
    and s3: "s3 = emit (op_binop AddOp W64 (hdr t_dst) (konst (int (m_value_base mi))) t_dst)
       (emit (op_binop MulOp W64 (hdr t) (konst (int (m_value_size mi))) t_dst) s2)"
    and cp: "copy_map_value idx ?vp mi mp (hdr t_dst) (t_ops s3) s3 = ((True, ops), s4)"
    and s': "s' = emit (op_set (H_REG 0) 0) (s4\<lparr>t_ops := ops\<rparr>)"
    by (rule emit_map_update_array [OF em ok(1) mi(2,1,3) n(2)])
  note ca = check_array_key_fields [OF c0]
  have ok4: "\<not> t_had_error s4" using s' ok(1) by simp
  then have "\<not> t_had_error s2" using extends_error [OF copy_map_value_frame(1) [OF cp]] s3 by simp
  note g' = fresh_tmp_taken [OF g this]
  then have "\<not> t_had_error s1" by simp
  note f' = fresh_tmp_taken [OF f this]
  have s3': "t_stack_hdr_of s3 = t_stack_hdr_of s" "t_maps s3 = t_maps s" "t_tmp_next s3 = 2"
    using ca f' g' s3 by (simp_all add: count_map_site_def)
  define sl where "sl = k mod ?n"
  have sl: "0 \<le> sl" "sl < ?n" using n(1) by (simp_all add: sl_def)
  note va = value_addr_u64 [OF sl(2,1) len(2)]
  have vo: "take_bit 64 (int (m_value_off mi (nat sl))) = int (m_value_off mi (nat sl))"
    using sl by (intro value_off_u64 [OF _ len(2)]) linarith
  obtain h3 m3 where x3: "exec step (t_ops s3) st0 = (h3, m3)" by fastforce
  have o3: "t_ops s3 = op_binop AddOp W64 (hdr t_dst) (konst (int (m_value_base mi))) t_dst
      (op_binop MulOp W64 (hdr t) (konst (int (m_value_size mi))) t_dst (op_set t sl (t_ops s)))"
    using ca f' g' s3 by (simp add: sl_def)
  have h3: "h3 = h(t \<mapsto> sl, t_dst \<mapsto> sl * int (m_value_size mi), t_dst \<mapsto> int (m_value_off mi (nat sl)))"
    "cell m3 = cell m" "ty m3 = (ty m)(t := Some W64, t_dst := Some W64)"
    using arg_cong [where f = fst, OF x3] arg_cong [where f = "\<lambda>x. cell (snd x)", OF x3]
      arg_cong [where f = "\<lambda>x. ty (snd x)", OF x3] st va vo f' g' ca
    by (simp_all add: o3 konst_take_bit)
  have tt: "t = 30" "t_dst = 31" using f' g' by simp_all
  have w: "width_bytes ?vw = m_value_size mi" "width_bits ?vw = 8 * m_value_size mi"
    using width_name_bytes [OF vs] vs by (auto simp: width_name_def)
  have dest: "eval_operand (hdr t_dst) h3 = int (m_value_off mi (nat sl))" "m_value_off mi (nat sl) + width_bytes ?vw \<le> len ?rg"
    using h3(1) va(6) len(1) w by (simp_all add: hdr_def)
  have res: "cell (snd (exec step ops st0)) = (cell m)(?rg := le_write (cell m ?rg) (m_value_off mi (nat sl)) (m_value_size mi) v)
      \<and> (\<forall>i < 30. rd (fst (exec step ops st0)) i = rd h i \<and> ty (snd (exec step ops st0)) i = ty m i)"
  proof (cases "ri_tag ?vp = T_STACK")
    case True
    obtain sh where sh: "t_stack_hdr_of s (- ri_off ?vp) = Some sh" "ty m sh = Some ?vw"
      using rdy True by (auto simp: operand_ready_def split: option.splits)
    then have sh100: "100 \<le> sh" using ok(2) by (auto simp: stack_ok_def ran_def)
    from copy_map_value_small [OF cp vs ok4, of sh] True sh s3'
    have c: "fst (stack_header (- ri_off ?vp) s3) = sh" "ops = op_store ?vw ?rg (hdr t_dst) (hdr sh) (t_ops s3)" by simp_all
    have "fst (stack_header (- ri_off ?vp) s) = sh"
      using c(1) sh(1) s3'(1) by (simp add: stack_header_def split: if_splits)
    then have "le_write (cell m ?rg) ofs (m_value_size mi) v = le_write (cell m ?rg) ofs (m_value_size mi) (rd h sh)" for ofs
      using True by (simp add: v map_value_def le_write_take_bit)
    with exec_store [of "t_ops s3" st0 "hdr t_dst" ?vw ?rg "hdr sh", unfolded x3] c(2) dest h3 sh sh100 tt w
    show ?thesis by (auto simp: hdr_def)
  next
    case False
    let ?l = "op_load ?vw (region_of ?vp s3) (hdr (H_REG 3)) 32 (t_ops s3)"
    from copy_map_value_small [OF cp vs ok4] False s3'(3)
    have c: "ops = op_store ?vw ?rg (hdr t_dst) (hdr 32) ?l" by simp
    have r: "region_of ?vp s3 = region_of ?vp s" using s3'(2) by (simp add: region_of_def)
    have ld: "fst (exec step ?l st0) = h3(32 \<mapsto> v)" "cell (snd (exec step ?l st0)) = cell m"
        "ty (snd (exec step ?l st0)) = (ty m3)(32 := Some ?vw)"
      using exec_load [of "t_ops s3" st0 "hdr (H_REG 3)" ?vw "region_of ?vp s3" 32, unfolded x3] rdy [unfolded operand_ready_def] w h3 tt r False
      by (simp_all add: v map_value_def hdr_def)
    with exec_store [of ?l st0 "hdr t_dst" ?vw ?rg "hdr 32"] c dest h3 tt w
    show ?thesis by (auto simp: hdr_def)
  qed
  show "\<exists>k. const_key (a_reg a ! 2) a = Some k \<and> k < int (m_nslots mi) \<and> arms = None
      \<and> cell m' = (cell m)(REGION_MAP mp :=
           le_write (cell m (REGION_MAP mp)) (m_value_off mi (nat (k mod int (m_nslots mi)))) (m_value_size mi) v)"
    using k ca mi(1) res arg_cong [where f = "\<lambda>x. cell (snd x)", OF run] by (simp add: s' sl_def)
  show "rd h' (H_REG 0) = 0" and "ty m' (H_REG 0) = Some W64"
    and "0 < i \<Longrightarrow> i < 11 \<Longrightarrow> rd h' (H_REG i) = rd h (H_REG i) \<and> ty m' (H_REG i) = ty m (H_REG i)"
    using res arg_cong [where f = fst, OF run] arg_cong [where f = "\<lambda>x. ty (snd x)", OF run]
    by (auto simp: s' dest!: sym [where t = h'] sym [where t = "ty m'"])
qed

end

end
