(* ===== verification/Array_Laws.thy ===== *)
theory Array_Laws
  imports Array_Model Map_Laws
begin

text \<open>
  The array maps: a lookup of a declared entry returns the address of its value, and an update with a
  key known at translation time writes that value and nothing else.
\<close>

section \<open>An array of two entries for the witnesses\<close>

definition demo_array :: map_info where
  "demo_array = demo_map\<lparr>m_type := 2\<rparr>"

definition demo_astate :: tstate where
  "demo_astate = demo_state\<lparr>t_maps := [demo_array]\<rparr>"

text \<open>The same registers, with the key slot known to hold 1.\<close>

definition demo_aregs :: abs_state where
  "demo_aregs = demo_regs\<lparr>a_slot := (a_slot demo_regs)[4 := scalar_const 1]\<rparr>"

lemma demo_array_facts:
  "stack_ok demo_astate" "t_ops demo_astate = []" "t_maps demo_astate = [demo_array]" "m_is_array demo_array"
  "m_length demo_array = 10" "m_nslots demo_array = 2" "m_max_entries demo_array = 2" "m_key_size demo_array = 4"
  "m_value_size demo_array = 4" "m_value_off demo_array (Suc 0) = 6" "m_family demo_array = Some FAMILY_ARRAY"
  "m_value_base demo_array = 2" "\<not> t_had_error demo_astate" "t_stack_hdr_of demo_astate = [4 \<mapsto> 100, 8 \<mapsto> 101]"
  "map_key (a_reg demo_regs ! 2) W32 demo_astate demo_hdrs c = 7"
  "map_value (a_reg demo_regs ! 3) 4 demo_astate demo_hdrs c = 9" "a_reg demo_aregs = a_reg demo_regs"
  using demo_stack_ok demo_facts
  by (simp_all add: demo_array_def demo_astate_def demo_aregs_def demo_map_def layout_defs m_nslots_def m_is_array_def
      m_family_def m_tagged_def ARRAY_TYPES_def HASH_TYPES_def stack_ok_def map_key_def map_value_def stack_header_def
      demo_hdrs_def rd_def)

lemma demo_const_key: "const_key (a_reg demo_regs ! 2) demo_regs = None" "const_key (a_reg demo_regs ! 2) demo_aregs = Some 1"
  by (simp_all add: const_key_def demo_facts demo_aregs_def demo_regs_def set_reg_def abs_init_def scalar_const_def SCALAR_def pointer_def
      Let_def take_bit_int_id)

lemma demo_array_lookup:
  "\<exists>arms a' s'. emit_map_lookup 5 demo_regs demo_astate = Some (Some arms, a', s') \<and> \<not> t_had_error s'"
  by (simp add: emit_map_lookup_def check_map_modelled_def emit_array_lookup_def demo_const_key check_array_key_def
      emit_slot_def read_map_key_def stack_header_def fresh_tmp_def count_map_site_def emit_def demo_array_facts demo_facts Let_def)

lemma demo_array_update:
  "\<exists>a' s'. emit_map_update 5 demo_aregs demo_astate = Some (None, a', s') \<and> \<not> t_had_error s'"
  by (simp add: emit_map_update_def check_map_modelled_def emit_array_update_def demo_const_key check_array_key_def
      emit_slot_const [where k = 1] const_key_clobber copy_map_value_def stack_header_def fresh_tmp_def
      count_map_site_def emit_def demo_array_facts demo_facts Let_def)

section \<open>Lookup\<close>

text \<open>
  What the emitted code does for any key.  The lookup of a key outside the array does not give NULL as
  the comment on \<open>emit_array_lookup\<close> says: the key is compared after the reduction modulo the number of slots.
\<close>

lemma array_lookup_wraps:
  assumes "region_machine holds step xf cell ty len"
    and "emit_map_lookup idx a s = Some (Some arms, a', s')" and "\<not> t_had_error s'" and "stack_ok s"
    and "mi = t_maps s ! mp" and "mp = nat (ri_mapidx (a_reg a ! 1))" and "m_is_array mi"
    and "0 < m_nslots mi" and "0 < m_max_entries mi" and "m_length mi < 2 ^ 64"
    and "exec step (t_ops s) st0 = (h, m)"
    and "const_key (a_reg a ! 2) a = None \<Longrightarrow>
          operand_ready (a_reg a ! 2) 2 (width_name (int (m_key_size mi))) s h (ty m) len"
    and "rd (fst st0) H_PC = int (BLOCK_PC start)" and "ty (snd st0) H_PC = Some W64"
    and "start \<le> MAX_INSNS" and "pc \<le> BLOCK_PC MAX_INSNS"
    and "key = array_key (a_reg a ! 2) a (width_name (int (m_key_size mi))) s h (cell m)"
    and "run_chain xf (drop (length (t_modules s'))
           (t_modules (push_block start cnd (Some arms) pc pc' pc'' s'))) st0 = (h', m')"
  shows "rd h' (H_REG 0) = int (m_value_off mi (nat (key mod int (m_nslots mi)))) \<and> 0 < rd h' (H_REG 0)"
proof -
  have "0 < m_value_off mi i" for i using assms(8) by (simp add: layout_defs)
  then show ?thesis using region_machine.array_lookup_exec(1) [OF assms] by simp
qed

text \<open>
  C25: The two transformers of a block that ends in a lookup of an array map, with a key below the
  declared number of entries, leave in register 0 the address of the value at that key; they write no
  region, no other register, and go on to the next block.  The key is the constant the translator
  records for its stack slot, or in a region, or in a stack slot that was stored at the width of the key.
\<close>

theorem array_lookup_correct:
  assumes "region_machine holds step xf cell ty len"
    and "emit_map_lookup idx a s = Some (Some arms, a', s')" and "\<not> t_had_error s'" and "stack_ok s"
    and "mi = t_maps s ! mp" and "mp = nat (ri_mapidx (a_reg a ! 1))" and "m_is_array mi"
    and "0 < m_nslots mi" and "m_length mi < 2 ^ 64"
    and "exec step (t_ops s) st0 = (h, m)"
    and "const_key (a_reg a ! 2) a = None \<Longrightarrow>
          operand_ready (a_reg a ! 2) 2 (width_name (int (m_key_size mi))) s h (ty m) len"
    and "rd (fst st0) H_PC = int (BLOCK_PC start)" and "ty (snd st0) H_PC = Some W64"
    and "start \<le> MAX_INSNS" and "pc \<le> BLOCK_PC MAX_INSNS"
    and "key = array_key (a_reg a ! 2) a (width_name (int (m_key_size mi))) s h (cell m)"
    and "0 \<le> key" and "key < int (m_max_entries mi)"
    and "run_chain xf (drop (length (t_modules s'))
           (t_modules (push_block start cnd (Some arms) pc pc' pc'' s'))) st0 = (h', m')"
  shows "rd h' (H_REG 0) = int (m_value_off mi (nat key)) \<and> nat key < m_nslots mi
    \<and> cell m' = cell m \<and> rd h' H_PC = int pc \<and> ty m' (H_REG 0) = Some W64
    \<and> (\<forall>i. 0 < i \<and> i < 11 \<longrightarrow> rd h' (H_REG i) = rd h (H_REG i) \<and> ty m' (H_REG i) = ty m (H_REG i))"
proof -
  have n: "0 < m_max_entries mi" using assms(17,18) by simp
  note r = region_machine.array_lookup_exec [OF assms(1-8) n assms(9-16,19)]
  have "key < int (m_nslots mi)"
    using r(2) assms(18) by (auto simp: assms(16) array_key_def split: option.splits)
  with assms(17) have "key mod int (m_nslots mi) = key" "nat key < m_nslots mi" by simp_all
  with r(1,3-6) show ?thesis by simp
qed

text \<open>The key slot holds 1 and the array has two entries: the address is that of entry 1.\<close>

definition demo_ahdrs :: hdrs where
  "demo_ahdrs = [1 \<mapsto> 1, 100 \<mapsto> 1]"

lemma demo_array_key:
  "map_key (a_reg demo_regs ! 2) W32 demo_astate demo_ahdrs c = 1" "rd demo_ahdrs (Suc 0) = 1"
  "operand_ready (a_reg demo_regs ! 2) 2 W32 demo_astate demo_ahdrs (rm_types demo_regions) len"
  by (simp_all add: map_key_def stack_header_def demo_array_facts demo_facts demo_ahdrs_def rd_def operand_ready_def
      demo_regions_def)

theorem array_lookup_correct_witness:
  "\<exists>arms a' s'. emit_map_lookup 5 demo_regs demo_astate = Some (Some arms, a', s')
     \<and> rd (fst (run_chain rm_rules (drop (length (t_modules s'))
           (t_modules (push_block 0 None (Some arms) 3 3 3 s'))) (demo_ahdrs, demo_regions))) (H_REG 0) = 6"
proof -
  obtain arms a' s' where e: "emit_map_lookup 5 demo_regs demo_astate = Some (Some arms, a', s')" "\<not> t_had_error s'"
    using demo_array_lookup by blast
  obtain h' m' where r: "run_chain rm_rules (drop (length (t_modules s'))
      (t_modules (push_block 0 None (Some arms) 3 3 3 s'))) (demo_ahdrs, demo_regions) = (h', m')" by fastforce
  from array_lookup_correct [OF rm.region_machine_axioms e demo_array_facts(1) refl refl _ _ _ _ _ _ _ _ _ refl _ _ r]
  have "rd h' (H_REG 0) = 6"
    using demo_ready(3) demo_array_key
    by (simp add: demo_facts demo_array_facts array_key_def demo_const_key width_name_def)
  with e(1) r show ?thesis by auto
qed

section \<open>Update\<close>

lemma slot_value_write:
  assumes "0 \<le> v" "v < 256 ^ m_value_size mi"
  shows "slot_value mi (le_write c (m_value_off mi i) (m_value_size mi) v) j = (if j = i then v else slot_value mi c j)"
proof -
  have "i \<noteq> j \<Longrightarrow> m_value_off mi i + m_value_size mi \<le> m_value_off mi j \<or> m_value_off mi j + m_value_size mi \<le> m_value_off mi i"
    using slot_interval_le [of i j "m_value_size mi"] slot_interval_le [of j i "m_value_size mi"]
    unfolding m_value_off_def by linarith
  then show ?thesis using le_read_write_same [OF assms] by (auto simp: slot_value_def le_read_write_other)
qed

text \<open>
  C26: A translated update of an array map has a key that is known at translation time and below the
  number of slots; the ops it adds to the block write the value of that entry and no other entry and
  no other region, and put 0 in register 0.  The value is in a region, or in a stack slot that was
  stored at the width of the value.
\<close>

theorem array_update_correct:
  assumes "region_machine holds step xf cell ty len"
    and "emit_map_update idx a s = Some (arms, a', s')" and "\<not> t_had_error s'" and "stack_ok s"
    and "mi = t_maps s ! mp" and "mp = nat (ri_mapidx (a_reg a ! 1))" and "m_is_array mi"
    and "0 < m_nslots mi" and "0 < m_max_entries mi" and "m_value_size mi \<in> {1, 2, 4, 8}"
    and "m_length mi \<le> len (REGION_MAP mp)" and "m_length mi < 2 ^ 64"
    and "exec step (t_ops s) st0 = (h, m)"
    and "operand_ready (a_reg a ! 3) 3 (width_name (int (m_value_size mi))) s h (ty m) len"
    and "v = map_value (a_reg a ! 3) (m_value_size mi) s h (cell m)"
    and "exec step (t_ops s') st0 = (h', m')"
  shows "\<exists>k. const_key (a_reg a ! 2) a = Some k \<and> k < int (m_nslots mi) \<and> arms = None
    \<and> (\<forall>i. slot_value mi (cell m' (REGION_MAP mp)) i
             = (if i = nat (k mod int (m_nslots mi)) then v else slot_value mi (cell m (REGION_MAP mp)) i))
    \<and> (\<forall>rg. rg \<noteq> REGION_MAP mp \<longrightarrow> cell m' rg = cell m rg)
    \<and> rd h' (H_REG 0) = 0 \<and> ty m' (H_REG 0) = Some W64
    \<and> (\<forall>i. 0 < i \<and> i < 11 \<longrightarrow> rd h' (H_REG i) = rd h (H_REG i) \<and> ty m' (H_REG i) = ty m (H_REG i))"
proof -
  have "0 \<le> v \<and> v < 256 ^ m_value_size mi"
    using region_machine.key_value_range(2) [OF assms(1) refl] by (simp add: assms(15))
  with region_machine.array_update_exec [OF assms] show ?thesis
    using slot_value_write [of v mi] by (auto simp: fun_upd_def)
qed

lemma demo_aready: "operand_ready (a_reg demo_regs ! 3) 3 W32 demo_astate demo_hdrs (rm_types demo_regions) len"
  by (simp add: operand_ready_def demo_facts demo_array_facts demo_regions_def)

theorem array_update_correct_witness:
  "\<exists>a' s'. emit_map_update 5 demo_aregs demo_astate = Some (None, a', s')
     \<and> slot_value demo_array (rm_cell (snd (exec rm_step (t_ops s') (demo_hdrs, demo_regions))) 10) 1 = 9"
proof -
  obtain a' s' where e: "emit_map_update 5 demo_aregs demo_astate = Some (None, a', s')" "\<not> t_had_error s'"
    using demo_array_update by blast
  obtain h' m' where r: "exec rm_step (t_ops s') (demo_hdrs, demo_regions) = (h', m')" by fastforce
  have "slot_value demo_array (rm_cell m' 10) 1 = 9"
    using array_update_correct [OF rm.region_machine_axioms e demo_array_facts(1) refl refl _ _ _ _ _ _ _ _ refl r] demo_aready
    by (simp add: demo_facts demo_array_facts demo_const_key width_name_def)
  with e(1) r show ?thesis by auto
qed

end
