(* ===== verification/Emission.thy ===== *)
theory Emission
  imports Program
begin

text \<open>
  The text of a translated program, \<open>emit_program\<close>: the regions, the modules between a parser and
  a deparser, and the edges that chain them.
\<close>

definition net_edges :: "tstate \<Rightarrow> (nat \<times> nat) list" where
  "net_edges s =
     [(MOD_PARSER, MOD_FIRST_XFRM)]
     @ map (\<lambda>m. (m, m + 1)) [MOD_FIRST_XFRM..<t_next_mod s - 1]
     @ [(t_next_mod s - 1, MOD_DEPARSER)]"

definition mem_regions :: "tstate \<Rightarrow> (nat \<times> nat) list" where
  "mem_regions s =
     [(REGION_CTX, c_length (t_ctx s)), (REGION_PKT, PKT_LEN)]
     @ map (\<lambda>i. (REGION_MAP i, m_length (t_maps s ! i))) [0..<length (t_maps s)]"

definition show_parser :: string where
  "show_parser = ''(ParserModule '' @ show_nat MOD_PARSER @ '' ((parser_start 1) (parser_states ''
     @ ''(Coq_cons ((psd_label 1) (psd_action None) ''
     @ ''(psd_trans (Unconditional Accept))) Coq_nil))))''"

definition show_deparser :: string where
  "show_deparser = ''(DeparserModule '' @ show_nat MOD_DEPARSER @ '' (Coq_cons (EmitOpConstructor ''
     @ show_nat (H_REG 0) @ '' 32) '' @ ''Coq_nil))''"

definition show_edge :: "nat \<times> nat \<Rightarrow> string" where
  "show_edge e = ''('' @ show_nat (fst e) @ '' '' @ show_nat (snd e) @ '')''"

definition show_region :: "nat \<times> nat \<Rightarrow> string" where
  "show_region r = ''((mr_id '' @ show_nat (fst r) @ '') (mr_len '' @ show_nat (snd r) @ ''))''"

text \<open>\<open>" ".join(items)\<close>.\<close>

fun join_spaces :: "string list \<Rightarrow> string" where
  "join_spaces [] = ''''"
| "join_spaces [x] = x"
| "join_spaces (x # xs) = x @ '' '' @ join_spaces xs"

definition newline :: string where "newline = [CHR 0x0A]"

definition map_comment :: "nat \<Rightarrow> map_info \<Rightarrow> string" where
  "map_comment i m =
     ''  ; region '' @ show_nat (REGION_MAP i) @ '' = map '' @ m_name m @ '' (key '' @ show_nat (m_key_size m)
     @ '', value '' @ show_nat (m_value_size m) @ '', '' @ show_nat (m_nslots m) @ '' of ''
     @ show_nat (m_max_entries m) @ '' slots)'' @ newline"

definition emit_program :: "tstate \<Rightarrow> string" where
  "emit_program s =
     ''(GeneralCaracaraProgramDef 0'' @ newline
     @ concat (map (\<lambda>i. map_comment i (t_maps s ! i)) [0..<length (t_maps s)])
     @ ''  '' @ coq_list (map show_region (mem_regions s)) @ newline
     @ ''  ((net_modules '' @ coq_list ([show_parser] @ map show_module (t_modules s) @ [show_deparser])
     @ '')'' @ newline
     @ ''   (net_edges ('' @ join_spaces (map show_edge (net_edges s)) @ ''))'' @ newline
     @ ''   (start_module '' @ show_nat MOD_PARSER @ '')))'' @ newline"

end
