(* ===== verification/Elf.thy ===== *)
theory Elf
  imports Bpf_Insn
begin

text \<open>
  The ELF reader, \<open>src/pybpf/elf.py\<close>: the section table, the symbols of the first symbol table,
  and the relocations that apply to a section; and \<open>build\<close> of \<open>src/tests/mkobj.py\<close>, which writes
  the objects the tests run the translator on.

  A Python \<open>str\<close> is represented by the characters of its UTF-8 encoding, so \<open>encode()\<close> is the
  identity and a comparison with an ASCII literal is a comparison of characters.  A struct format
  is the list of its field widths; only the addend of a RELA entry is signed, and it is not used.
\<close>

section \<open>Struct formats\<close>

definition EHDR_FMT :: "nat list" where "EHDR_FMT = [16, 2, 2, 4, 8, 8, 8, 4, 2, 2, 2, 2, 2, 2]"
definition SHDR_FMT :: "nat list" where "SHDR_FMT = [4, 4, 8, 8, 8, 8, 4, 4, 8, 8]"
definition SYM_FMT :: "nat list" where "SYM_FMT = [4, 1, 1, 2, 8, 8]"
definition REL_FMT :: "nat list" where "REL_FMT = [8, 8]"
definition RELA_FMT :: "nat list" where "RELA_FMT = [8, 8, 8]"

lemmas fmt_defs = EHDR_FMT_def SHDR_FMT_def SYM_FMT_def REL_FMT_def RELA_FMT_def

text \<open>\<open>struct.unpack_from\<close>: \<open>None\<close> is the exception it raises when the buffer is too short.\<close>

fun unpack_fields :: "nat list \<Rightarrow> byte list \<Rightarrow> int list" where
  "unpack_fields [] bs = []"
| "unpack_fields (w # ws) bs = le_uint (take w bs) # unpack_fields ws (drop w bs)"

definition unpack_from :: "nat list \<Rightarrow> byte list \<Rightarrow> nat \<Rightarrow> int list option" where
  "unpack_from fmt blob ofs =
     (if ofs + sum_list fmt \<le> length blob then Some (unpack_fields fmt (drop ofs blob)) else None)"

text \<open>\<open>struct.pack\<close> of values in range.\<close>

fun pack :: "nat list \<Rightarrow> nat list \<Rightarrow> byte list" where
  "pack (w # ws) (v # vs) = le_bytes w (int v) @ pack ws vs"
| "pack _ _ = []"

text \<open>\<open>blob[a:a+n]\<close>.\<close>

definition slice :: "nat \<Rightarrow> nat \<Rightarrow> 'a list \<Rightarrow> 'a list" where
  "slice a n xs = take n (drop a xs)"

section \<open>Strings\<close>

text \<open>
  \<open>decode("utf-8", "replace")\<close>.  The continuation ranges a lead byte asks for; a byte that is no
  lead byte, or a sequence that breaks off, becomes one U+FFFD for the bytes matched so far.
\<close>

definition utf8_tail :: "nat \<Rightarrow> (nat \<times> nat) list option" where
  "utf8_tail b =
     (if b < 0x80 then Some []
      else if 0xc2 \<le> b \<and> b \<le> 0xdf then Some [(0x80, 0xbf)]
      else if b = 0xe0 then Some [(0xa0, 0xbf), (0x80, 0xbf)]
      else if b = 0xed then Some [(0x80, 0x9f), (0x80, 0xbf)]
      else if 0xe1 \<le> b \<and> b \<le> 0xef then Some [(0x80, 0xbf), (0x80, 0xbf)]
      else if b = 0xf0 then Some [(0x90, 0xbf), (0x80, 0xbf), (0x80, 0xbf)]
      else if 0xf1 \<le> b \<and> b \<le> 0xf3 then Some [(0x80, 0xbf), (0x80, 0xbf), (0x80, 0xbf)]
      else if b = 0xf4 then Some [(0x80, 0x8f), (0x80, 0xbf), (0x80, 0xbf)]
      else None)"

fun utf8_match :: "(nat \<times> nat) list \<Rightarrow> nat list \<Rightarrow> nat" where
  "utf8_match ((lo, hi) # rs) (b # bs) = (if lo \<le> b \<and> b \<le> hi then Suc (utf8_match rs bs) else 0)"
| "utf8_match _ _ = 0"

definition REPLACEMENT :: "nat list" where "REPLACEMENT = [0xef, 0xbf, 0xbd]"

function utf8_replace :: "nat list \<Rightarrow> nat list" where
  "utf8_replace [] = []"
| "utf8_replace (b # bs) =
     (case utf8_tail b of
        None \<Rightarrow> REPLACEMENT @ utf8_replace bs
      | Some rs \<Rightarrow>
          let n = utf8_match rs bs
          in (if n = length rs then b # take n bs else REPLACEMENT) @ utf8_replace (drop n bs))"
  by pat_completeness auto
termination by (relation "measure length") auto

definition decode_str :: "byte list \<Rightarrow> string" where
  "decode_str bs = map char_of (utf8_replace (map unat bs))"

definition cstr :: "byte list \<Rightarrow> nat \<Rightarrow> string" where
  "cstr blob ofs =
     (if ofs \<ge> length blob then []
      else decode_str (takeWhile (\<lambda>b. b \<noteq> 0) (drop ofs blob)))"

section \<open>The object\<close>

definition ELFMAG :: "byte list" where "ELFMAG = [0x7f, 0x45, 0x4c, 0x46]"
definition SHT_PROGBITS :: nat where [simp]: "SHT_PROGBITS = 1"
definition SHT_SYMTAB :: nat where [simp]: "SHT_SYMTAB = 2"
definition SHT_STRTAB :: nat where [simp]: "SHT_STRTAB = 3"
definition SHT_RELA :: nat where [simp]: "SHT_RELA = 4"
definition SHT_NOBITS :: nat where [simp]: "SHT_NOBITS = 8"
definition SHT_REL :: nat where [simp]: "SHT_REL = 9"
definition SHF_EXECINSTR :: nat where [simp]: "SHF_EXECINSTR = 4"
definition STT_SECTION :: nat where [simp]: "STT_SECTION = 3"
definition R_BPF_64_64 :: nat where [simp]: "R_BPF_64_64 = 1"

record elf_section =
  sec_index :: nat
  sec_name :: string
  sec_type :: nat
  sec_flags :: nat
  sec_offset :: nat
  sec_size :: nat
  sec_link :: nat
  sec_info :: nat
  sec_data :: "byte list"

record elf_sym =
  sym_name :: string
  sym_info :: nat
  sym_shndx :: nat
  sym_value :: nat
  sym_size :: nat

definition sym_type :: "elf_sym \<Rightarrow> nat" where
  "sym_type y = sym_info y mod 16"

record elf =
  elf_blob :: "byte list"
  elf_sections :: "elf_section list"
  elf_symbols :: "elf_sym list"
  elf_symstr :: "byte list"

text \<open>What the constructor raises: \<open>ValueError\<close>, \<open>struct.error\<close> or \<open>IndexError\<close>.\<close>

datatype elf_exn = NotElf | StructError | BadShstrndx

definition elf_section_of :: "byte list \<Rightarrow> byte list \<Rightarrow> nat \<Rightarrow> int list \<Rightarrow> elf_section" where
  "elf_section_of blob shstr i r =
     \<lparr>sec_index = i, sec_name = cstr shstr (nat (r ! 0)), sec_type = nat (r ! 1), sec_flags = nat (r ! 2),
      sec_offset = nat (r ! 4), sec_size = nat (r ! 5), sec_link = nat (r ! 6), sec_info = nat (r ! 7),
      sec_data = (if nat (r ! 1) \<noteq> SHT_NOBITS then slice (nat (r ! 4)) (nat (r ! 5)) blob else [])\<rparr>"

definition elf_sym_of :: "byte list \<Rightarrow> int list \<Rightarrow> elf_sym" where
  "elf_sym_of symstr r =
     \<lparr>sym_name = cstr symstr (nat (r ! 0)), sym_info = nat (r ! 1), sym_shndx = nat (r ! 3),
      sym_value = nat (r ! 4), sym_size = nat (r ! 5)\<rparr>"

text \<open>The symbols of the first symbol table: \<open>range(0, len(s.data), 24)\<close>, a last partial entry raises.\<close>

definition read_symbols :: "elf_section list \<Rightarrow> (byte list \<times> elf_sym list) option" where
  "read_symbols sections =
     (case filter (\<lambda>x. sec_type x = SHT_SYMTAB) sections of
        [] \<Rightarrow> Some ([], [])
      | x # _ \<Rightarrow>
          let symstr = (if sec_link x < length sections then sec_data (sections ! sec_link x) else [])
          in case those (map (\<lambda>k. unpack_from SYM_FMT (sec_data x) (24 * k))
                         [0..<(length (sec_data x) + 23) div 24]) of
               None \<Rightarrow> None
             | Some rs \<Rightarrow> Some (symstr, map (elf_sym_of symstr) rs))"

definition elf_init :: "byte list \<Rightarrow> elf_exn + elf" where
  "elf_init blob =
     (if take 4 blob \<noteq> ELFMAG then Inl NotElf
      else case unpack_from EHDR_FMT blob 0 of
        None \<Rightarrow> Inl StructError
      | Some h \<Rightarrow>
          (let shoff = nat (h ! 6); shentsize = nat (h ! 11); shnum = nat (h ! 12); shstrndx = nat (h ! 13)
           in case those (map (\<lambda>i. unpack_from SHDR_FMT blob (shoff + i * shentsize)) [0..<shnum]) of
                None \<Rightarrow> Inl StructError
              | Some raw \<Rightarrow>
                  (if shstrndx \<ge> length raw then Inl BadShstrndx
                   else (let shstr = slice (nat (raw ! shstrndx ! 4)) (nat (raw ! shstrndx ! 5)) blob;
                             sections = map2 (elf_section_of blob shstr) [0..<length raw] raw
                         in case read_symbols sections of
                              None \<Rightarrow> Inl StructError
                            | Some (symstr, symbols) \<Rightarrow>
                                Inr \<lparr>elf_blob = blob, elf_sections = sections,
                                     elf_symbols = symbols, elf_symstr = symstr\<rparr>))))"

definition find_section :: "elf \<Rightarrow> string \<Rightarrow> elf_section option" where
  "find_section e name = find (\<lambda>x. sec_name x = name \<and> sec_size x \<noteq> 0) (elf_sections e)"

text \<open>
  The entries of one relocation section, and all that apply to a section: offset, symbol index,
  type.  The loop's bound leaves out a partial last entry, so the read cannot fail.
\<close>

definition section_relocs :: "elf_section \<Rightarrow> (nat \<times> nat \<times> nat) list" where
  "section_relocs x =
     (let (fmt, esz) = (if sec_type x = SHT_RELA then (RELA_FMT, 24) else (REL_FMT, 16))
      in map (\<lambda>k. let vals = unpack_fields fmt (drop (esz * k) (sec_data x))
                  in (nat (vals ! 0), nat (vals ! 1 div 2 ^ 32), nat (vals ! 1 mod 2 ^ 32)))
           [0..<length (sec_data x) div esz])"

definition relocations :: "elf \<Rightarrow> nat \<Rightarrow> (nat \<times> nat \<times> nat) list" where
  "relocations e target_index =
     concat (map section_relocs
       (filter (\<lambda>x. sec_type x \<in> {SHT_REL, SHT_RELA} \<and> sec_info x = target_index) (elf_sections e)))"

section \<open>Writing an object\<close>

definition EM_BPF :: nat where "EM_BPF = 247"

definition obj_names :: "string \<Rightarrow> byte list" where
  "obj_names secname = [0] @ map of_char secname @ [0] @ map of_char ''.shstrtab'' @ [0]"

definition align8 :: "nat \<Rightarrow> nat" where
  "align8 n = (n + 7) div 8 * 8"

definition build :: "byte list \<Rightarrow> string \<Rightarrow> byte list" where
  "build text secname =
     (let names = obj_names secname;
          off_sec = 1;
          off_str = 1 + length secname + 1;
          ehdr_size = 64;
          text_off = ehdr_size;
          str_off = text_off + length text;
          sh_off = align8 (str_off + length names);
          shdrs = pack SHDR_FMT [0, 0, 0, 0, 0, 0, 0, 0, 0, 0]
            @ pack SHDR_FMT [off_sec, 1, 6, 0, text_off, length text, 0, 0, 8, 0]
            @ pack SHDR_FMT [off_str, 3, 0, 0, str_off, length names, 0, 0, 1, 0];
          ident = ELFMAG @ [2, 1, 1, 0] @ replicate 8 0;
          ehdr = ident @ pack (tl EHDR_FMT) [1, EM_BPF, 1, 0, 0, sh_off, 0, ehdr_size, 0, 0, 64, 3, 2];
          blob = ehdr @ text @ names
      in blob @ replicate (sh_off - length blob) 0 @ shdrs)"

section \<open>Reading what was written\<close>

lemma slice_0 [simp]: "slice a 0 xs = []"
  by (simp add: slice_def)

lemma length_pack: "length vs = length ws \<Longrightarrow> length (pack ws vs) = sum_list ws"
  by (induction ws vs rule: pack.induct) simp_all

lemma unpack_pack:
  "length vs = length ws \<Longrightarrow> \<forall>(w, v) \<in> set (zip ws vs). v < 2 ^ (8 * w)
   \<Longrightarrow> unpack_fields ws (pack ws vs @ rest) = map int vs"
proof (induction ws vs rule: pack.induct)
  case (1 w ws v vs)
  have "v < 2 ^ (8 * w)" using "1.prems"(2) by simp
  then have "int v < int (2 ^ (8 * w))" by (rule of_nat_less_iff [THEN iffD2])
  then have "take_bit (8 * w) (int v) = int v" by (intro take_bit_int_id) simp_all
  with 1 show ?case by (simp add: le_uint_le_bytes)
qed simp_all

lemma unpack_from_pack:
  assumes "length vs = length ws" "\<forall>(w, v) \<in> set (zip ws vs). v < 2 ^ (8 * w)" "n = length pre"
  shows "unpack_from ws (pre @ pack ws vs @ post) n = Some (map int vs)"
  using assms by (simp add: unpack_from_def unpack_pack length_pack)

lemma utf8_replace_ascii: "\<forall>b \<in> set bs. b < 0x80 \<Longrightarrow> utf8_replace bs = bs"
  by (induction bs) (simp_all add: utf8_tail_def)

lemma unat_of_char: "unat (of_char c :: byte) = of_char c"
proof -
  have "of_char c = (of_nat (of_char c) :: byte)" by (rule of_nat_of_char [symmetric])
  then have "unat (of_char c :: byte) = take_bit 8 (of_char c)" by (simp only: unsigned_of_nat) simp
  then show ?thesis by (simp add: take_bit_eq_mod)
qed

lemma decode_str_ascii:
  "\<forall>c \<in> set s. of_char c < (128 :: nat) \<Longrightarrow> decode_str (map of_char s) = s"
proof -
  assume a: "\<forall>c \<in> set s. of_char c < (128 :: nat)"
  have "map unat (map of_char s :: byte list) = map of_char s" by (simp add: unat_of_char)
  moreover have "utf8_replace (map of_char s) = map of_char s"
    by (rule utf8_replace_ascii) (use a in auto)
  ultimately show ?thesis by (simp add: decode_str_def del: map_map) (simp add: comp_def)
qed


lemma cstr_at:
  assumes "\<forall>c \<in> set s. of_char c \<in> {1 ..< 128 :: nat}"
  shows "cstr (pre @ map of_char s @ 0 # post) (length pre) = s"
proof -
  have "(of_char c :: byte) \<noteq> 0" if "c \<in> set s" for c
    using assms that unat_of_char [of c] by (metis atLeastLessThan_iff not_one_le_zero unsigned_0)
  then have "takeWhile (\<lambda>b. b \<noteq> 0) (map of_char s @ 0 # post) = (map of_char s :: byte list)"
    by (induction s) simp_all
  with assms show ?thesis by (simp add: cstr_def decode_str_ascii)
qed


text \<open>The object \<open>build\<close> writes, as the reader sees it.\<close>

definition built_obj :: "byte list \<Rightarrow> string \<Rightarrow> elf" where
  "built_obj text secname =
     (let names = obj_names secname; str_off = 64 + length text
      in \<lparr>elf_blob = build text secname,
          elf_sections =
           [\<lparr>sec_index = 0, sec_name = [], sec_type = 0, sec_flags = 0, sec_offset = 0, sec_size = 0,
             sec_link = 0, sec_info = 0, sec_data = []\<rparr>,
            \<lparr>sec_index = 1, sec_name = secname, sec_type = 1, sec_flags = 6, sec_offset = 64,
             sec_size = length text, sec_link = 0, sec_info = 0, sec_data = text\<rparr>,
            \<lparr>sec_index = 2, sec_name = ''.shstrtab'', sec_type = 3, sec_flags = 0, sec_offset = str_off,
             sec_size = length names, sec_link = 0, sec_info = 0, sec_data = names\<rparr>],
          elf_symbols = [], elf_symstr = []\<rparr>)"

lemma align8_ge: "n \<le> align8 n" "align8 n < n + 8"
  unfolding align8_def by linarith+

lemma elf_init_build:
  assumes "\<forall>c \<in> set secname. of_char c \<in> {1 ..< 128 :: nat}"
    and "length text + length secname < 2 ^ 31"
  shows "elf_init (build text secname) = Inr (built_obj text secname)"
proof -
  let ?names = "obj_names secname"
  let ?so = "64 + length text"
  let ?sh = "align8 (?so + length ?names)"
  define s0 where "s0 = pack SHDR_FMT [0, 0, 0, 0, 0, 0, 0, 0, 0, 0]"
  define s1 where "s1 = pack SHDR_FMT [1, 1, 6, 0, 64, length text, 0, 0, 8, 0]"
  define s2 where "s2 = pack SHDR_FMT [1 + length secname + 1, 3, 0, 0, ?so, length ?names, 0, 0, 1, 0]"
  define ident :: "byte list" where "ident = ELFMAG @ [2, 1, 1, 0] @ replicate 8 0"
  define eh where "eh = pack (tl EHDR_FMT) [1, EM_BPF, 1, 0, 0, ?sh, 0, 64, 0, 0, 64, 3, 2]"
  define pad :: "byte list" where "pad = replicate (?sh - (?so + length ?names)) 0"
  have names: "length ?names = length secname + 12" by (simp add: obj_names_def)
  have sh: "?so + length ?names \<le> ?sh" "?sh < ?so + length ?names + 8" by (rule align8_ge)+
  have len: "length ident = 16" "length eh = 48" "length s0 = 64" "length s1 = 64" "length s2 = 64"
    by (simp_all add: ident_def eh_def s0_def s1_def s2_def length_pack fmt_defs ELFMAG_def)
  have blob: "build text secname = ident @ eh @ text @ ?names @ pad @ s0 @ s1 @ s2"
  proof -
    have "build text secname = (ident @ eh @ text @ ?names)
        @ replicate (?sh - length (ident @ eh @ text @ ?names)) 0 @ s0 @ s1 @ s2"
      unfolding build_def Let_def ident_def eh_def s0_def s1_def s2_def append_assoc by (rule refl)
    with len show ?thesis by (simp add: pad_def add.assoc)
  qed
  let ?b = "ident @ eh @ text @ ?names @ pad @ s0 @ s1 @ s2"
  have small: "?sh < 2 ^ 32" "length text < 2 ^ 32" "length secname + 12 < 2 ^ 32" "?so < 2 ^ 32"
    using assms(2) sh names by simp_all
  have e: "unpack_from EHDR_FMT ?b 0 = Some (le_uint ident # map int [1, EM_BPF, 1, 0, 0, ?sh, 0, 64, 0, 0, 64, 3, 2])"
  proof -
    have "unpack_fields (tl EHDR_FMT) (eh @ text @ ?names @ pad @ s0 @ s1 @ s2)
        = map int [1, EM_BPF, 1, 0, 0, ?sh, 0, 64, 0, 0, 64, 3, 2]"
      unfolding eh_def using small by (intro unpack_pack) (simp_all add: fmt_defs EM_BPF_def)
    with len show ?thesis by (simp add: unpack_from_def EHDR_FMT_def)
  qed
  let ?r1 = "[1, 1, 6, 0, 64, length text, 0, 0, 8, 0]"
  let ?r2 = "[1 + length secname + 1, 3, 0, 0, ?so, length ?names, 0, 0, 1, 0]"
  have l: "length (ident @ eh @ text @ ?names @ pad) = ?sh" using len sh by (simp add: pad_def)
  have t0: "unpack_from SHDR_FMT ((ident @ eh @ text @ ?names @ pad) @ s0 @ s1 @ s2) ?sh
      = Some (map int [0, 0, 0, 0, 0, 0, 0, 0, 0, 0])"
    unfolding s0_def by (rule unpack_from_pack) (use l in \<open>simp_all add: SHDR_FMT_def\<close>)
  have t1: "unpack_from SHDR_FMT ((ident @ eh @ text @ ?names @ pad @ s0) @ s1 @ s2) (?sh + 64) = Some (map int ?r1)"
    unfolding s1_def
    by (rule unpack_from_pack) (use l len small in \<open>simp_all add: SHDR_FMT_def\<close>)
  have t2: "unpack_from SHDR_FMT ((ident @ eh @ text @ ?names @ pad @ s0 @ s1) @ s2 @ []) (?sh + 128) = Some (map int ?r2)"
    unfolding s2_def
    by (rule unpack_from_pack) (use l len small names in \<open>simp_all add: SHDR_FMT_def\<close>)
  have data: "slice 64 (length text) ?b = text" "slice ?so (length ?names) ?b = ?names"
    using len by (simp_all add: slice_def)
  have strs: "cstr ?names 0 = []" "cstr ?names 1 = secname"
      "cstr ?names (1 + length secname + 1) = ''.shstrtab''"
    using cstr_at [of "[]" "[]"] cstr_at [of secname "[0]"] assms(1)
      cstr_at [of "''.shstrtab''" "[0] @ map of_char secname @ [0]" "[]"]
    by (simp_all add: obj_names_def)
  have mag: "take 4 ?b = ELFMAG" by (simp add: ident_def ELFMAG_def)
  have n: "nat (64 + int (length text)) = ?so" "nat (2 + int (length secname)) = 1 + length secname + 1"
    by linarith+
  show ?thesis
    unfolding blob elf_init_def mag e built_obj_def
    using t0 t1 t2 data strs
    by (simp add: Let_def n [simplified] elf_section_of_def read_symbols_def upt_rec del: upt_Suc)
qed

end
