(* ===== verification/Btf.thy ===== *)
theory Btf
  imports Elf
begin

text \<open>
  The reader of BTF type information, \<open>src/pybpf/btf.py\<close>: the walk over the type records, and the
  sizes and numbers a map declaration is made of.

  The record of type id \<open>t\<close> is at position \<open>t - 1\<close> of \<open>btf_types\<close>: id 0 is void and has none.
\<close>

definition BTF_MAGIC :: int where "BTF_MAGIC = 0xEB9F"

definition KIND_INT :: int where [simp]: "KIND_INT = 1"
definition KIND_PTR :: int where [simp]: "KIND_PTR = 2"
definition KIND_ARRAY :: int where [simp]: "KIND_ARRAY = 3"
definition KIND_STRUCT :: int where [simp]: "KIND_STRUCT = 4"
definition KIND_UNION :: int where [simp]: "KIND_UNION = 5"
definition KIND_ENUM :: int where [simp]: "KIND_ENUM = 6"
definition KIND_FWD :: int where [simp]: "KIND_FWD = 7"
definition KIND_TYPEDEF :: int where [simp]: "KIND_TYPEDEF = 8"
definition KIND_VOLATILE :: int where [simp]: "KIND_VOLATILE = 9"
definition KIND_CONST :: int where [simp]: "KIND_CONST = 10"
definition KIND_RESTRICT :: int where [simp]: "KIND_RESTRICT = 11"
definition KIND_FUNC :: int where [simp]: "KIND_FUNC = 12"
definition KIND_FUNC_PROTO :: int where [simp]: "KIND_FUNC_PROTO = 13"
definition KIND_VAR :: int where [simp]: "KIND_VAR = 14"
definition KIND_DATASEC :: int where [simp]: "KIND_DATASEC = 15"
definition KIND_FLOAT :: int where [simp]: "KIND_FLOAT = 16"
definition KIND_DECL_TAG :: int where [simp]: "KIND_DECL_TAG = 17"
definition KIND_TYPE_TAG :: int where [simp]: "KIND_TYPE_TAG = 18"
definition KIND_ENUM64 :: int where [simp]: "KIND_ENUM64 = 19"

definition BTF_HDR_FMT :: "nat list" where "BTF_HDR_FMT = [2, 1, 1, 4, 4, 4, 4, 4]"
definition BTF_TYPE_FMT :: "nat list" where "BTF_TYPE_FMT = [4, 4, 4]"
definition BTF_MEMBER :: nat where "BTF_MEMBER = 12"
definition BTF_ARRAY :: nat where "BTF_ARRAY = 12"
definition BTF_VARSEC :: nat where "BTF_VARSEC = 12"

definition BTF_QUALIFIERS :: "int list" where
  "BTF_QUALIFIERS = [KIND_TYPEDEF, KIND_VOLATILE, KIND_CONST, KIND_RESTRICT, KIND_TYPE_TAG]"

definition btf_kind :: "int \<Rightarrow> int" where "btf_kind info = drop_bit 24 info AND 0x1f"
definition btf_vlen :: "int \<Rightarrow> int" where "btf_vlen info = info AND 0xffff"

section \<open>The section\<close>

record btf_type =
  bt_name :: int
  bt_info :: int
  bt_arg :: int
  bt_payload :: "byte list"

record btf =
  btf_strs :: "byte list"
  btf_types :: "btf_type list"

datatype btf_error = BtfShort | BtfMagic int | BtfTruncated

text \<open>The bytes of data after a record's header, by its kind.\<close>

definition btf_extra :: "int \<Rightarrow> nat" where
  "btf_extra info =
     (let k = btf_kind info; vlen = nat (btf_vlen info)
      in if k = KIND_INT then 4
         else if k = KIND_ARRAY then BTF_ARRAY
         else if k = KIND_STRUCT then vlen * BTF_MEMBER
         else if k = KIND_UNION then vlen * BTF_MEMBER
         else if k = KIND_ENUM then vlen * 8
         else if k = KIND_FUNC_PROTO then vlen * 8
         else if k = KIND_VAR then 4
         else if k = KIND_DATASEC then vlen * BTF_VARSEC
         else if k = KIND_DECL_TAG then 4
         else if k = KIND_ENUM64 then vlen * 12
         else 0)"

function btf_walk :: "byte list \<Rightarrow> nat \<Rightarrow> btf_type list" where
  "btf_walk blob pos =
     (if pos + 12 \<le> length blob then
        let f = unpack_fields BTF_TYPE_FMT (drop pos blob); extra = btf_extra (f ! 1)
        in if pos + 12 + extra > length blob then []
           else \<lparr>bt_name = f ! 0, bt_info = f ! 1, bt_arg = f ! 2,
                 bt_payload = slice (pos + 12) extra blob\<rparr> # btf_walk blob (pos + 12 + extra)
      else [])"
  by pat_completeness auto
termination by (relation "measure (\<lambda>(blob, pos). length blob - pos)") auto

declare btf_walk.simps [simp del]

definition btf_init :: "byte list \<Rightarrow> btf_error + btf" where
  "btf_init blob =
     (if length blob < sum_list BTF_HDR_FMT then Inl BtfShort
      else let h = unpack_fields BTF_HDR_FMT blob;
               hdr_len = nat (h ! 3); type_off = nat (h ! 4); type_len = nat (h ! 5);
               str_off = nat (h ! 6); str_len = nat (h ! 7)
      in if h ! 0 \<noteq> BTF_MAGIC then Inl (BtfMagic (h ! 0))
         else if hdr_len + type_off + type_len > length blob
              \<or> hdr_len + str_off + str_len > length blob then Inl BtfTruncated
         else Inr \<lparr>btf_strs = slice (hdr_len + str_off) str_len blob,
                   btf_types = btf_walk (slice (hdr_len + type_off) type_len blob) 0\<rparr>)"

section \<open>Queries\<close>

definition btf_name :: "btf \<Rightarrow> int \<Rightarrow> string" where
  "btf_name b ofs = cstr (btf_strs b) (nat ofs)"

definition btf_get :: "btf \<Rightarrow> int \<Rightarrow> btf_type option" where
  "btf_get b tid =
     (if 0 < tid \<and> tid < 1 + int (length (btf_types b)) then Some (btf_types b ! nat (tid - 1)) else None)"

text \<open>The loop of \<open>strip\<close>, with the number of rounds left.\<close>

fun btf_strip_loop :: "nat \<Rightarrow> btf \<Rightarrow> int \<Rightarrow> btf_type option" where
  "btf_strip_loop 0 b tid = None"
| "btf_strip_loop (Suc n) b tid =
     (case btf_get b tid of
        None \<Rightarrow> None
      | Some t \<Rightarrow>
          if btf_kind (bt_info t) \<in> set BTF_QUALIFIERS then btf_strip_loop n b (bt_arg t) else Some t)"

definition btf_strip :: "btf \<Rightarrow> int \<Rightarrow> btf_type option" where
  "btf_strip b tid = btf_strip_loop 32 b tid"

text \<open>
  \<open>size_of\<close> calls itself on the element type of an array; \<open>None\<close> is a call that does not return
  (in Python, one that ends in \<open>RecursionError\<close>).
\<close>

partial_function (option) btf_size_of :: "btf \<Rightarrow> int \<Rightarrow> int option" where
  "btf_size_of b tid =
     (case btf_strip b tid of
        None \<Rightarrow> Some 0
      | Some t \<Rightarrow>
          let k = btf_kind (bt_info t)
          in if k \<in> set [KIND_INT, KIND_STRUCT, KIND_UNION, KIND_ENUM, KIND_ENUM64, KIND_FLOAT, KIND_DATASEC]
             then Some (bt_arg t)
             else if k = KIND_PTR then Some 8
             else if k = KIND_ARRAY then
               (let f = unpack_fields [4, 4, 4] (bt_payload t)
                in Option.bind (btf_size_of b (f ! 0)) (\<lambda>n. Some (f ! 2 * n)))
             else Some 0)"

declare btf_size_of.simps [code]

definition btf_uint_value :: "btf \<Rightarrow> int \<Rightarrow> int" where
  "btf_uint_value b tid =
     (case btf_strip b tid of
        None \<Rightarrow> 0
      | Some p \<Rightarrow>
          if btf_kind (bt_info p) \<noteq> KIND_PTR then 0
          else (case btf_strip b (bt_arg p) of
                  None \<Rightarrow> 0
                | Some a \<Rightarrow>
                    if btf_kind (bt_info a) \<noteq> KIND_ARRAY then 0
                    else unpack_fields [4, 4, 4] (bt_payload a) ! 2))"

definition btf_type_size :: "btf \<Rightarrow> int \<Rightarrow> int option" where
  "btf_type_size b tid =
     (case btf_strip b tid of
        None \<Rightarrow> Some 0
      | Some p \<Rightarrow> if btf_kind (bt_info p) \<noteq> KIND_PTR then Some 0 else btf_size_of b (bt_arg p))"

text \<open>The variables of the first data section of that name, and the members of a struct.\<close>

definition datasec_vars :: "btf \<Rightarrow> string \<Rightarrow> (string \<times> int) list" where
  "datasec_vars b secname =
     (case filter (\<lambda>t. btf_kind (bt_info t) = KIND_DATASEC \<and> btf_name b (bt_name t) = secname) (btf_types b) of
        [] \<Rightarrow> []
      | t # _ \<Rightarrow>
          concat (map (\<lambda>i.
              let tid = unpack_fields [4, 4, 4] (drop (i * BTF_VARSEC) (bt_payload t)) ! 0
              in case btf_get b tid of
                   None \<Rightarrow> []
                 | Some var \<Rightarrow>
                     if btf_kind (bt_info var) \<noteq> KIND_VAR then []
                     else [(btf_name b (bt_name var), bt_arg var)])
            [0..<nat (btf_vlen (bt_info t))]))"

definition struct_members :: "btf \<Rightarrow> int \<Rightarrow> (string \<times> int) list option" where
  "struct_members b tid =
     (case btf_strip b tid of
        None \<Rightarrow> None
      | Some st \<Rightarrow>
          if btf_kind (bt_info st) \<noteq> KIND_STRUCT then None
          else Some (map (\<lambda>i.
                 let f = unpack_fields [4, 4, 4] (drop (i * BTF_MEMBER) (bt_payload st))
                 in (btf_name b (f ! 0), f ! 1))
               [0..<nat (btf_vlen (bt_info st))]))"

section \<open>Facts\<close>

text \<open>Every record the walk yields carries the data its kind asks for, so no query reads past it.\<close>

lemma btf_walk_payload: "t \<in> set (btf_walk blob pos) \<Longrightarrow> length (bt_payload t) = btf_extra (bt_info t)"
proof (induction blob pos rule: btf_walk.induct)
  case (1 blob pos)
  show ?case
  proof (cases "pos + 12 \<le> length blob")
    case True
    with 1 show ?thesis
      by (subst (asm) (2) btf_walk.simps) (auto simp: Let_def slice_def split: if_splits)
  next
    case False
    with 1 show ?thesis by (subst (asm) (2) btf_walk.simps) simp
  qed
qed

section \<open>Writing a section\<close>

text \<open>
  The declarations of the BTF format, with the data each kind has by the format's specification
  (\<open>linux/btf.h\<close>, the structs of which \<open>btf.py\<close> names): nothing here refers to \<open>btf_extra\<close>.  A
  member is name, type and offset; a variable of a section is type, offset and size; an enumerator is
  name and value, of two words for 64 bits; a parameter is name and type.
\<close>

type_synonym u32 = "32 word"

datatype btf_decl =
    DeclInt u32 u32
  | DeclPtr u32
  | DeclArray u32 u32 u32
  | DeclStruct u32 "(u32 \<times> u32 \<times> u32) list"
  | DeclUnion u32 "(u32 \<times> u32 \<times> u32) list"
  | DeclEnum u32 "(u32 \<times> u32) list"
  | DeclFwd
  | DeclTypedef u32
  | DeclVolatile u32
  | DeclConst u32
  | DeclRestrict u32
  | DeclFunc u32 "16 word"
  | DeclFuncProto u32 "(u32 \<times> u32) list"
  | DeclVar u32 u32
  | DeclDatasec u32 "(u32 \<times> u32 \<times> u32) list"
  | DeclFloat u32
  | DeclDeclTag u32 u32
  | DeclTypeTag u32
  | DeclEnum64 u32 "(u32 \<times> u32 \<times> u32) list"

fun words2 :: "(u32 \<times> u32) list \<Rightarrow> u32 list" where
  "words2 [] = []"
| "words2 ((a, b) # ps) = a # b # words2 ps"

fun words3 :: "(u32 \<times> u32 \<times> u32) list \<Rightarrow> u32 list" where
  "words3 [] = []"
| "words3 ((a, b, c) # ps) = a # b # c # words3 ps"

text \<open>The kind, the number of entries, the size or type, and the data words.\<close>

fun decl_kind :: "btf_decl \<Rightarrow> nat" where
  "decl_kind (DeclInt s e) = 1" | "decl_kind (DeclPtr t) = 2" | "decl_kind (DeclArray e x n) = 3"
| "decl_kind (DeclStruct s ms) = 4" | "decl_kind (DeclUnion s ms) = 5" | "decl_kind (DeclEnum s vs) = 6"
| "decl_kind DeclFwd = 7" | "decl_kind (DeclTypedef t) = 8" | "decl_kind (DeclVolatile t) = 9"
| "decl_kind (DeclConst t) = 10" | "decl_kind (DeclRestrict t) = 11" | "decl_kind (DeclFunc t l) = 12"
| "decl_kind (DeclFuncProto t ps) = 13" | "decl_kind (DeclVar t l) = 14" | "decl_kind (DeclDatasec s vs) = 15"
| "decl_kind (DeclFloat s) = 16" | "decl_kind (DeclDeclTag t c) = 17" | "decl_kind (DeclTypeTag t) = 18"
| "decl_kind (DeclEnum64 s vs) = 19"

fun decl_vlen :: "btf_decl \<Rightarrow> nat" where
  "decl_vlen (DeclStruct s ms) = length ms" | "decl_vlen (DeclUnion s ms) = length ms"
| "decl_vlen (DeclEnum s vs) = length vs" | "decl_vlen (DeclFunc t l) = unat l"
| "decl_vlen (DeclFuncProto t ps) = length ps" | "decl_vlen (DeclDatasec s vs) = length vs"
| "decl_vlen (DeclEnum64 s vs) = length vs" | "decl_vlen d = 0"

fun decl_arg :: "btf_decl \<Rightarrow> u32" where
  "decl_arg (DeclInt s e) = s" | "decl_arg (DeclPtr t) = t" | "decl_arg (DeclArray e x n) = 0"
| "decl_arg (DeclStruct s ms) = s" | "decl_arg (DeclUnion s ms) = s" | "decl_arg (DeclEnum s vs) = s"
| "decl_arg DeclFwd = 0" | "decl_arg (DeclTypedef t) = t" | "decl_arg (DeclVolatile t) = t"
| "decl_arg (DeclConst t) = t" | "decl_arg (DeclRestrict t) = t" | "decl_arg (DeclFunc t l) = t"
| "decl_arg (DeclFuncProto t ps) = t" | "decl_arg (DeclVar t l) = t" | "decl_arg (DeclDatasec s vs) = s"
| "decl_arg (DeclFloat s) = s" | "decl_arg (DeclDeclTag t c) = t" | "decl_arg (DeclTypeTag t) = t"
| "decl_arg (DeclEnum64 s vs) = s"

fun decl_words :: "btf_decl \<Rightarrow> u32 list" where
  "decl_words (DeclInt s e) = [e]" | "decl_words (DeclArray e x n) = [e, x, n]"
| "decl_words (DeclStruct s ms) = words3 ms" | "decl_words (DeclUnion s ms) = words3 ms"
| "decl_words (DeclEnum s vs) = words2 vs" | "decl_words (DeclFuncProto t ps) = words2 ps"
| "decl_words (DeclVar t l) = [l]" | "decl_words (DeclDatasec s vs) = words3 vs"
| "decl_words (DeclDeclTag t c) = [c]" | "decl_words (DeclEnum64 s vs) = words3 vs"
| "decl_words d = []"

text \<open>A declaration with the offset of its name and the kind flag (bit 31 of the info word).\<close>

record btf_entry =
  be_name :: u32
  be_flag :: bool
  be_decl :: btf_decl

definition entry_info :: "btf_entry \<Rightarrow> nat" where
  "entry_info e = (if be_flag e then 2 ^ 31 else 0) + decl_kind (be_decl e) * 2 ^ 24 + decl_vlen (be_decl e)"

definition u32_bytes :: "u32 list \<Rightarrow> byte list" where
  "u32_bytes ws = concat (map (\<lambda>w. le_bytes 4 (uint w)) ws)"

definition write_entry :: "btf_entry \<Rightarrow> byte list" where
  "write_entry e = u32_bytes [be_name e, word_of_nat (entry_info e), decl_arg (be_decl e)]
     @ u32_bytes (decl_words (be_decl e))"

definition write_btf :: "btf_entry list \<Rightarrow> byte list \<Rightarrow> byte list" where
  "write_btf es strs =
     (let types = concat (map write_entry es)
      in pack BTF_HDR_FMT [nat BTF_MAGIC, 1, 0, 24, 0, length types, length types, length strs] @ types @ strs)"

text \<open>The record the reader should make of an entry.\<close>

definition entry_type :: "btf_entry \<Rightarrow> btf_type" where
  "entry_type e = \<lparr>bt_name = uint (be_name e), bt_info = int (entry_info e), bt_arg = uint (decl_arg (be_decl e)),
     bt_payload = u32_bytes (decl_words (be_decl e))\<rparr>"

lemma length_words [simp]: "length (words2 ps) = 2 * length ps" "length (words3 qs) = 3 * length qs"
  by (induction ps rule: words2.induct, simp_all) (induction qs rule: words3.induct, simp_all)

lemma length_u32_bytes [simp]: "length (u32_bytes ws) = 4 * length ws"
  by (induction ws) (simp_all add: u32_bytes_def)

lemma u32_bytes_simps: "u32_bytes [] = []" "u32_bytes (w # ws) = le_bytes 4 (uint w) @ u32_bytes ws"
  by (simp_all add: u32_bytes_def)

lemma decl_kind_range: "0 < decl_kind d \<and> decl_kind d < 32"
  by (cases d) simp_all

text \<open>The info word, and the fields the reader takes from it.\<close>

lemma info_fields:
  assumes "decl_vlen (be_decl e) < 2 ^ 16"
  shows "entry_info e < 2 ^ 32" "btf_kind (int (entry_info e)) = int (decl_kind (be_decl e))"
    "btf_vlen (int (entry_info e)) = int (decl_vlen (be_decl e))"
proof -
  define k v f where "k = decl_kind (be_decl e)" "v = decl_vlen (be_decl e)" "f = (if be_flag e then 1 else 0 :: nat)"
  have b: "k < 32" "v < 65536" "f \<le> 1" using assms decl_kind_range [of "be_decl e"] by (simp_all add: k_v_f_def)
  have i: "entry_info e = (f * 128 + k) * 16777216 + v" by (simp add: entry_info_def k_v_f_def)
  then show "entry_info e < 2 ^ 32" using b by simp
  have "entry_info e = v + 65536 * ((f * 128 + k) * 256)" by (simp add: i)
  then have "entry_info e mod 65536 = v" using b(2) by (simp only: mod_mult_self2 mod_less)
  moreover have "entry_info e div 2 ^ 24 = f * 128 + k" unfolding i using b by simp
  ultimately have d: "int (entry_info e) div 2 ^ 24 = int (f * 128 + k)" "int (entry_info e) mod 65536 = int v"
    using zdiv_int [of "entry_info e" "2 ^ 24"] zmod_int [of "entry_info e" 65536] by simp_all
  have e: "f * 128 + k = k + 32 * (f * 4)" by simp
  have "(f * 128 + k) mod 32 = k" unfolding e using b(1) by (simp only: mod_mult_self2 mod_less)
  then have "int (f * 128 + k) mod 32 = int k" using zmod_int [of "f * 128 + k" 32] by simp
  with d show "btf_kind (int (entry_info e)) = int (decl_kind (be_decl e))"
    "btf_vlen (int (entry_info e)) = int (decl_vlen (be_decl e))"
    using and_exp_minus_one [of "int (entry_info e) div 2 ^ 24" 5] and_exp_minus_one [of "int (entry_info e)" 16]
    by (simp_all add: btf_kind_def btf_vlen_def drop_bit_eq_div take_bit_eq_mod k_v_f_def)
qed

text \<open>The data that \<open>btf_extra\<close> expects of a kind is the data a declaration of that kind has.\<close>

lemma extra_words:
  assumes "decl_vlen (be_decl e) < 2 ^ 16"
  shows "btf_extra (int (entry_info e)) = 4 * length (decl_words (be_decl e))"
  using info_fields [OF assms]
  by (cases "be_decl e") (simp_all add: btf_extra_def BTF_ARRAY_def BTF_MEMBER_def BTF_VARSEC_def Let_def)

lemma unpack_u32s: "unpack_fields (replicate (length ws) 4) (u32_bytes ws @ post) = map uint ws"
proof (induction ws)
  case (Cons w ws)
  have "take_bit 32 (uint w) = uint w" by (simp add: take_bit_int_eq_self_iff uint_lt2p [of w, simplified])
  with Cons show ?case by (simp add: u32_bytes_simps le_uint_le_bytes)
qed (simp add: u32_bytes_simps)

lemma unpack_write_entry:
  assumes "decl_vlen (be_decl e) < 2 ^ 16"
  shows "unpack_fields BTF_TYPE_FMT (write_entry e @ post)
      = [uint (be_name e), int (entry_info e), uint (decl_arg (be_decl e))]"
proof -
  have "uint (word_of_nat (entry_info e) :: u32) = int (entry_info e)"
    using info_fields(1) [OF assms] by (simp add: unsigned_of_nat take_bit_nat_eq_self flip: uint_nat)
  with unpack_u32s [of "[be_name e, word_of_nat (entry_info e), decl_arg (be_decl e)]" "u32_bytes (decl_words (be_decl e)) @ post"]
  show ?thesis by (simp add: BTF_TYPE_FMT_def write_entry_def)
qed

lemma length_write_entry:
  "decl_vlen (be_decl e) < 2 ^ 16 \<Longrightarrow> length (write_entry e) = 12 + btf_extra (int (entry_info e))"
  by (simp add: write_entry_def extra_words)

lemma btf_walk_write:
  assumes "\<forall>e \<in> set es. decl_vlen (be_decl e) < 2 ^ 16" "length post < 12" "pos = length pre"
  shows "btf_walk (pre @ concat (map write_entry es) @ post) pos = map entry_type es"
  using assms
proof (induction es arbitrary: pre pos)
  case Nil
  then show ?case by (simp add: btf_walk.simps)
next
  case (Cons e es)
  let ?rest = "concat (map write_entry es) @ post" and ?x = "btf_extra (int (entry_info e))"
  have e: "decl_vlen (be_decl e) < 2 ^ 16" using Cons.prems by simp
  have p: "slice (length pre + 12) ?x (pre @ write_entry e @ ?rest) = bt_payload (entry_type e)"
    using extra_words [OF e] by (simp add: slice_def write_entry_def entry_type_def)
  have "btf_walk ((pre @ write_entry e) @ ?rest) (length pre + 12 + ?x) = map entry_type es"
    using Cons e by (intro Cons.IH) (simp_all add: length_write_entry)
  then have IH: "btf_walk (pre @ write_entry e @ ?rest) (length pre + 12 + ?x) = map entry_type es" by simp
  have len: "length (pre @ write_entry e @ ?rest) \<ge> length pre + 12 + ?x"
    using length_write_entry [OF e] by simp
  have "btf_walk (pre @ write_entry e @ ?rest) (length pre) = entry_type e # map entry_type es"
    by (subst btf_walk.simps) (use len p IH unpack_write_entry [OF e] in \<open>simp add: Let_def entry_type_def\<close>)
  with Cons.prems(3) show ?case by simp
qed

section \<open>Properties\<close>

text \<open>
  C13: A section of declarations, each written with the data the BTF format gives its kind, is read
  back declaration by declaration: the walk stays in step whatever kinds the declarations have.
\<close>

theorem btf_roundtrip:
  assumes "\<forall>e \<in> set es. decl_vlen (be_decl e) < 2 ^ 16"
    and "length (concat (map write_entry es)) < 2 ^ 32" "length strs < 2 ^ 32"
  shows "btf_init (write_btf es strs) = Inr \<lparr>btf_strs = strs, btf_types = map entry_type es\<rparr>"
proof -
  let ?t = "concat (map write_entry es)"
  let ?h = "[nat BTF_MAGIC, 1, 0, 24, 0, length ?t, length ?t, length strs]"
  have f: "unpack_fields BTF_HDR_FMT (write_btf es strs) = map int ?h"
    unfolding write_btf_def Let_def
    using assms(2,3) by (intro unpack_pack) (auto simp: BTF_HDR_FMT_def BTF_MAGIC_def)
  have l: "length (pack BTF_HDR_FMT ?h) = 24" by (simp add: length_pack BTF_HDR_FMT_def)
  have s: "slice 24 (length ?t) (write_btf es strs) = ?t" "slice (24 + length ?t) (length strs) (write_btf es strs) = strs"
    "length (write_btf es strs) = 24 + length ?t + length strs"
    using l by (simp_all add: write_btf_def Let_def slice_def)
  have w: "btf_walk ?t 0 = map entry_type es" using btf_walk_write [OF assms(1), of "[]" 0 "[]"] by simp
  show ?thesis unfolding btf_init_def f using s w by (simp add: Let_def BTF_HDR_FMT_def BTF_MAGIC_def)
qed

text \<open>One declaration of every kind that has data, and a pointer, of which the reader must skip none.\<close>

definition sample_decls :: "btf_entry list" where
  "sample_decls =
     map (\<lambda>d. \<lparr>be_name = 1, be_flag = False, be_decl = d\<rparr>)
       [DeclInt 4 0x01000020, DeclArray 1 1 7, DeclPtr 2, DeclStruct 8 [(1, 1, 0), (1, 3, 32)], DeclUnion 4 [(1, 1, 0)],
        DeclEnum 4 [(1, 0), (1, 1)], DeclFuncProto 1 [(1, 1)], DeclVar 4 1, DeclDatasec 8 [(8, 0, 8)], DeclDeclTag 4 0,
        DeclEnum64 8 [(1, 0, 1)], DeclFunc 7 1]"

theorem btf_roundtrip_witness:
  "btf_init (write_btf sample_decls [0, 109, 0]) = Inr \<lparr>btf_strs = [0, 109, 0], btf_types = map entry_type sample_decls\<rparr>
     \<and> map (\<lambda>t. length (bt_payload t)) (map entry_type sample_decls) = [4, 12, 0, 24, 12, 16, 8, 4, 12, 4, 12, 0]"
  using btf_roundtrip [of sample_decls "[0, 109, 0]"]
  by (simp add: sample_decls_def write_entry_def entry_type_def)

text \<open>An \<open>int\<close>, an array of it, and a pointer to the array, as \<open>__uint(name, 7)\<close> declares.\<close>

definition sample_btf :: btf where
  "sample_btf =
     \<lparr>btf_strs = [0],
      btf_types =
       [\<lparr>bt_name = 0, bt_info = 0x01000000, bt_arg = 4, bt_payload = [32, 0, 0, 1]\<rparr>,
        \<lparr>bt_name = 0, bt_info = 0x03000000, bt_arg = 0, bt_payload = [1, 0, 0, 0, 1, 0, 0, 0, 7, 0, 0, 0]\<rparr>,
        \<lparr>bt_name = 0, bt_info = 0x02000000, bt_arg = 2, bt_payload = []\<rparr>]\<rparr>"

text \<open>
  C18: \<open>size_of\<close> returns on every type of an object in which the element types of arrays do not form
  a cycle.
\<close>

theorem btf_size_terminates:
  fixes rank :: "int \<Rightarrow> nat"
  assumes "\<And>i t. btf_strip b i = Some t \<Longrightarrow> btf_kind (bt_info t) = KIND_ARRAY
      \<Longrightarrow> rank (unpack_fields [4, 4, 4] (bt_payload t) ! 0) < rank i"
  shows "\<exists>n. btf_size_of b tid = Some n"
proof (induction "rank tid" arbitrary: tid rule: less_induct)
  case less
  show ?case
  proof (cases "btf_strip b tid")
    case (Some t)
    show ?thesis
    proof (cases "btf_kind (bt_info t) = KIND_ARRAY")
      case True
      with less [OF assms [OF Some True]] Some show ?thesis
        by (subst btf_size_of.simps) (auto simp: Let_def)
    qed (subst btf_size_of.simps, auto simp: Some Let_def)
  qed (subst btf_size_of.simps, simp)
qed

theorem btf_size_terminates_witness:
  "\<exists>n. btf_size_of sample_btf 2 = Some n"
proof (rule btf_size_terminates [where rank = nat])
  fix i t
  assume t: "btf_strip sample_btf i = Some t" "btf_kind (bt_info t) = KIND_ARRAY"
  have "btf_strip sample_btf 1 = Some (btf_types sample_btf ! 0)"
    "btf_strip sample_btf 2 = Some (btf_types sample_btf ! 1)"
    "btf_strip sample_btf 3 = Some (btf_types sample_btf ! 2)"
    by code_simp+
  moreover have "i \<in> {1, 2, 3}"
  proof (rule ccontr)
    assume "i \<notin> {1, 2, 3}"
    then have "btf_get sample_btf i = None" by (auto simp: btf_get_def sample_btf_def)
    then have "btf_strip sample_btf i = None" by (simp add: btf_strip_def numeral_eq_Suc)
    with t show False by simp
  qed
  moreover have "btf_kind (bt_info (btf_types sample_btf ! 0)) = 1"
    "unpack_fields [4, 4, 4] (bt_payload (btf_types sample_btf ! 1)) ! 0 = 1"
    "btf_kind (bt_info (btf_types sample_btf ! 2)) = 2"
    by code_simp+
  ultimately show "nat (unpack_fields [4, 4, 4] (bt_payload t) ! 0) < nat i" using t by auto
qed

text \<open>
  C19: On a cycle of arrays, each the element type of another, \<open>size_of\<close> does not return; nothing in
  the reader rules such a section out.
\<close>

theorem btf_size_diverges:
  assumes "\<forall>i \<in> S. \<exists>t. btf_strip b i = Some t \<and> btf_kind (bt_info t) = KIND_ARRAY
             \<and> unpack_fields [4, 4, 4] (bt_payload t) ! 0 \<in> S"
    and "tid \<in> S"
  shows "btf_size_of b tid = None"
proof (rule ccontr)
  assume "btf_size_of b tid \<noteq> None"
  then obtain n where "btf_size_of b tid = Some n" by blast
  then have "\<not> (b = b \<and> tid \<in> S)"
  proof (rule btf_size_of.raw_induct [where P = "\<lambda>x i n. \<not> (x = b \<and> i \<in> S)", rotated])
    fix f x i n
    assume IH: "\<And>x i n. f x i = Some n \<Longrightarrow> \<not> (x = b \<and> i \<in> S)"
      and f: "(case btf_strip x i of None \<Rightarrow> Some 0
        | Some t \<Rightarrow> let k = btf_kind (bt_info t)
            in if k \<in> set [KIND_INT, KIND_STRUCT, KIND_UNION, KIND_ENUM, KIND_ENUM64, KIND_FLOAT, KIND_DATASEC]
               then Some (bt_arg t)
               else if k = KIND_PTR then Some 8
               else if k = KIND_ARRAY then
                 let g = unpack_fields [4, 4, 4] (bt_payload t) in Option.bind (f x (g ! 0)) (\<lambda>n. Some (g ! 2 * n))
               else Some 0) = Some n"
    show "\<not> (x = b \<and> i \<in> S)"
    proof
      assume xi: "x = b \<and> i \<in> S"
      with assms(1) obtain t where "btf_strip x i = Some t" "btf_kind (bt_info t) = KIND_ARRAY"
        "unpack_fields [4, 4, 4] (bt_payload t) ! 0 \<in> S" by blast
      with f xi IH show False by (auto simp: Let_def bind_eq_Some_conv)
    qed
  qed
  with assms(2) show False by simp
qed

theorem btf_size_diverges_witness:
  "btf_size_of \<lparr>btf_strs = [], btf_types =
     [\<lparr>bt_name = 0, bt_info = 0x03000000, bt_arg = 0, bt_payload = [1, 0, 0, 0, 1, 0, 0, 0, 7, 0, 0, 0]\<rparr>]\<rparr> 1 = None"
proof (rule btf_size_diverges [where S = "{1}"])
  let ?t = "\<lparr>bt_name = 0, bt_info = 0x03000000, bt_arg = 0, bt_payload = [1, 0, 0, 0, 1, 0, 0, 0, 7, 0, 0, 0]\<rparr>"
  have "btf_strip \<lparr>btf_strs = [], btf_types = [?t]\<rparr> 1 = Some ?t"
    "btf_kind (bt_info ?t) = KIND_ARRAY" "unpack_fields [4, 4, 4] (bt_payload ?t) ! 0 = 1"
    by code_simp+
  then show "\<forall>i \<in> {1}. \<exists>t. btf_strip \<lparr>btf_strs = [], btf_types = [?t]\<rparr> i = Some t
      \<and> btf_kind (bt_info t) = KIND_ARRAY \<and> unpack_fields [4, 4, 4] (bt_payload t) ! 0 \<in> {1}"
    by auto
qed simp

end
