(* ===== verification/Driver.thy ===== *)
theory Driver
  imports Emission Btf "HOL-Library.Char_ord" "HOL-Library.List_Lexorder"
begin

text \<open>
  The driver of \<open>src/pybpf/translate.py\<close>: it finds the maps an object declares, sizes them, picks
  the program section, and translates and emits it.

  An exception that \<open>run\<close> does not catch (\<open>IndexError\<close>, \<open>struct.error\<close>, \<open>RecursionError\<close>) is \<open>None\<close>.
\<close>

section \<open>Map declarations\<close>

definition discover_legacy_maps :: "elf \<Rightarrow> elf_section \<Rightarrow> tstate \<Rightarrow> tstate" where
  "discover_legacy_maps e sec s =
     fold (\<lambda>sym s.
       if sym_shndx sym \<noteq> sec_index sec \<or> sym_type sym = STT_SECTION then s
       else if sym_value sym + 20 > length (sec_data sec) then s
       else let f = unpack_fields [4, 4, 4, 4, 4] (drop (sym_value sym) (sec_data sec))
            in add_map (sym_name sym) (nat (f ! 0)) (nat (f ! 1)) (nat (f ! 2)) (nat (f ! 3)) s)
     (elf_symbols e) s"

text \<open>What the members of a map's struct say: type, key size, value size, number of entries.\<close>

type_synonym map_decl = "int \<times> int \<times> int \<times> int"

definition decl_member :: "btf \<Rightarrow> string \<times> int \<Rightarrow> map_decl \<Rightarrow> map_decl option" where
  "decl_member b m d =
     (let (mn, mtid) = m; (ty, ks, vs, me) = d
      in if mn = ''type'' then Some (btf_uint_value b mtid, ks, vs, me)
         else if mn = ''max_entries'' then Some (ty, ks, vs, btf_uint_value b mtid)
         else if mn = ''key_size'' then Some (ty, btf_uint_value b mtid, vs, me)
         else if mn = ''value_size'' then Some (ty, ks, btf_uint_value b mtid, me)
         else if mn = ''key'' then map_option (\<lambda>n. (ty, n, vs, me)) (btf_type_size b mtid)
         else if mn = ''value'' then map_option (\<lambda>n. (ty, ks, n, me)) (btf_type_size b mtid)
         else Some d)"

fun decl_members :: "btf \<Rightarrow> (string \<times> int) list \<Rightarrow> map_decl \<Rightarrow> map_decl option" where
  "decl_members b [] d = Some d"
| "decl_members b (m # ms) d = Option.bind (decl_member b m d) (decl_members b ms)"

fun discover_btf_vars :: "btf \<Rightarrow> (string \<times> int) list \<Rightarrow> tstate \<Rightarrow> tstate option" where
  "discover_btf_vars b [] s = Some s"
| "discover_btf_vars b ((name, struct_id) # vars) s =
     (case struct_members b struct_id of
        None \<Rightarrow> discover_btf_vars b vars (report (MapNotStruct name) s)
      | Some members \<Rightarrow>
          (case decl_members b members (0, 0, 0, 0) of
             None \<Rightarrow> None
           | Some (ty, ks, vs, me) \<Rightarrow>
               discover_btf_vars b vars
                 (if ks = 0 \<or> vs = 0 then report (MapUnsized name (nat ks) (nat vs)) s
                  else add_map name (nat ty) (nat ks) (nat vs) (nat me) s)))"

definition discover_btf_maps :: "byte list \<Rightarrow> tstate \<Rightarrow> tstate option" where
  "discover_btf_maps blob s =
     (case btf_init blob of
        Inl e \<Rightarrow> Some (report BtfBroken s)
      | Inr b \<Rightarrow> discover_btf_vars b (datasec_vars b ''.maps'') s)"

section \<open>Sizing\<close>

definition size_maps :: "tstate \<Rightarrow> tstate" where
  "size_maps s =
     (case t_site_hint s of
        None \<Rightarrow> s
      | Some hint \<Rightarrow>
          s\<lparr>t_maps := map (\<lambda>mi.
              if \<not> m_tagged mi then mi
              else let sites = (case hint (m_name mi) of None \<Rightarrow> 0 | Some n \<Rightarrow> n)
                   in mi\<lparr>m_slots_budget := min (max (2 * sites) 1) MAP_SLOTS_MAX\<rparr>) (t_maps s)\<rparr>)"

text \<open>The keys of \<open>map_sites\<close> are indices of \<open>maps\<close>, in increasing order.\<close>

definition check_map_budget :: "tstate \<Rightarrow> tstate" where
  "check_map_budget s =
     fold (\<lambda>m s.
       case t_map_sites s m of
         None \<Rightarrow> s
       | Some n \<Rightarrow>
           let mi = t_maps s ! m; budget = m_nslots mi div 2
           in if m_tagged mi \<and> n > budget then report (MapBudget (m_name mi) n (m_nslots mi)) s else s)
     [0..<length (t_maps s)] s"

section \<open>Relocations\<close>

definition load_map_relocs :: "elf \<Rightarrow> nat \<Rightarrow> nat \<Rightarrow> tstate \<Rightarrow> tstate" where
  "load_map_relocs e sec_idx ninsns s =
     fold (\<lambda>(r_offset, sym_idx, r_type) s.
       if r_type \<noteq> R_BPF_64_64 \<or> sym_idx \<ge> length (elf_symbols e) then s
       else case find_map (sym_name (elf_symbols e ! sym_idx)) s of
              None \<Rightarrow> s
            | Some m \<Rightarrow>
                let idx = r_offset div INSN_SIZE
                in if idx < ninsns then s\<lparr>t_insn_map_idx := (t_insn_map_idx s)(idx \<mapsto> m)\<rparr> else s)
     (relocations e sec_idx) s"

section \<open>The run\<close>

definition contains :: "string \<Rightarrow> string \<Rightarrow> bool" where
  "contains s p = list_ex (\<lambda>k. starts_with (drop k s) p) [0..<Suc (length s)]"

definition is_program_section :: "elf_section \<Rightarrow> bool" where
  "is_program_section x \<longleftrightarrow>
     sec_size x \<noteq> 0 \<and> (sec_flags x AND SHF_EXECINSTR \<noteq> 0 \<or> contains (sec_name x) ''text''
       \<or> contains (sec_name x) ''xdp'')"

fun discover_maps :: "elf \<Rightarrow> elf_section list \<Rightarrow> tstate \<Rightarrow> tstate option" where
  "discover_maps e [] s = Some s"
| "discover_maps e (x # xs) s =
     (if sec_size x = 0 then discover_maps e xs s
      else if sec_name x = ''maps'' \<and> elf_symbols e \<noteq> []
      then discover_maps e xs (discover_legacy_maps e x s)
      else if sec_name x = ''.BTF''
      then Option.bind (discover_btf_maps (sec_data x) s) (discover_maps e xs)
      else discover_maps e xs s)"

text \<open>Region ids follow the order of the names, not that of the declarations.\<close>

definition sort_maps :: "tstate \<Rightarrow> tstate" where
  "sort_maps s = s\<lparr>t_maps := sort_key m_name (t_maps s)\<rparr>"

text \<open>Why a run gives up (exit status 1), or the text it writes (status 0).\<close>

datatype run_outcome =
    NoElf
  | NoContext string
  | TooManyInsns string nat
  | NoSection
  | Wrote string

definition pick_ctx :: "ctx_layout option \<Rightarrow> string \<Rightarrow> ctx_layout option" where
  "pick_ctx ctx_override name = (case ctx_override of None \<Rightarrow> ctx_layout_for name | Some c \<Rightarrow> Some c)"

definition run_section :: "elf \<Rightarrow> elf_section \<Rightarrow> ctx_layout option \<Rightarrow> tstate \<Rightarrow> (run_outcome \<times> tstate) option" where
  "run_section e x ctx_override s =
     (case pick_ctx ctx_override (sec_name x) of
        None \<Rightarrow> Some (NoContext (sec_name x), s)
      | Some ctx \<Rightarrow>
          (case decode (take (length (sec_data x) div INSN_SIZE * INSN_SIZE) (sec_data x)) of
             None \<Rightarrow> None
           | Some insns \<Rightarrow>
               let s = s\<lparr>t_ctx := ctx\<rparr>
               in if length insns > MAX_INSNS then Some (TooManyInsns (sec_name x) (length insns), s)
                  else let s = s\<lparr>t_insn_map_idx := Map.empty\<rparr>;
                           s = (if elf_symbols e \<noteq> [] then load_map_relocs e (sec_index x) (length insns) s else s)
                       in (case translate_program insns s of
                             None \<Rightarrow> None
                           | Some s \<Rightarrow> let s = check_map_budget s in Some (Wrote (emit_program s), s))))"

definition run_object :: "byte list \<Rightarrow> ctx_layout option \<Rightarrow> tstate \<Rightarrow> (run_outcome \<times> tstate) option" where
  "run_object blob ctx_override s =
     (case elf_init blob of
        Inl NotElf \<Rightarrow> Some (NoElf, s)
      | Inl _ \<Rightarrow> None
      | Inr e \<Rightarrow>
          (case discover_maps e (elf_sections e) s of
             None \<Rightarrow> None
           | Some s \<Rightarrow>
               let s = size_maps (sort_maps s)
               in (case find is_program_section (elf_sections e) of
                     None \<Rightarrow> Some (NoSection, s)
                   | Some x \<Rightarrow> run_section e x ctx_override s)))"

definition probe_map_sites :: "byte list \<Rightarrow> ctx_layout option \<Rightarrow> tstate \<Rightarrow> (string \<rightharpoonup> nat) option" where
  "probe_map_sites blob ctx_override s =
     (let probe = (translator_init (t_ctx s) (Some MAP_MAX_SLOTS))\<lparr>t_quiet := True\<rparr>
      in map_option (\<lambda>(_, p).
           map_of (rev (concat (map (\<lambda>m. case t_map_sites p m of
                                           None \<Rightarrow> [] | Some n \<Rightarrow> [(m_name (t_maps p ! m), n)])
                                  [0..<length (t_maps p)]))))
         (run_object blob ctx_override probe))"

definition run :: "byte list \<Rightarrow> ctx_layout option \<Rightarrow> tstate \<Rightarrow> (run_outcome \<times> tstate) option" where
  "run blob ctx_override s =
     (if t_map_slots s = None \<and> t_site_hint s = None
      then Option.bind (probe_map_sites blob ctx_override s)
             (\<lambda>hint. run_object blob ctx_override (s\<lparr>t_site_hint := Some hint\<rparr>))
      else run_object blob ctx_override s)"

end
