(* ===== verification/Driver_Laws.thy ===== *)
theory Driver_Laws
  imports Shape_Laws Table_Laws Driver
begin

text \<open>
  What the driver promises: the run on an object written by \<open>build\<close>, from its bytes to the emitted
  chain, and the laws of sizing the maps.
\<close>

section \<open>An object from its bytes to its chain\<close>

lemma translate_block_maps:
  assumes "translate_block insns bs block_of b block_in s = Some (block_in', s')"
  shows "t_maps s' = t_maps s"
proof -
  obtain be ht st0 st1 s1 idx trm cond arms st2 s2 fp tp np where
    body: "translate_body insns (bs ! b) be st0 (s\<lparr>t_ops := []\<rparr>) = Some (st1, s1)"
    and tt: "translate_term idx ht trm st1 s1 = Some (cond, arms, st2, s2)"
    and s': "s' = push_block (bs ! b) cond arms fp tp np s2"
    by (rule translate_block_cases [OF assms]) (erule that, assumption+)
  have "extends (s\<lparr>t_ops := []\<rparr>) s2"
    using extends_trans [OF extends_translate_body [OF body] extends_translate_term [OF tt]] .
  moreover have "t_maps s' = t_maps s2"
    unfolding s' by (cases arms; cases cond)
      (auto simp: push_block_def push_transformer_def push_module_def Let_def)
  ultimately show ?thesis by (simp add: extends_def)
qed

lemma translate_blocks_maps:
  "translate_blocks insns bs block_of xs block_in s = Some s' \<Longrightarrow> t_maps s' = t_maps s"
proof (induction xs arbitrary: block_in s)
  case (Cons b xs)
  then obtain bi s1 where "translate_block insns bs block_of b block_in s = Some (bi, s1)"
      "translate_blocks insns bs block_of xs bi s1 = Some s'"
    by (auto split: option.splits)
  with Cons.IH translate_block_maps show ?case by metis
qed simp

lemma translate_program_maps:
  assumes "translate_program insns s = Some s'"
  shows "t_maps s' = t_maps s"
proof -
  obtain bs block_of s1 where fl: "find_leaders insns s = ((bs, block_of), s1)" by (metis prod.collapse)
  obtain L where "leaders insns s = (L, s1)" using find_leaders_facts [OF fl] by blast
  then have "t_maps s1 = t_maps s" using leaders_frame(1) by (auto simp: extends_def)
  moreover have "t_maps (seed_regs rs u) = t_maps u" for rs u
    by (induction rs arbitrary: u) (simp_all add: seed_regs_def)
  then have "t_maps (translate_preamble (scan_used_regs insns s1)) = t_maps s1"
    by (simp add: translate_preamble_def seed_regs_def [symmetric] push_module_def scan_used_regs_def Let_def)
  ultimately show ?thesis
    using assms translate_blocks_maps by (simp add: translate_program_def fl Let_def)
qed

text \<open>
  C3: An accepted program, assembled and wrapped into an object, runs to the end without a report; the
  text written is that of a chain that computes what the interpreter returns on the program.
\<close>

theorem object_lowering:
  assumes "first_match holds xf" and "accepted insns" "insns \<noteq> []" "length insns \<le> MAX_INSNS"
    and "assembled insns chunks"
    and name: "\<forall>c \<in> set secname. of_char c \<in> {1 ..< 128 :: nat}" "length secname < 2 ^ 16" "secname \<noteq> ''.BTF''"
    and ctx: "ctx_override \<noteq> None \<or> ctx_layout_for secname \<noteq> None"
    and h: "\<forall>n < 11. \<not> mentions insns n \<longrightarrow> rd h (H_REG n) = 0"
  shows "\<exists>s' m. run (build (concat chunks) secname) ctx_override (translator_init ctx (Some slots))
             = Some (Wrote (emit_program s'), s') \<and> \<not> t_had_error s' \<and> m \<le> length insns + 1
           \<and> vm_run insns m = Inr (rd (run_chain xf (t_modules s') h) (H_REG 0))"
proof -
  let ?text = "concat chunks" and ?s = "translator_init ctx (Some slots)"
  have len: "length ?text = 8 * length insns" using assms(5) by (rule length_assembled)
  have elf: "elf_init (build ?text secname) = Inr (built_obj ?text secname)"
    using name(1,2) len assms(4) by (intro elf_init_build) simp_all
  let ?x = "\<lparr>sec_index = 1, sec_name = secname, sec_type = 1, sec_flags = 6, sec_offset = 64,
      sec_size = length ?text, sec_link = 0, sec_info = 0, sec_data = ?text\<rparr>"
  have maps: "discover_maps (built_obj ?text secname) (elf_sections (built_obj ?text secname)) u = Some u" for u
    using name(3) by (simp add: built_obj_def Let_def)
  have sec: "find is_program_section (elf_sections (built_obj ?text secname)) = Some ?x"
    using len assms(3) by (simp add: built_obj_def Let_def is_program_section_def)
  have sym: "elf_symbols (built_obj ?text secname) = []" by (simp add: built_obj_def Let_def)
  obtain c where c: "pick_ctx ctx_override secname = Some c"
    using ctx by (cases ctx_override) (auto simp: pick_ctx_def)
  let ?u = "?s\<lparr>t_ctx := c, t_insn_map_idx := Map.empty\<rparr>"
  obtain s' m where s': "translate_program insns ?u = Some s'" "\<not> t_had_error s'" "m \<le> length insns + 1"
      "vm_run insns m = Inr (rd (run_chain xf (t_modules s') h) (H_REG 0))"
    by (rule accepted_lowering [OF assms(1,2,4), of ?u h]) (use h in \<open>simp_all add: translator_init_def\<close>)
  have "t_maps s' = []" using translate_program_maps [OF s'(1)] by (simp add: translator_init_def)
  then have b: "check_map_budget s' = s'" by (simp add: check_map_budget_def)
  have "run (build ?text secname) ctx_override ?s = run_section (built_obj ?text secname) ?x ctx_override ?s"
    by (simp add: run_def run_object_def elf maps sec size_maps_def sort_maps_def translator_init_def)
  also have "\<dots> = Some (Wrote (emit_program s'), s')"
    using s'(1) b decode_assembled [OF assms(5)] assms(4) c
    by (simp add: run_section_def INSN_SIZE_def len Let_def sym)
  finally show ?thesis using s'(2-4) by blast
qed

text \<open>\<open>r0 = 7; exit\<close>.\<close>

theorem object_lowering_witness:
  "\<exists>s' m. run (build [0xb7, 0, 0, 0, 7, 0, 0, 0, 0x95, 0, 0, 0, 0, 0, 0, 0] ''xdp'') None
      (translator_init CTX_XDP_MD (Some 4)) = Some (Wrote (emit_program s'), s')
    \<and> \<not> t_had_error s' \<and> rd (run_chain run_rules (t_modules s') Map.empty) (H_REG 0) = 7"
proof -
  let ?p = "[\<lparr>code = 0xb7, dst = 0, src = 0, off = 0, imm = 7\<rparr>, \<lparr>code = 0x95, dst = 0, src = 0, off = 0, imm = 0\<rparr>]"
  let ?c = "[[0xb7, 0, 0, 0, 7, 0, 0, 0], [0x95, 0, 0, 0, 0, 0, 0, 0]]"
  have "accepted ?p" by code_simp
  moreover have "assembled ?p ?c" by (simp add: assembled_def) code_simp
  moreover have "\<forall>c \<in> set ''xdp''. of_char c \<in> {1 ..< 128 :: nat}" by simp
  moreover have "ctx_layout_for ''xdp'' \<noteq> None" by (simp add: ctx_layout_for_def starts_with_def)
  ultimately have "\<exists>s' m. run (build (concat ?c) ''xdp'') None (translator_init CTX_XDP_MD (Some 4))
      = Some (Wrote (emit_program s'), s') \<and> \<not> t_had_error s' \<and> m \<le> length ?p + 1
      \<and> vm_run ?p m = Inr (rd (run_chain run_rules (t_modules s') Map.empty) (H_REG 0))"
    by (intro object_lowering [OF ref.first_match_axioms]) simp_all
  moreover have "vm_run ?p 2 = Inr 7" by code_simp
  ultimately show ?thesis using vm_run_det by (auto simp del: H_REG_def)
qed

section \<open>The emitted network\<close>

text \<open>
  C12: The edges that are emitted chain the parser, every module of the translation once and in order,
  and the deparser, and the ids along this path are distinct.
\<close>

theorem net_is_chain:
  assumes "translate_program insns s = Some s'"
    and "t_modules s = []" "t_next_mod s = MOD_FIRST_XFRM"
    and "t_stack_hdr_of s = Map.empty" "t_next_stack_hdr s = H_STACK_BASE"
  shows "let path = MOD_PARSER # map module_id (t_modules s') @ [MOD_DEPARSER]
         in net_edges s' = zip path (tl path) \<and> distinct path"
proof -
  have ids: "map module_id (t_modules s') = [10..<t_next_mod s']" "t_modules s' \<noteq> []"
    using translate_program_shape [OF assms] by (auto simp: ids_ok_def)
  then have n: "10 < t_next_mod s'" by (metis map_is_Nil_conv not_less upt_conv_Nil)
  then obtain k where k: "t_next_mod s' = Suc k" "10 \<le> k" by (cases "t_next_mod s'") auto
  have z: "zip [a..<Suc b] ([Suc a..<Suc b] @ [c]) = map (\<lambda>m. (m, m + 1)) [a..<b] @ [(b, c)]"
    if "a \<le> b" for a b c :: nat
  proof -
    have "zip ([a..<b] @ [b]) (map Suc [a..<b] @ [c]) = map (\<lambda>m. (m, m + 1)) [a..<b] @ [(b, c)]"
      by (simp add: zip_map2 zip_same_conv_map)
    with that show ?thesis by (simp add: map_Suc_upt)
  qed
  let ?U = "[10..<Suc k]" and ?V = "[Suc 10..<Suc k] @ [2]"
  have U: "?U = 10 # [Suc 10..<Suc k]" using k(2) by (simp add: upt_conv_Cons del: upt_Suc)
  have len: "length ?U = length ?V" using k(2) by (simp del: upt_Suc)
  have "zip (1 # ?U @ [2]) (?U @ [2]) = (1, 10) # zip (?U @ [2]) ?V"
    by (subst (2) U) (simp del: upt_Suc)
  also have "zip (?U @ [2]) ?V = zip ?U ?V"
    using len by (simp add: zip_append1 del: upt_Suc)
  finally have "zip (1 # ?U @ [2]) (?U @ [2]) = (1, 10) # map (\<lambda>m. (m, m + 1)) [10..<k] @ [(k, 2)]"
    using z [OF k(2), of 2] by simp
  moreover have "distinct (1 # ?U @ [2])" by simp
  ultimately show ?thesis by (simp add: ids(1) k(1) net_edges_def Let_def del: upt_Suc)
qed

theorem net_is_chain_witness:
  "\<exists>s'. translate_program [\<lparr>code = 0x95, dst = 0, src = 0, off = 0, imm = 0\<rparr>] (translator_init CTX_XDP_MD None) = Some s'
     \<and> fst (hd (net_edges s')) = MOD_PARSER"
proof -
  let ?p = "[\<lparr>code = 0x95, dst = 0, src = 0, off = 0, imm = 0\<rparr>]"
  have s: "\<not> t_had_error (translator_init CTX_XDP_MD None)"
      "t_insn_map_idx (translator_init CTX_XDP_MD None) = Map.empty"
    by (simp_all add: translator_init_def)
  have "accepted ?p" by code_simp
  from translate_program_accepted [OF this s] obtain s' where
    s': "translate_program ?p (translator_init CTX_XDP_MD None) = Some s'" by blast
  from net_is_chain [OF this] have "net_edges s' = zip (MOD_PARSER # map module_id (t_modules s') @ [MOD_DEPARSER])
      (map module_id (t_modules s') @ [MOD_DEPARSER])"
    by (simp add: translator_init_def Let_def)
  then have "fst (hd (net_edges s')) = MOD_PARSER" by (cases "t_modules s'") simp_all
  with s' show ?thesis by blast
qed

text \<open>
  C17: The regions of a program do not depend on the order in which an object declares its maps.
\<close>

theorem regions_order:
  assumes "mset (t_maps s) = mset (t_maps s')" "distinct (map m_name (t_maps s))" "t_ctx s = t_ctx s'"
  shows "t_maps (sort_maps s) = t_maps (sort_maps s') \<and> mem_regions (sort_maps s) = mem_regions (sort_maps s')"
proof -
  let ?A = "sort_key m_name (t_maps s)" and ?B = "sort_key m_name (t_maps s')"
  have same: "set ?A = set ?B" using assms(1) by (metis set_mset_mset set_sort)
  have "distinct (map m_name ?A)" "distinct (map m_name ?B)"
    using assms(1,2) by (metis mset_map mset_sort mset_eq_imp_distinct_iff)+
  moreover have "set (map m_name ?A) = set (map m_name ?B)" using same by simp
  ultimately have "map m_name ?A = map m_name ?B" by (intro sorted_distinct_set_unique) simp_all
  moreover have "inj_on m_name (set ?A \<union> set ?B)" using assms(2) same by (simp add: distinct_map)
  ultimately have "?A = ?B" by (simp add: inj_on_map_eq_map)
  then show ?thesis using assms(3) by (simp add: sort_maps_def mem_regions_def)
qed

theorem regions_order_witness:
  "mem_regions (sort_maps (add_map ''b'' 2 4 8 4 (add_map ''a'' 1 4 8 4 (translator_init CTX_XDP_MD None))))
   = mem_regions (sort_maps (add_map ''a'' 1 4 8 4 (add_map ''b'' 2 4 8 4 (translator_init CTX_XDP_MD None))))"
proof -
  let ?i = "translator_init CTX_XDP_MD None"
  let ?s = "add_map ''b'' 2 4 8 4 (add_map ''a'' 1 4 8 4 ?i)" and ?s' = "add_map ''a'' 1 4 8 4 (add_map ''b'' 2 4 8 4 ?i)"
  have "mset (t_maps ?s) = mset (t_maps ?s')" "distinct (map m_name (t_maps ?s))" "t_ctx ?s = t_ctx ?s'"
    by (simp_all add: add_map_def find_map_def translator_init_def)
  from regions_order [OF this] show ?thesis by blast
qed

section \<open>Sizing the maps\<close>

lemma m_tagged_budget [simp]: "m_tagged (mi\<lparr>m_slots_budget := k\<rparr>) = m_tagged mi"
  by (simp add: m_tagged_def m_family_def)

text \<open>The budget check looks at every tagged map that is used.\<close>

definition over_budget :: "tstate \<Rightarrow> nat \<Rightarrow> bool" where
  "over_budget s m \<longleftrightarrow> m_tagged (t_maps s ! m)
     \<and> (\<exists>n. t_map_sites s m = Some n \<and> n > m_nslots (t_maps s ! m) div 2)"

lemma check_map_budget_error:
  "t_had_error (check_map_budget s) \<longleftrightarrow> t_had_error s \<or> (\<exists>m < length (t_maps s). over_budget s m)"
proof -
  let ?f = "\<lambda>m s. case t_map_sites s m of None \<Rightarrow> s
    | Some n \<Rightarrow> let mi = t_maps s ! m; budget = m_nslots mi div 2
        in if m_tagged mi \<and> n > budget then report (MapBudget (m_name mi) n (m_nslots mi)) s else s"
  have step: "t_maps (?f m u) = t_maps u" "t_map_sites (?f m u) = t_map_sites u"
      "t_had_error (?f m u) \<longleftrightarrow> t_had_error u \<or> over_budget u m" for m u
    by (auto simp: over_budget_def Let_def split: option.split)
  have "t_had_error (fold ?f ms u) \<longleftrightarrow> t_had_error u \<or> (\<exists>m \<in> set ms. over_budget u m)" for ms u
  proof (induction ms arbitrary: u)
    case (Cons m ms)
    have "over_budget (?f m u) k = over_budget u k" for k unfolding over_budget_def step by (rule refl)
    then show ?case unfolding fold_Cons o_apply Cons.IH step by auto
  qed simp
  then show ?thesis by (auto simp: check_map_budget_def)
qed

text \<open>
  C15: With \<open>--map-slots=auto\<close>, where the hint counts the sites of each hash map, the budget check that
  follows passes if and only if every hash map used at \<open>n\<close> sites has room for them: \<open>2 * n\<close> slots are at
  most \<open>MAP_SLOTS_MAX\<close>, and at most the entries the map declares, when it declares any.
\<close>

theorem auto_sizing_fits:
  assumes "t_site_hint s = Some hint" "\<not> t_had_error s"
    and "\<forall>m < length (t_maps s). \<forall>n. m_tagged (t_maps s ! m) \<and> t_map_sites s m = Some n \<longrightarrow>
           hint (m_name (t_maps s ! m)) = Some n"
  shows "\<not> t_had_error (check_map_budget (size_maps s)) \<longleftrightarrow>
    (\<forall>m < length (t_maps s). \<forall>n. m_tagged (t_maps s ! m) \<and> t_map_sites s m = Some n \<longrightarrow>
       2 * n \<le> MAP_SLOTS_MAX \<and> (m_max_entries (t_maps s ! m) = 0 \<or> 2 * n \<le> m_max_entries (t_maps s ! m)))"
proof -
  have e: "t_had_error (size_maps s) = t_had_error s" "length (t_maps (size_maps s)) = length (t_maps s)"
    "t_map_sites (size_maps s) = t_map_sites s"
    using assms(1) by (simp_all add: size_maps_def)
  have "\<not> over_budget (size_maps s) m \<longleftrightarrow> (\<forall>n. m_tagged (t_maps s ! m) \<and> t_map_sites s m = Some n \<longrightarrow>
       2 * n \<le> MAP_SLOTS_MAX \<and> (m_max_entries (t_maps s ! m) = 0 \<or> 2 * n \<le> m_max_entries (t_maps s ! m)))"
    if m: "m < length (t_maps s)" for m
  proof (cases "m_tagged (t_maps s ! m) \<and> t_map_sites s m \<noteq> None")
    case True
    then obtain n where n: "t_map_sites s m = Some n" "hint (m_name (t_maps s ! m)) = Some n"
      using assms(3) m by auto
    let ?mi = "t_maps (size_maps s) ! m" and ?me = "m_max_entries (t_maps s ! m)"
    have mi: "?mi = (t_maps s ! m)\<lparr>m_slots_budget := min (max (2 * n) 1) 28\<rparr>"
      using m assms(1) n(2) True by (simp add: size_maps_def)
    have "n \<le> m_nslots ?mi div 2 \<longleftrightarrow> 2 * n \<le> 28 \<and> (?me = 0 \<or> 2 * n \<le> ?me)"
      by (auto simp: mi m_nslots_def Let_def)
    with True n(1) show ?thesis by (auto simp: over_budget_def e(3) mi)
  next
    case False
    have "m_tagged (t_maps (size_maps s) ! m) = m_tagged (t_maps s ! m)"
      using m assms(1) by (simp add: size_maps_def Let_def)
    with False show ?thesis by (auto simp: over_budget_def e(3))
  qed
  with assms(2) show ?thesis by (simp add: check_map_budget_error e)
qed

text \<open>
  C16: A hash map used at more sites than half the entries it declares is reported whatever number of slots
  is chosen, also where the region models every entry: no value of the option the message suggests helps.
\<close>

theorem small_map_refused:
  assumes "m < length (t_maps s)" "m_tagged (t_maps s ! m)" "0 < m_max_entries (t_maps s ! m)"
    and "t_map_sites s m = Some n" "m_max_entries (t_maps s ! m) div 2 < n"
  shows "t_had_error (check_map_budget (s\<lparr>t_maps := (t_maps s)[m := (t_maps s ! m)\<lparr>m_slots_budget := k\<rparr>]\<rparr>))"
proof -
  let ?s = "s\<lparr>t_maps := (t_maps s)[m := (t_maps s ! m)\<lparr>m_slots_budget := k\<rparr>]\<rparr>"
  let ?mi = "(t_maps s ! m)\<lparr>m_slots_budget := k\<rparr>"
  have "m_nslots ?mi \<le> m_max_entries (t_maps s ! m)" using assms(3) by (simp add: m_nslots_def Let_def)
  then have "m_nslots ?mi div 2 < n" using assms(5) div_le_mono [of "m_nslots ?mi" "m_max_entries (t_maps s ! m)" 2] by linarith
  then have "over_budget ?s m"
    using assms(1,2,4) by (simp add: over_budget_def)
  with assms(1) show ?thesis by (auto simp: check_map_budget_error)
qed

text \<open>One hash map of one entry, used once.\<close>

definition small_state :: "nat \<Rightarrow> tstate" where
  "small_state me = (add_map ''m'' 1 4 8 me (translator_init CTX_XDP_MD None))
     \<lparr>t_map_sites := [0 \<mapsto> 1], t_site_hint := Some [''m'' \<mapsto> 1]\<rparr>"

lemma small_state_fields:
  "t_maps (small_state me) = [\<lparr>m_name = ''m'', m_type = 1, m_key_size = 4, m_value_size = 8,
     m_max_entries = me, m_slots_budget = 4\<rparr>]"
  "t_map_sites (small_state me) = [0 \<mapsto> 1]" "t_site_hint (small_state me) = Some [''m'' \<mapsto> 1]"
  "\<not> t_had_error (small_state me)"
  by (simp_all add: small_state_def add_map_def find_map_def translator_init_def)

theorem auto_sizing_fits_witness:
  "\<not> t_had_error (check_map_budget (size_maps (small_state 100)))
   \<and> t_had_error (check_map_budget (size_maps (small_state 1)))"
  using auto_sizing_fits [of "small_state 100" "[''m'' \<mapsto> 1]"] auto_sizing_fits [of "small_state 1" "[''m'' \<mapsto> 1]"]
  by (force simp: small_state_fields m_tagged_def m_family_def ARRAY_TYPES_def HASH_TYPES_def)

theorem small_map_refused_witness:
  "t_had_error (check_map_budget ((small_state 1)\<lparr>t_maps := (t_maps (small_state 1))
     [0 := (t_maps (small_state 1) ! 0)\<lparr>m_slots_budget := 28\<rparr>]\<rparr>))"
  by (rule small_map_refused [of 0 "small_state 1" 1 28])
    (simp_all add: small_state_fields m_tagged_def m_family_def ARRAY_TYPES_def HASH_TYPES_def)

section \<open>Relocations\<close>

text \<open>
  C14: Every instruction that ends up bound to a map is in the program, the map is declared, and a 64-bit
  relocation at that instruction names it.
\<close>

theorem relocs_bind_declared_maps:
  assumes "t_insn_map_idx s = Map.empty" "t_insn_map_idx (load_map_relocs e k n s) idx = Some m"
  shows "idx < n \<and> m < length (t_maps s)
     \<and> (\<exists>ofs sym. (ofs, sym, R_BPF_64_64) \<in> set (relocations e k) \<and> ofs div INSN_SIZE = idx
          \<and> sym < length (elf_symbols e) \<and> sym_name (elf_symbols e ! sym) = m_name (t_maps s ! m))"
proof -
  let ?f = "\<lambda>(r_offset, sym_idx, r_type) s.
       if r_type \<noteq> R_BPF_64_64 \<or> sym_idx \<ge> length (elf_symbols e) then s
       else case find_map (sym_name (elf_symbols e ! sym_idx)) s of
              None \<Rightarrow> s
            | Some m \<Rightarrow>
                let idx = r_offset div INSN_SIZE
                in if idx < n then s\<lparr>t_insn_map_idx := (t_insn_map_idx s)(idx \<mapsto> m)\<rparr> else s"
  let ?ok = "\<lambda>rs idx m. idx < n \<and> m < length (t_maps s)
     \<and> (\<exists>ofs sym. (ofs, sym, R_BPF_64_64) \<in> set rs \<and> ofs div INSN_SIZE = idx
          \<and> sym < length (elf_symbols e) \<and> sym_name (elf_symbols e ! sym) = m_name (t_maps s ! m))"
  have "t_insn_map_idx (fold ?f rs u) idx = Some m \<Longrightarrow> t_maps u = t_maps s \<Longrightarrow>
      t_insn_map_idx u idx = Some m \<or> ?ok rs idx m" for rs u
  proof (induction rs arbitrary: u)
    case (Cons r rs)
    obtain ofs sym ty where r: "r = (ofs, sym, ty)" by (cases r)
    have "t_maps (?f r u) = t_maps s" using Cons.prems(2) by (simp add: r Let_def split: option.split)
    with Cons.IH [of "?f r u"] Cons.prems(1) have "t_insn_map_idx (?f r u) idx = Some m \<or> ?ok rs idx m" by simp
    then show ?case
    proof
      assume new: "t_insn_map_idx (?f r u) idx = Some m"
      show ?thesis
      proof (cases "t_insn_map_idx u idx = Some m")
        case False
        with new have h: "ty = R_BPF_64_64" "sym < length (elf_symbols e)" "ofs div INSN_SIZE = idx" "idx < n"
            "find_map (sym_name (elf_symbols e ! sym)) u = Some m"
          by (auto simp: r Let_def split: if_splits option.splits)
        from find_map_Some [OF h(5)] Cons.prems(2)
        have "m < length (t_maps s)" "sym_name (elf_symbols e ! sym) = m_name (t_maps s ! m)" by simp_all
        with h(1-4) r have "?ok (r # rs) idx m" by (metis list.set_intros(1))
        then show ?thesis ..
      qed simp
    next
      assume "?ok rs idx m"
      then have "?ok (r # rs) idx m" by auto
      then show ?thesis ..
    qed
  qed simp
  from this [of "relocations e k" s] assms show ?thesis by (simp add: load_map_relocs_def)
qed

text \<open>An object with one program slot that a relocation binds to the map.\<close>

definition reloc_elf :: elf where
  "reloc_elf =
     \<lparr>elf_blob = [],
      elf_sections = [\<lparr>sec_index = 0, sec_name = ''.relxdp'', sec_type = 9, sec_flags = 0, sec_offset = 0,
        sec_size = 16, sec_link = 0, sec_info = 1,
        sec_data = [8, 0, 0, 0, 0, 0, 0, 0, 1, 0, 0, 0, 0, 0, 0, 0]\<rparr>],
      elf_symbols = [\<lparr>sym_name = ''m'', sym_info = 0, sym_shndx = 1, sym_value = 0, sym_size = 0\<rparr>],
      elf_symstr = []\<rparr>"

theorem relocs_bind_declared_maps_witness:
  "t_insn_map_idx (load_map_relocs reloc_elf 1 2 (small_state 4)) 1 = Some 0 \<and> 0 < length (t_maps (small_state 4))"
proof -
  have "t_insn_map_idx (small_state 4) = Map.empty"
    by (simp add: small_state_def add_map_def find_map_def translator_init_def)
  moreover have "relocations reloc_elf 1 = [(8, 0, 1)]" by code_simp
  then have "t_insn_map_idx (load_map_relocs reloc_elf 1 2 (small_state 4)) 1 = Some 0"
    by (simp add: load_map_relocs_def reloc_elf_def find_map_def small_state_fields INSN_SIZE_def)
  ultimately show ?thesis using relocs_bind_declared_maps [of "small_state 4" reloc_elf 1 2 1 0] by simp
qed

section \<open>Files that are no objects\<close>

text \<open>
  C21: A file that does not start with the ELF magic is refused; one that does and is shorter than an ELF
  header ends the run with an exception instead.
\<close>

theorem run_not_an_object:
  assumes "length blob < 64"
  shows "run blob ctx_override (translator_init ctx (Some k))
     = (if take 4 blob = ELFMAG then None else Some (NoElf, translator_init ctx (Some k)))"
  using assms
  by (simp add: run_def run_object_def elf_init_def unpack_from_def EHDR_FMT_def translator_init_def)

theorem run_not_an_object_witness:
  "run [0x7f, 0x45, 0x4c, 0x46] None (translator_init CTX_XDP_MD (Some 4)) = None"
  using run_not_an_object [of "[0x7f, 0x45, 0x4c, 0x46]" None CTX_XDP_MD 4] by (simp add: ELFMAG_def)

end
