(* ===== verification/Disasm.thy ===== *)
theory Disasm
  imports Caracara_IR
begin

text \<open>
  The text of one instruction, \<open>src/pybpf/disasm.py\<close>, with the name tables of \<open>bpf.py\<close>.  A table
  is a function into \<open>option\<close>; \<open>d.get(k, s)\<close> is \<open>get_name\<close>.
\<close>

section \<open>Names\<close>

definition CLASS_NAME :: "int \<Rightarrow> string option" where
  "CLASS_NAME = map_of [(BPF_LD, ''LD''), (BPF_LDX, ''LDX''), (BPF_ST, ''ST''), (BPF_STX, ''STX''),
     (BPF_ALU, ''ALU''), (BPF_JMP, ''JMP''), (BPF_JMP32, ''JMP32''), (BPF_ALU64, ''ALU64'')]"

definition SIZE_NAME :: "int \<Rightarrow> string option" where
  "SIZE_NAME = map_of [(BPF_W, ''W''), (BPF_H, ''H''), (BPF_B, ''B''), (BPF_DW, ''DW'')]"

definition ALU_OP_NAME :: "int \<Rightarrow> string option" where
  "ALU_OP_NAME = map_of [(BPF_ADD, ''ADD''), (BPF_SUB, ''SUB''), (BPF_MUL, ''MUL''), (BPF_DIV, ''DIV''),
     (BPF_OR, ''OR''), (BPF_AND, ''AND''), (BPF_LSH, ''LSH''), (BPF_RSH, ''RSH''), (BPF_NEG, ''NEG''),
     (BPF_MOD, ''MOD''), (BPF_XOR, ''XOR''), (BPF_MOV, ''MOV''), (BPF_ARSH, ''ARSH''), (BPF_END, ''END'')]"

definition JMP_OP_NAME :: "int \<Rightarrow> string option" where
  "JMP_OP_NAME = map_of [(BPF_JA, ''JA''), (BPF_JEQ, ''JEQ''), (BPF_JGT, ''JGT''), (BPF_JGE, ''JGE''),
     (BPF_JSET, ''JSET''), (BPF_JNE, ''JNE''), (BPF_JSGT, ''JSGT''), (BPF_JSGE, ''JSGE''),
     (BPF_CALL, ''CALL''), (BPF_EXIT, ''EXIT''), (BPF_JLT, ''JLT''), (BPF_JLE, ''JLE''),
     (BPF_JSLT, ''JSLT''), (BPF_JSLE, ''JSLE'')]"

definition get_name :: "(int \<Rightarrow> string option) \<Rightarrow> int \<Rightarrow> string \<Rightarrow> string" where
  "get_name names k d = (case names k of None \<Rightarrow> d | Some n \<Rightarrow> n)"

section \<open>Numbers\<close>

definition hex_char :: "int \<Rightarrow> char" where
  "hex_char d = (if d < 10 then digit_char (nat d) else char_of (87 + d))"

function show_hex :: "int \<Rightarrow> string" where
  "show_hex n = (if n < 16 then [hex_char n] else show_hex (n div 16) @ [hex_char (n mod 16)])"
  by pat_completeness auto
termination by (relation "measure nat") auto

declare show_hex.simps [simp del]

text \<open>\<open>%4d\<close> and \<open>%02x\<close> pad on the left; \<open>%+d\<close> always shows the sign.\<close>

definition pad_left :: "nat \<Rightarrow> char \<Rightarrow> string \<Rightarrow> string" where
  "pad_left n c s = replicate (n - length s) c @ s"

definition show_signed :: "int \<Rightarrow> string" where
  "show_signed v = (if v < 0 then show_int v else ''+'' @ show_int v)"

definition hex32 :: "int \<Rightarrow> string" where
  "hex32 v = ''0x'' @ show_hex (v AND 0xffffffff)"

definition show_reg :: "nat \<Rightarrow> string" where
  "show_reg n = ''r'' @ show_nat n"

section \<open>The line\<close>

definition format_head :: "insn \<Rightarrow> nat \<Rightarrow> string" where
  "format_head i idx =
     ''['' @ pad_left 4 (CHR '' '') (show_nat idx) @ ''] code=0x'' @ pad_left 2 (CHR ''0'') (show_hex (code i))
     @ '' dst='' @ show_nat (dst i) @ '' src='' @ show_nat (src i) @ '' off='' @ show_int (off i)
     @ '' imm='' @ show_int (imm i) @ '' | ''"

definition format_alu :: "insn \<Rightarrow> string" where
  "format_alu i =
     (if i_cls i = BPF_ALU64 then ''ALU64'' else ''ALU'') @ ''_'' @ get_name ALU_OP_NAME (i_op i) ''UNKNOWN''
     @ (if src_field (code i) = BPF_X
        then '' '' @ show_reg (dst i) @ '', '' @ show_reg (src i)
        else '' '' @ show_reg (dst i) @ '', '' @ hex32 (imm i))"

definition format_jmp :: "insn \<Rightarrow> string" where
  "format_jmp i =
     (if i_cls i = BPF_JMP32 then ''JMP32'' else ''JMP'') @ ''_'' @ get_name JMP_OP_NAME (i_op i) ''UNKNOWN''
     @ (if i_op i = BPF_CALL then '' '' @ show_int (imm i)
        else if i_op i = BPF_EXIT then ''''
        else if i_op i = BPF_JA then '' '' @ show_signed (off i)
        else if src_field (code i) = BPF_X
        then '' '' @ show_reg (dst i) @ '', '' @ show_reg (src i) @ '', '' @ show_signed (off i)
        else '' '' @ show_reg (dst i) @ '', '' @ hex32 (imm i) @ '', '' @ show_signed (off i))"

definition format_mem :: "string \<Rightarrow> insn \<Rightarrow> nat \<Rightarrow> string \<Rightarrow> string" where
  "format_mem name i base operand =
     name @ ''_'' @ get_name SIZE_NAME (i_size i) ''?'' @ '' ['' @ show_reg base @ show_signed (off i)
     @ ''], '' @ operand"

definition is_imm64 :: "insn \<Rightarrow> bool" where
  "is_imm64 i \<longleftrightarrow> i_cls i = BPF_LD \<and> i_mode i = BPF_IMM \<and> i_size i = BPF_DW"

definition format_body :: "insn \<Rightarrow> string" where
  "format_body i =
     (let c = i_cls i
      in if c = BPF_ALU \<or> c = BPF_ALU64 then format_alu i
         else if c = BPF_JMP \<or> c = BPF_JMP32 then format_jmp i
         else if c = BPF_LDX then format_mem ''LDX'' i (src i) (show_reg (dst i))
         else if c = BPF_STX then format_mem ''STX'' i (dst i) (show_reg (src i))
         else if c = BPF_ST then format_mem ''ST'' i (dst i) (hex32 (imm i))
         else if c = BPF_LD then
           (if i_mode i = BPF_IMM \<and> i_size i = BPF_DW
            then ''LD_IMM64 '' @ show_reg (dst i) @ '', '' @ hex32 (imm i)
                 @ '' [lower 32 bits; next insn has upper 32]''
            else ''LD_'' @ get_name SIZE_NAME (i_size i) ''?'' @ ''_''
                 @ (if i_mode i = BPF_ABS then ''ABS'' else if i_mode i = BPF_IND then ''IND'' else ''?''))
         else get_name CLASS_NAME c ''UNKNOWN'' @ '' (details not decoded)'')"

definition format_insn :: "insn \<Rightarrow> nat \<Rightarrow> string" where
  "format_insn i idx = format_head i idx @ format_body i"

end
