(* ===== verification/Text.thy ===== *)
theory Text
  imports Disasm
begin

text \<open>
  What the text of the printers determines: a number can be read back from its digits, and a run of
  characters of one kind ends where another kind begins.  From this, the line of an instruction
  determines the instruction.
\<close>

section \<open>Runs of characters\<close>

lemma span_unique:
  assumes "xs @ c # r = ys @ d # r'" "\<forall>x \<in> set xs. P x" "\<forall>y \<in> set ys. P y" "\<not> P c" "\<not> P d"
  shows "xs = ys \<and> c = d \<and> r = r'"
  using assms
proof (induction xs arbitrary: ys)
  case Nil
  then show ?case by (cases ys) auto
next
  case (Cons x xs)
  then show ?case by (cases ys) auto
qed

definition is_digit :: "char \<Rightarrow> bool" where
  "is_digit c \<longleftrightarrow> c \<in> set ''0123456789''"

definition is_hex :: "char \<Rightarrow> bool" where
  "is_hex c \<longleftrightarrow> c \<in> set ''0123456789abcdef''"

definition read_nat :: "string \<Rightarrow> nat" where
  "read_nat = foldl (\<lambda>a c. 10 * a + (of_char c - 48)) 0"

definition hex_value :: "char \<Rightarrow> int" where
  "hex_value c = (if is_digit c then of_char c - 48 else of_char c - 87)"

definition read_hex :: "string \<Rightarrow> int" where
  "read_hex = foldl (\<lambda>a c. 16 * a + hex_value c) 0"

definition read_int :: "string \<Rightarrow> int" where
  "read_int s = (if s \<noteq> [] \<and> hd s = CHR ''-'' then - int (read_nat (tl s)) else int (read_nat s))"

section \<open>Reading numbers back\<close>

lemma less_10_cases: "(d::nat) < 10 \<Longrightarrow> d \<in> {0, 1, 2, 3, 4, 5, 6, 7, 8, 9}"
  by auto

lemma digit_char_facts:
  assumes "d < 10"
  shows "is_digit (digit_char d)" "of_char (digit_char d) = 48 + d"
proof -
  have "is_digit (digit_char d) \<and> of_char (digit_char d) = 48 + d"
    using less_10_cases [OF assms]
    by (elim insertE emptyE) (simp_all add: is_digit_def digit_char_def char_of_def bit_Suc_0_iff)
  then show "is_digit (digit_char d)" "of_char (digit_char d) = 48 + d" by blast+
qed

lemma show_nat_digits: "\<forall>c \<in> set (show_nat n). is_digit c"
  by (induction n rule: show_nat.induct) (subst show_nat.simps, auto simp: digit_char_facts)

lemma show_nat_Nil [simp]: "show_nat n \<noteq> []"
  by (subst show_nat.simps) simp

lemma read_show_nat [simp]: "read_nat (show_nat n) = n"
proof (induction n rule: show_nat.induct)
  case (1 n)
  then show ?case
    by (subst show_nat.simps) (auto simp: read_nat_def digit_char_facts)
qed

lemma not_digit [simp]:
  "\<not> is_digit CHR '' ''" "\<not> is_digit CHR '']''" "\<not> is_digit CHR ''-''" "\<not> is_digit CHR '')''"
  "\<not> is_digit (CHR 0x0A)"
  by (simp_all add: is_digit_def)

lemma hd_show_nat: "is_digit (hd (show_nat n))"
  using show_nat_digits [of n] by (cases "show_nat n") auto

lemma read_show_int [simp]: "read_int (show_int v) = v"
  using hd_show_nat [of "nat v"] by (auto simp: read_int_def show_int_def)

lemma show_int_chars: "\<forall>c \<in> set (show_int v). is_digit c \<or> c = CHR ''-''"
  using show_nat_digits by (auto simp: show_int_def)

lemma is_hex_0: "is_hex CHR ''0''"
  by (simp add: is_hex_def)

lemma hex_char_facts:
  assumes "0 \<le> d" "d < 16"
  shows "is_hex (hex_char d)" "hex_value (hex_char d) = d"
proof -
  have "d \<in> {0, 1, 2, 3, 4, 5, 6, 7, 8, 9, 10, 11, 12, 13, 14, 15}" using assms by simp presburger
  then have "is_hex (hex_char d) \<and> hex_value (hex_char d) = d"
    by (elim insertE emptyE) (simp_all add: is_hex_def is_digit_def hex_value_def hex_char_def digit_char_def char_of_def bit_Suc_0_iff)
  then show "is_hex (hex_char d)" "hex_value (hex_char d) = d" by blast+
qed

lemma show_hex_chars: "0 \<le> n \<Longrightarrow> \<forall>c \<in> set (show_hex n). is_hex c"
  by (induction n rule: show_hex.induct) (subst show_hex.simps, auto simp: hex_char_facts)

lemma read_show_hex [simp]: "0 \<le> n \<Longrightarrow> read_hex (show_hex n) = n"
proof (induction n rule: show_hex.induct)
  case (1 n)
  then show ?case by (subst show_hex.simps) (auto simp: read_hex_def hex_char_facts)
qed

lemma read_hex_pad: "read_hex (pad_left n CHR ''0'' s) = read_hex s"
proof -
  have "foldl (\<lambda>a c. 16 * a + hex_value c) 0 (replicate k CHR ''0'') = 0" for k
    by (induction k) (simp_all add: hex_value_def is_digit_def)
  then show ?thesis by (simp add: read_hex_def pad_left_def)
qed

section \<open>The line of an instruction\<close>

lemma pad_spaces:
  "dropWhile (\<lambda>c. c = CHR '' '') (pad_left n CHR '' '' (show_nat k) @ r) = show_nat k @ r"
proof -
  have "hd (show_nat k) \<noteq> CHR '' ''" using hd_show_nat [of k] not_digit(1) by metis
  then have "dropWhile (\<lambda>c. c = CHR '' '') (show_nat k @ r) = show_nat k @ r"
    by (cases "show_nat k") simp_all
  then show ?thesis by (simp add: pad_left_def dropWhile_append)
qed

lemma show_int_span:
  assumes "show_int a @ CHR '' '' # r = show_int b @ CHR '' '' # r'"
  shows "a = b \<and> r = r'"
proof -
  have "show_int a = show_int b \<and> CHR '' '' = CHR '' '' \<and> r = r'"
    by (rule span_unique [OF assms show_int_chars show_int_chars]) simp_all
  then show ?thesis by (metis read_show_int)
qed

lemma show_nat_span:
  assumes "show_nat a @ c # r = show_nat b @ c # r'" "\<not> is_digit c"
  shows "a = b \<and> r = r'"
proof -
  have "show_nat a = show_nat b \<and> c = c \<and> r = r'"
    by (rule span_unique [OF assms(1) show_nat_digits show_nat_digits assms(2,2)])
  then show ?thesis by (metis read_show_nat)
qed

text \<open>
  C20: The line printed for an instruction determines its position and the instruction: two different
  instructions, or one at two positions, never print alike.
\<close>

theorem format_insn_inj:
  assumes "format_insn i n = format_insn j m" and "0 \<le> code i" "0 \<le> code j"
  shows "n = m \<and> i = j"
proof -
  let ?o = "\<lambda>i. ''off='' @ show_int (off i) @ '' imm='' @ show_int (imm i) @ '' | '' @ format_body i"
  let ?s = "\<lambda>i. ''src='' @ show_nat (src i) @ CHR '' '' # ?o i"
  let ?d = "\<lambda>i. ''dst='' @ show_nat (dst i) @ CHR '' '' # ?s i"
  let ?c = "\<lambda>i. pad_left 2 CHR ''0'' (show_hex (code i))"
  let ?t = "\<lambda>i. '' code=0x'' @ ?c i @ CHR '' '' # ?d i"
  from assms(1) have "pad_left 4 CHR '' '' (show_nat n) @ CHR '']'' # ?t i
      = pad_left 4 CHR '' '' (show_nat m) @ CHR '']'' # ?t j"
    by (simp add: format_insn_def format_head_def)
  from arg_cong [where f = "dropWhile (\<lambda>c. c = CHR '' '')", OF this]
  have "show_nat n @ CHR '']'' # ?t i = show_nat m @ CHR '']'' # ?t j" by (simp only: pad_spaces)
  from show_nat_span [OF this not_digit(2)] have n: "n = m" and "?t i = ?t j" by blast+
  then have t: "?c i @ CHR '' '' # ?d i = ?c j @ CHR '' '' # ?d j" by (simp only: append.simps list.inject)
  have hex: "\<forall>c \<in> set (?c k). is_hex c" if "0 \<le> code k" for k
    using show_hex_chars [OF that] is_hex_0 by (auto simp: pad_left_def)
  have "\<not> is_hex CHR '' ''" by (simp add: is_hex_def)
  from span_unique [OF t hex [OF assms(2)] hex [OF assms(3)] this this]
  have "?c i = ?c j" and "?d i = ?d j" by blast+
  from this(2) have "show_nat (dst i) @ CHR '' '' # ?s i = show_nat (dst j) @ CHR '' '' # ?s j" by (simp only: append.simps list.inject)
  from show_nat_span [OF this not_digit(1)] have d: "dst i = dst j" and "?s i = ?s j" by blast+
  then have "show_nat (src i) @ CHR '' '' # ?o i = show_nat (src j) @ CHR '' '' # ?o j" by (simp only: append.simps list.inject)
  from show_nat_span [OF this not_digit(1)] have s: "src i = src j" and "?o i = ?o j" by blast+
  then have "show_int (off i) @ CHR '' '' # ''imm='' @ show_int (imm i) @ CHR '' '' # ''| '' @ format_body i
      = show_int (off j) @ CHR '' '' # ''imm='' @ show_int (imm j) @ CHR '' '' # ''| '' @ format_body j" by (simp only: append.simps list.inject)
  from show_int_span [OF this]
  have f: "off i = off j" and "show_int (imm i) @ CHR '' '' # ''| '' @ format_body i
      = show_int (imm j) @ CHR '' '' # ''| '' @ format_body j" by (simp_all only: append.simps list.inject)
  from show_int_span [OF this(2)] have g: "imm i = imm j" by blast
  have "code i = code j"
    using arg_cong [where f = read_hex, OF \<open>?c i = ?c j\<close>] assms(2,3) by (simp add: read_hex_pad)
  with n d s f g show ?thesis by simp
qed

theorem format_insn_inj_witness:
  "format_insn \<lparr>code = 0xb7, dst = 1, src = 0, off = 0, imm = 5\<rparr> 3
   \<noteq> format_insn \<lparr>code = 0xb7, dst = 1, src = 1, off = 0, imm = 5\<rparr> 3"
  using format_insn_inj [of "\<lparr>code = 0xb7, dst = 1, src = 0, off = 0, imm = 5\<rparr>" 3
      "\<lparr>code = 0xb7, dst = 1, src = 1, off = 0, imm = 5\<rparr>" 3] by auto

end
