(* ===== verification/Sexp.thy ===== *)
theory Sexp
  imports Emission Text
begin

text \<open>
  The reader of \<open>src/tests/sexp.py\<close>, and the s-expressions that the printers write: the text of a
  program reads back as the tree of its modules, edges and regions, and so determines them.

  The text is given as its UTF-8 bytes.  \<open>lex\<close> does the work of the comment split and of \<open>findall\<close> in
  one pass; its first two arguments are the encodings of the line breaks and of the white space
  outside ASCII, which are \<open>UNI_BREAKS\<close> and \<open>UNI_SPACES\<close> for the reader.  \<open>node\<close> has the depth of its
  recursion bounded by the number of tokens.
\<close>

section \<open>Tokens\<close>

datatype tok = LP | RP | Word string

definition is_break :: "char \<Rightarrow> bool" where
  "is_break c \<longleftrightarrow> of_char c \<in> {10, 11, 12, 13, 28, 29, 30 :: nat}"

definition is_space :: "char \<Rightarrow> bool" where
  "is_space c \<longleftrightarrow> is_break c \<or> of_char c \<in> {9, 31, 32 :: nat}"

definition is_atom :: "char \<Rightarrow> bool" where
  "is_atom c \<longleftrightarrow> \<not> is_space c \<and> c \<notin> {CHR ''('', CHR '')'', CHR '';''}"

text \<open>
  U+0085, U+2028 and U+2029 break lines for \<open>splitlines\<close>; they and U+00A0, U+1680, U+2000 to U+200A, U+202F,
  U+205F and U+3000 are white space for the pattern.
\<close>

definition UNI_BREAKS :: "string list" where
  "UNI_BREAKS = [[CHR 0xC2, CHR 0x85], [CHR 0xE2, CHR 0x80, CHR 0xA8], [CHR 0xE2, CHR 0x80, CHR 0xA9]]"

definition UNI_SPACES :: "string list" where
  "UNI_SPACES = UNI_BREAKS @ [[CHR 0xC2, CHR 0xA0], [CHR 0xE1, CHR 0x9A, CHR 0x80]]
     @ map (\<lambda>c. [CHR 0xE2, CHR 0x80, c])
         [CHR 0x80, CHR 0x81, CHR 0x82, CHR 0x83, CHR 0x84, CHR 0x85, CHR 0x86, CHR 0x87, CHR 0x88, CHR 0x89,
          CHR 0x8A, CHR 0xAF]
     @ [[CHR 0xE2, CHR 0x81, CHR 0x9F], [CHR 0xE3, CHR 0x80, CHR 0x80]]"

text \<open>The length of the encoding that \<open>s\<close> starts with, 0 when it starts with none.\<close>

definition lead :: "string list \<Rightarrow> string \<Rightarrow> nat" where
  "lead ps s = (case find (starts_with s) ps of None \<Rightarrow> 0 | Some p \<Rightarrow> length p)"

fun skip_line :: "string list \<Rightarrow> string \<Rightarrow> string" where
  "skip_line bs [] = []"
| "skip_line bs (c # cs) = (if is_break c \<or> lead bs (c # cs) \<noteq> 0 then c # cs else skip_line bs cs)"

fun split_word :: "string list \<Rightarrow> string \<Rightarrow> string \<times> string" where
  "split_word ss [] = ([], [])"
| "split_word ss (c # cs) =
     (if \<not> is_atom c \<or> lead ss (c # cs) \<noteq> 0 then ([], c # cs)
      else let (w, r) = split_word ss cs in (c # w, r))"

lemma length_skip_line: "length (skip_line bs cs) \<le> length cs"
  by (induction cs) auto

lemma length_split_word: "length (snd (split_word ss cs)) \<le> length cs"
  by (induction cs) (auto split: prod.splits)

function lex :: "string list \<Rightarrow> string list \<Rightarrow> string \<Rightarrow> tok list" where
  "lex bs ss [] = []"
| "lex bs ss (c # cs) =
     (if c = CHR ''('' then LP # lex bs ss cs
      else if c = CHR '')'' then RP # lex bs ss cs
      else if c = CHR '';'' then lex bs ss (skip_line bs cs)
      else if is_space c then lex bs ss cs
      else if lead ss (c # cs) \<noteq> 0 then lex bs ss (drop (lead ss (c # cs)) (c # cs))
      else Word (c # fst (split_word ss cs)) # lex bs ss (snd (split_word ss cs)))"
  by pat_completeness auto
termination
  by (relation "measure (\<lambda>(bs, ss, cs). length cs)")
    (auto simp: less_Suc_eq_le length_skip_line length_split_word)

declare lex.simps(2) [simp del]

section \<open>The parser\<close>

datatype sx = Atom string | Node "sx list"

fun node :: "nat \<Rightarrow> tok list \<Rightarrow> (sx \<times> tok list) option"
  and nodes :: "nat \<Rightarrow> tok list \<Rightarrow> (sx list \<times> tok list) option" where
  "node 0 ts = None"
| "node (Suc n) [] = None"
| "node (Suc n) (LP # ts) = map_option (\<lambda>(xs, r). (Node xs, r)) (nodes n ts)"
| "node (Suc n) (RP # ts) = Some (Atom '')'', ts)"
| "node (Suc n) (Word w # ts) = Some (Atom w, ts)"
| "nodes 0 ts = None"
| "nodes (Suc n) [] = None"
| "nodes (Suc n) (t # ts) =
     (if t = RP then Some ([], ts)
      else Option.bind (node n (t # ts)) (\<lambda>(x, r).
           Option.bind (nodes n r) (\<lambda>(xs, r). Some (x # xs, r))))"

definition sexp_parse :: "string \<Rightarrow> sx option" where
  "sexp_parse text = (let toks = lex UNI_BREAKS UNI_SPACES text in map_option fst (node (2 * length toks + 1) toks))"

fun sx_toks :: "sx \<Rightarrow> tok list" where
  "sx_toks (Atom w) = [Word w]"
| "sx_toks (Node xs) = LP # concat (map sx_toks xs) @ [RP]"

lemma sx_toks_hd: "\<exists>t ts. sx_toks x = t # ts \<and> t \<noteq> RP"
  by (cases x) simp_all

lemma node_toks:
  "2 * length (sx_toks x) \<le> n \<Longrightarrow> node n (sx_toks x @ r) = Some (x, r)"
proof (induction x arbitrary: n r)
  case (Atom w)
  then show ?case by (cases n) simp_all
next
  case (Node xs)
  have ns: "nodes m (concat (map sx_toks ys) @ RP # r) = Some (ys, r)"
    if "2 * length (concat (map sx_toks ys)) + 1 \<le> m" "set ys \<subseteq> set xs" for ys m
    using that
  proof (induction ys arbitrary: m)
    case Nil
    then show ?case by (cases m) simp_all
  next
    case (Cons y ys)
    obtain t ts where y: "sx_toks y = t # ts" "t \<noteq> RP" using sx_toks_hd by blast
    with Cons.prems(1) obtain k where m: "m = Suc k" "2 * length (sx_toks y) \<le> k"
        "2 * length (concat (map sx_toks ys)) + 1 \<le> k"
      by (cases m) simp_all
    have "node k (sx_toks y @ concat (map sx_toks ys) @ RP # r) = Some (y, concat (map sx_toks ys) @ RP # r)"
      using Cons.prems(2) m(2) by (intro Node.IH) simp_all
    with Cons.IH [OF m(3)] Cons.prems(2) y m(1) show ?case by simp
  qed
  then obtain k where "n = Suc k" "2 * length (concat (map sx_toks xs)) + 1 \<le> k"
    using Node.prems by (cases n) simp_all
  with ns [of xs k] show ?case by simp
qed

lemma sexp_parse_toks: "lex UNI_BREAKS UNI_SPACES text = sx_toks x \<Longrightarrow> sexp_parse text = Some x"
  using node_toks [of x "2 * length (sx_toks x) + 1" "[]"] by (simp add: sexp_parse_def)

section \<open>Reading what is printed\<close>

text \<open>The plain text of a tree, and trees whose atoms are words.\<close>

fun sx_show :: "sx \<Rightarrow> string" where
  "sx_show (Atom w) = w"
| "sx_show (Node xs) = ''('' @ join_spaces (map sx_show xs) @ '')''"

definition ascii :: "char \<Rightarrow> bool" where
  "ascii c \<longleftrightarrow> of_char c < (128 :: nat)"

definition word :: "string \<Rightarrow> bool" where
  "word w \<longleftrightarrow> w \<noteq> [] \<and> list_all (\<lambda>c. is_atom c \<and> ascii c) w"

fun sx_ok :: "sx \<Rightarrow> bool" where
  "sx_ok (Atom w) \<longleftrightarrow> word w"
| "sx_ok (Node xs) \<longleftrightarrow> list_all sx_ok xs"

text \<open>Encodings of characters outside ASCII: none of them starts at an ASCII character.\<close>

definition wide :: "string list \<Rightarrow> bool" where
  "wide ps \<longleftrightarrow> list_all (\<lambda>p. p \<noteq> [] \<and> list_all (\<lambda>c. \<not> ascii c) p) ps"

lemma wide_uni: "wide UNI_BREAKS" "wide UNI_SPACES"
  by code_simp+

lemma starts_with_simps [simp]:
  "starts_with s []" "\<not> starts_with [] (x # p)" "starts_with (c # s) (x # p) \<longleftrightarrow> c = x \<and> starts_with s p"
  by (auto simp: starts_with_def)

lemma lead_zero: "wide ps \<Longrightarrow> lead ps s = 0 \<longleftrightarrow> (\<forall>p \<in> set ps. \<not> starts_with s p)"
  by (induction ps) (auto simp: lead_def wide_def split: option.split)

lemma lead_ascii: "wide ps \<Longrightarrow> ascii c \<Longrightarrow> lead ps (c # cs) = 0"
  unfolding lead_zero by (auto simp: wide_def list_all_iff neq_Nil_conv)

lemma starts_with_append:
  "list_all (\<lambda>c. \<not> ascii c) p \<Longrightarrow> ascii (hd ys) \<or> ys = [] \<Longrightarrow> starts_with (xs @ ys) p \<Longrightarrow> starts_with xs p"
proof (induction p arbitrary: xs)
  case (Cons a p)
  show ?case
  proof (cases xs)
    case Nil
    with Cons.prems show ?thesis by (cases ys) auto
  next
    case (Cons x zs)
    with Cons.prems Cons.IH [of zs] show ?thesis by simp
  qed
qed simp

lemma lex_sep [simp]:
  "lex bs ss (CHR ''('' # r) = LP # lex bs ss r" "lex bs ss (CHR '')'' # r) = RP # lex bs ss r"
  "lex bs ss (CHR '' '' # r) = lex bs ss r" "lex bs ss (CHR 0x0A # r) = lex bs ss r"
  by (simp_all add: lex.simps is_space_def is_break_def)

lemma not_atom [simp]:
  "\<not> is_atom CHR ''(''" "\<not> is_atom CHR '')''" "\<not> is_atom CHR '' ''" "\<not> is_atom (CHR 0x0A)"
  by (simp_all add: is_atom_def is_space_def is_break_def)

lemma lex_word:
  assumes "wide ss" "word w" "\<not> is_atom c"
  shows "lex bs ss (w @ c # r) = Word w # lex bs ss (c # r)"
proof -
  obtain x xs where w: "w = x # xs" "is_atom x" "ascii x" "list_all (\<lambda>c. is_atom c \<and> ascii c) xs"
    using assms(2) by (cases w) (auto simp: word_def)
  have "split_word ss (xs @ c # r) = (xs, c # r)"
    using w(4) assms(1,3) by (induction xs) (simp_all add: lead_ascii)
  with w(1-3) assms(1) show ?thesis by (simp add: lex.simps is_atom_def lead_ascii)
qed

lemma lex_show:
  assumes "wide ss"
  shows "sx_ok x \<Longrightarrow> \<not> is_atom c \<Longrightarrow> lex bs ss (sx_show x @ c # r) = sx_toks x @ lex bs ss (c # r)"
proof (induction x arbitrary: c r)
  case (Node xs)
  have "lex bs ss (join_spaces (map sx_show ys) @ CHR '')'' # q) = concat (map sx_toks ys) @ RP # lex bs ss q"
    if "set ys \<subseteq> set xs" for ys q
    using that
  proof (induction ys rule: induct_list012)
    case (2 y)
    with Node.IH [of y] Node.prems(1) show ?case by (simp add: list_all_iff)
  next
    case (3 y z ys)
    have "lex bs ss (sx_show y @ CHR '' '' # join_spaces (map sx_show (z # ys)) @ CHR '')'' # q)
        = sx_toks y @ lex bs ss (CHR '' '' # join_spaces (map sx_show (z # ys)) @ CHR '')'' # q)"
      using "3.prems" Node.prems(1) by (intro Node.IH) (auto simp: list_all_iff)
    with 3 show ?case by simp
  qed simp
  from this [of xs "c # r"] show ?case by simp
qed (simp add: lex_word assms)

section \<open>The trees of a program\<close>

definition tree_nat :: "nat \<Rightarrow> sx" where "tree_nat n = Atom (show_nat n)"
definition tree_int :: "int \<Rightarrow> sx" where "tree_int v = Atom (show_int v)"

fun tree_list :: "sx list \<Rightarrow> sx" where
  "tree_list [] = Atom ''Coq_nil''"
| "tree_list (x # xs) = Node [Atom ''Coq_cons'', x, tree_list xs]"

definition tree_width :: "width \<Rightarrow> sx" where "tree_width w = Atom (show_width w)"
definition tree_binop :: "ir_binop \<Rightarrow> sx" where "tree_binop f = Atom (show_binop f)"
definition tree_cmp :: "cmp \<Rightarrow> sx" where "tree_cmp c = Atom (show_cmp c)"

fun tree_operand :: "operand \<Rightarrow> sx" where
  "tree_operand (OpConst v) = Node [Atom ''OpConst'', tree_int v]"
| "tree_operand (OpHeader h) = Node [Atom ''OpHeader'', tree_nat h]"

fun tree_match_value :: "match_value \<Rightarrow> sx" where
  "tree_match_value (MatchConst k w) = Node [Atom ''MatchConst'', tree_int k, tree_width w]"
| "tree_match_value (MatchHeader h) = Node [Atom ''MatchHeader'', tree_nat h]"

fun tree_entry :: "match_entry \<Rightarrow> sx" where
  "tree_entry (Entry h c v) =
     Node [Atom ''Coq_pair'', Node [Atom ''Coq_pair'', tree_nat h, tree_cmp c], tree_match_value v]"

fun tree_op :: "ir_op \<Rightarrow> sx" where
  "tree_op (StatelessOp f w a b t) =
     Node [Atom ''StatelessOp'', tree_binop f, tree_width w, tree_operand a, tree_operand b, tree_nat t]"
| "tree_op (CastHeaderOp w w' a t) =
     Node [Atom ''CastHeaderOp'', tree_width w, tree_width w', tree_operand a, tree_nat t]"
| "tree_op (LoadOp w r a t) = Node [Atom ''LoadOp'', tree_width w, tree_nat r, tree_operand a, tree_nat t]"
| "tree_op (StoreOp w r a v) = Node [Atom ''StoreOp'', tree_width w, tree_nat r, tree_operand a, tree_operand v]"

fun tree_rule :: "ir_rule \<Rightarrow> sx" where
  "tree_rule (SeqCtr es ops) =
     Node [Atom ''Seq'', Node [Atom ''SeqCtr'', tree_list (map tree_entry es), tree_list (map tree_op ops)]]"

fun tree_module :: "ir_module \<Rightarrow> sx" where
  "tree_module (TransformerModule m rules) =
     Node [Atom ''TransformerModule'', tree_nat m, Atom ''Coq_nil'', Atom ''Coq_nil'', tree_list (map tree_rule rules)]"

definition tree_pair :: "nat \<times> nat \<Rightarrow> sx" where
  "tree_pair e = Node [tree_nat (fst e), tree_nat (snd e)]"

definition tree_region :: "nat \<times> nat \<Rightarrow> sx" where
  "tree_region r = Node [Node [Atom ''mr_id'', tree_nat (fst r)], Node [Atom ''mr_len'', tree_nat (snd r)]]"

definition tree_parser :: sx where
  "tree_parser =
     Node [Atom ''ParserModule'', tree_nat MOD_PARSER,
       Node [Node [Atom ''parser_start'', tree_nat 1],
         Node [Atom ''parser_states'', tree_list [Node [Node [Atom ''psd_label'', tree_nat 1],
           Node [Atom ''psd_action'', Atom ''None''],
           Node [Atom ''psd_trans'', Node [Atom ''Unconditional'', Atom ''Accept'']]]]]]]"

definition tree_deparser :: sx where
  "tree_deparser =
     Node [Atom ''DeparserModule'', tree_nat MOD_DEPARSER,
       tree_list [Node [Atom ''EmitOpConstructor'', tree_nat (H_REG 0), tree_nat 32]]]"

definition tree_program :: "tstate \<Rightarrow> sx" where
  "tree_program s =
     Node [Atom ''GeneralCaracaraProgramDef'', tree_nat 0, tree_list (map tree_region (mem_regions s)),
       Node [Node [Atom ''net_modules'', tree_list ([tree_parser] @ map tree_module (t_modules s) @ [tree_deparser])],
         Node [Atom ''net_edges'', Node (map tree_pair (net_edges s))],
         Node [Atom ''start_module'', tree_nat MOD_PARSER]]]"

section \<open>The printers print these trees\<close>

lemma show_coq_list: "coq_list (map sx_show xs) = sx_show (tree_list xs)"
  by (induction xs) simp_all

lemma show_small [simp]: "show_nat 0 = ''0''" "show_nat 1 = ''1''" "show_nat (Suc 0) = ''1''" "show_nat 32 = ''32''"
  by code_simp+

lemma show_trees:
  "show_operand a = sx_show (tree_operand a)"
  "show_match_value v = sx_show (tree_match_value v)"
  by (cases a; simp add: tree_nat_def tree_int_def) (cases v; simp add: tree_nat_def tree_int_def tree_width_def)

lemma show_tree_entry: "show_entry e = sx_show (tree_entry e)"
  by (cases e) (simp add: tree_nat_def tree_cmp_def show_trees)

lemma show_tree_op: "show_op i = sx_show (tree_op i)"
  by (cases i) (simp_all add: tree_nat_def tree_binop_def tree_width_def show_trees)

lemma show_tree_rule: "show_rule r = sx_show (tree_rule r)"
proof (cases r)
  case (SeqCtr es ops)
  have "map show_entry es = map sx_show (map tree_entry es)" "map show_op ops = map sx_show (map tree_op ops)"
    by (simp_all add: show_tree_entry show_tree_op)
  with SeqCtr show ?thesis by (simp only: show_rule.simps tree_rule.simps show_coq_list) simp
qed

lemma show_tree_module: "show_module m = sx_show (tree_module m)"
proof (cases m)
  case (TransformerModule k rs)
  have "map show_rule rs = map sx_show (map tree_rule rs)" by (simp add: show_tree_rule)
  with TransformerModule show ?thesis
    by (simp only: show_module.simps tree_module.simps show_coq_list) (simp add: tree_nat_def)
qed

lemma show_tree_net:
  "show_region q = sx_show (tree_region q)" "show_edge q = sx_show (tree_pair q)"
  "show_parser = sx_show tree_parser" "show_deparser = sx_show tree_deparser"
  by (simp_all add: show_region_def tree_region_def show_edge_def tree_pair_def show_parser_def tree_parser_def
      show_deparser_def tree_deparser_def tree_nat_def)

section \<open>The trees are well-formed\<close>

lemma digit_atom: "is_digit c \<Longrightarrow> is_atom c \<and> ascii c"
  unfolding is_digit_def by (simp, elim disjE) (simp_all add: is_atom_def is_space_def is_break_def ascii_def)

lemma digit_no_break: "is_digit c \<Longrightarrow> \<not> is_break c \<and> ascii c"
  using digit_atom by (auto simp: is_atom_def is_space_def)

lemma word_show_nat [simp]: "word (show_nat n)"
  using show_nat_digits [of n] digit_atom by (auto simp: word_def list_all_iff)

lemma word_show_int [simp]: "word (show_int v)"
proof -
  have "is_atom CHR ''-''" "ascii CHR ''-''" by (simp_all add: is_atom_def is_space_def is_break_def ascii_def)
  then show ?thesis using word_show_nat by (simp add: show_int_def word_def)
qed

lemma word_literals [simp]:
  "word (show_width w)" "word (show_binop f)" "word (show_cmp c)"
proof -
  show "word (show_width w)" by (induction w) code_simp+
  show "word (show_binop f)" by (induction f) code_simp+
  show "word (show_cmp c)" by (induction c) code_simp+
qed

lemma word_names [simp]:
  "word ''Coq_nil''" "word ''Coq_cons''" "word ''Coq_pair''" "word ''OpConst''" "word ''OpHeader''"
  "word ''MatchConst''" "word ''MatchHeader''" "word ''StatelessOp''" "word ''CastHeaderOp''"
  "word ''LoadOp''" "word ''StoreOp''" "word ''Seq''" "word ''SeqCtr''" "word ''TransformerModule''"
  "word ''mr_id''" "word ''mr_len''" "word ''ParserModule''" "word ''parser_start''" "word ''parser_states''"
  "word ''psd_label''" "word ''psd_action''" "word ''None''" "word ''psd_trans''" "word ''Unconditional''"
  "word ''Accept''" "word ''DeparserModule''" "word ''EmitOpConstructor''" "word ''GeneralCaracaraProgramDef''"
  "word ''net_modules''" "word ''net_edges''" "word ''start_module''"
  "word ''0''" "word ''1''" "word ''32''"
  by code_simp+

lemmas leaf_defs = tree_nat_def tree_int_def tree_width_def tree_binop_def tree_cmp_def

lemma ok_list: "list_all sx_ok xs \<Longrightarrow> sx_ok (tree_list xs)"
  by (induction xs) simp_all

lemma ok_trees [simp]:
  "sx_ok (tree_operand a)" "sx_ok (tree_match_value v)" "sx_ok (tree_entry e)" "sx_ok (tree_op i)"
proof -
  show a: "sx_ok (tree_operand a)" for a by (cases a) (simp_all add: leaf_defs)
  show v: "sx_ok (tree_match_value v)" for v by (cases v) (simp_all add: leaf_defs)
  show "sx_ok (tree_entry e)" by (cases e) (simp add: leaf_defs v)
  show "sx_ok (tree_op i)" by (cases i) (simp_all add: leaf_defs a)
qed

lemma ok_module [simp]: "sx_ok (tree_rule r)" "sx_ok (tree_module m)"
proof -
  show r: "sx_ok (tree_rule r)" for r by (cases r) (simp add: ok_list list_all_iff)
  show "sx_ok (tree_module m)" by (cases m) (simp add: leaf_defs ok_list list_all_iff r)
qed

lemma ok_net [simp]:
  "sx_ok (tree_pair e)" "sx_ok (tree_region e)" "sx_ok tree_parser" "sx_ok tree_deparser"
  by (simp_all add: tree_pair_def tree_region_def tree_parser_def tree_deparser_def tree_nat_def ok_list del: H_REG_def)

section \<open>The text of a program\<close>

text \<open>A text without a line break, and so a comment that ends where its line is meant to end.\<close>

fun one_line :: "string list \<Rightarrow> string \<Rightarrow> bool" where
  "one_line bs [] \<longleftrightarrow> True"
| "one_line bs (c # cs) \<longleftrightarrow> \<not> is_break c \<and> lead bs (c # cs) = 0 \<and> one_line bs cs"

lemma one_line_bytes: "one_line [] xs \<longleftrightarrow> list_all (\<lambda>c. \<not> is_break c) xs"
  by (induction xs) (simp_all add: lead_def)

lemma one_line_ascii: "wide bs \<Longrightarrow> list_all (\<lambda>c. \<not> is_break c \<and> ascii c) xs \<Longrightarrow> one_line bs xs"
  by (induction xs) (simp_all add: lead_ascii)

lemma one_line_append:
  assumes "wide bs" "one_line bs ys" "ascii (hd ys) \<or> ys = []"
  shows "one_line bs xs \<Longrightarrow> one_line bs (xs @ ys)"
proof (induction xs)
  case (Cons x xs)
  have "\<not> starts_with (x # xs @ ys) p" if "p \<in> set bs" for p
    using that assms(1) Cons.prems starts_with_append [OF _ assms(3), of p "x # xs"]
    by (auto simp: wide_def list_all_iff lead_zero [OF assms(1)])
  with Cons show ?case by (simp add: lead_zero [OF assms(1)])
qed (simp add: assms(2))

lemma skip_one_line: "wide bs \<Longrightarrow> one_line bs xs \<Longrightarrow> skip_line bs (xs @ CHR 0x0A # r) = CHR 0x0A # r"
proof (induction xs)
  case (Cons x xs)
  have "\<not> starts_with (x # xs @ CHR 0x0A # r) p" if "p \<in> set bs" for p
    using that Cons.prems starts_with_append [of p "CHR 0x0A # r" "x # xs"]
    by (auto simp: wide_def list_all_iff lead_zero ascii_def)
  with Cons show ?case by (simp add: lead_zero)
qed (simp add: is_break_def)

lemma lex_comment:
  assumes "wide bs" "one_line bs (m_name m)"
  shows "lex bs ss (map_comment i m @ r) = lex bs ss r"
proof -
  define front where "front = '' region '' @ show_nat (REGION_MAP i) @ '' = map ''"
  define rear where "rear = '' (key '' @ show_nat (m_key_size m)
     @ '', value '' @ show_nat (m_value_size m) @ '', '' @ show_nat (m_nslots m) @ '' of ''
     @ show_nat (m_max_entries m) @ '' slots)''"
  have n: "list_all (\<lambda>c. \<not> is_break c \<and> ascii c) (show_nat k)" for k
    using show_nat_digits [of k] digit_no_break by (auto simp: list_all_iff)
  have f: "list_all (\<lambda>c. \<not> is_break c \<and> ascii c) front" "list_all (\<lambda>c. \<not> is_break c \<and> ascii c) rear"
    unfolding front_def rear_def list_all_append by (intro conjI n; code_simp)+
  have "ascii (hd rear)" by (simp add: rear_def ascii_def)
  then have nb: "one_line bs (m_name m @ rear)"
    using assms one_line_ascii [OF assms(1) f(2)] by (intro one_line_append) simp_all
  have "one_line bs (front @ m_name m @ rear)"
    using f(1)
  proof (induction front)
    case (Cons c cs)
    then show ?case by (simp add: lead_ascii assms(1))
  qed (simp add: nb)
  moreover define body where "body = front @ m_name m @ rear"
  ultimately have "one_line bs body" by simp
  then have "skip_line bs (body @ CHR 0x0A # r) = CHR 0x0A # r" by (rule skip_one_line [OF assms(1)])
  moreover have "map_comment i m @ r = CHR '' '' # CHR '' '' # CHR '';'' # body @ CHR 0x0A # r"
    by (simp add: map_comment_def body_def front_def rear_def newline_def)
  ultimately show ?thesis by (simp add: lex.simps(2) [of bs ss "CHR '';''"])
qed

lemma lex_comments:
  assumes "wide bs" "\<forall>m \<in> set ms. one_line bs (m_name m)" "set is \<subseteq> {..<length ms}"
  shows "lex bs ss (concat (map (\<lambda>i. map_comment i (ms ! i)) is) @ r) = lex bs ss r"
  using assms(3) by (induction "is") (use assms(1,2) in \<open>simp_all add: lex_comment\<close>)

lemma lex_pieces:
  assumes "wide ss"
  shows "lex bs ss (''(GeneralCaracaraProgramDef 0'' @ newline @ r) = LP # Word ''GeneralCaracaraProgramDef'' # Word ''0'' # lex bs ss r"
  "lex bs ss (''  ((net_modules '' @ r) = LP # LP # Word ''net_modules'' # lex bs ss r"
  "lex bs ss (''   (net_edges '' @ r) = LP # Word ''net_edges'' # lex bs ss r"
  "lex bs ss (''   (start_module '' @ show_nat MOD_PARSER @ '')))'' @ newline)
     = LP # Word ''start_module'' # Word ''1'' # [RP, RP, RP]"
proof -
  show "lex bs ss (''(GeneralCaracaraProgramDef 0'' @ newline @ r) = LP # Word ''GeneralCaracaraProgramDef'' # Word ''0'' # lex bs ss r"
    using lex_word [OF assms, of "''GeneralCaracaraProgramDef''" "CHR '' ''" bs "''0'' @ newline @ r"]
      lex_word [OF assms, of "''0''" "CHR 0x0A" bs r]
    by (simp add: newline_def)
  show "lex bs ss (''  ((net_modules '' @ r) = LP # LP # Word ''net_modules'' # lex bs ss r"
    using lex_word [OF assms, of "''net_modules''" "CHR '' ''" bs r] by simp
  show "lex bs ss (''   (net_edges '' @ r) = LP # Word ''net_edges'' # lex bs ss r"
    using lex_word [OF assms, of "''net_edges''" "CHR '' ''" bs r] by simp
  show "lex bs ss (''   (start_module '' @ show_nat MOD_PARSER @ '')))'' @ newline)
     = LP # Word ''start_module'' # Word ''1'' # [RP, RP, RP]"
    using lex_word [OF assms, of "''start_module''" "CHR '' ''" bs "''1)))'' @ newline"]
      lex_word [OF assms, of "''1''" "CHR '')''" bs "''))'' @ newline"]
    by (simp add: newline_def)
qed

lemma lex_emit_program:
  assumes w: "wide bs" "wide ss" and "\<forall>m \<in> set (t_maps s). one_line bs (m_name m)"
  shows "lex bs ss (emit_program s) = sx_toks (tree_program s)"
proof -
  let ?R = "tree_list (map tree_region (mem_regions s))"
  let ?M = "tree_list ([tree_parser] @ map tree_module (t_modules s) @ [tree_deparser])"
  let ?E = "Node (map tree_pair (net_edges s))"
  have ok: "sx_ok ?R" "sx_ok ?M" "sx_ok ?E"
    by (intro ok_list; simp add: list_all_iff)+ (simp add: list_all_iff)
  have R: "coq_list (map show_region (mem_regions s)) = sx_show ?R"
  proof -
    have "map show_region (mem_regions s) = map sx_show (map tree_region (mem_regions s))"
      by (simp add: show_tree_net(1))
    then show ?thesis by (simp only: show_coq_list)
  qed
  have "[show_parser] @ map show_module (t_modules s) @ [show_deparser]
      = map sx_show ([tree_parser] @ map tree_module (t_modules s) @ [tree_deparser])"
    by (simp add: show_tree_net show_tree_module)
  then have M: "coq_list ([show_parser] @ map show_module (t_modules s) @ [show_deparser]) = sx_show ?M"
    by (simp only: show_coq_list)
  have E: "''('' @ join_spaces (map show_edge (net_edges s)) @ '')'' = sx_show ?E"
  proof -
    have "map show_edge (net_edges s) = map sx_show (map tree_pair (net_edges s))"
      by (simp add: show_tree_net(2))
    then show ?thesis by (simp only: sx_show.simps)
  qed
  have whole: "emit_program s = ''(GeneralCaracaraProgramDef 0'' @ newline
     @ concat (map (\<lambda>i. map_comment i (t_maps s ! i)) [0..<length (t_maps s)])
     @ CHR '' '' # CHR '' '' # sx_show ?R @ CHR 0x0A # ''  ((net_modules '' @ sx_show ?M @ CHR '')'' # CHR 0x0A
     # ''   (net_edges '' @ sx_show ?E @ CHR '')'' # CHR 0x0A
     # ''   (start_module '' @ show_nat MOD_PARSER @ '')))'' @ newline"
    unfolding R [symmetric] M [symmetric] E [symmetric] by (simp add: emit_program_def newline_def del: MOD_PARSER_def)
  have comments: "lex bs ss (concat (map (\<lambda>i. map_comment i (t_maps s ! i)) [0..<length (t_maps s)]) @ r) = lex bs ss r" for r
    by (rule lex_comments [OF assms(1,3)]) auto
  show ?thesis
    unfolding whole lex_pieces [OF w(2)] comments lex_sep lex_show [OF w(2) ok(1) not_atom(4)]
      lex_show [OF w(2) ok(2) not_atom(2)] lex_show [OF w(2) ok(3) not_atom(2)]
    by (simp add: tree_program_def tree_nat_def del: tree_list.simps)
qed

text \<open>
  C11: The text written for a program reads back, by the reader of the tests, as the tree of its regions,
  modules and edges; the comments that name the maps do not disturb it, as long as no name contains a
  line break, in ASCII or outside it.
\<close>

theorem emit_program_parses:
  assumes "\<forall>m \<in> set (t_maps s). one_line UNI_BREAKS (m_name m)"
  shows "sexp_parse (emit_program s) = Some (tree_program s)"
  by (rule sexp_parse_toks [OF lex_emit_program [OF wide_uni assms]])

theorem emit_program_parses_witness:
  "sexp_parse (emit_program (add_map ''m'' 1 4 8 4 (translator_init CTX_XDP_MD None)))
   = Some (tree_program (add_map ''m'' 1 4 8 4 (translator_init CTX_XDP_MD None)))"
  by (rule emit_program_parses)
    (simp add: add_map_def find_map_def translator_init_def is_break_def lead_ascii [OF wide_uni(1)] ascii_def)

section \<open>The text determines the program\<close>

lemma tree_list_inj: "tree_list xs = tree_list ys \<Longrightarrow> xs = ys"
proof (induction xs arbitrary: ys)
  case Nil
  then show ?case by (cases ys) simp_all
next
  case (Cons x xs)
  then show ?case by (cases ys) simp_all
qed

lemma tree_leaf_inj [simp]:
  "tree_nat n = tree_nat m \<longleftrightarrow> n = m" "tree_int v = tree_int w \<longleftrightarrow> v = w"
  "tree_width a = tree_width b \<longleftrightarrow> a = b" "tree_binop f = tree_binop g \<longleftrightarrow> f = g" "tree_cmp c = tree_cmp d \<longleftrightarrow> c = d"
proof -
  show "tree_nat n = tree_nat m \<longleftrightarrow> n = m" using read_show_nat by (metis sx.inject(1) tree_nat_def)
  show "tree_int v = tree_int w \<longleftrightarrow> v = w" using read_show_int by (metis sx.inject(1) tree_int_def)
  show "tree_width a = tree_width b \<longleftrightarrow> a = b" by (cases a; cases b; simp add: tree_width_def)
  show "tree_binop f = tree_binop g \<longleftrightarrow> f = g" by (cases f; cases g; simp add: tree_binop_def)
  show "tree_cmp c = tree_cmp d \<longleftrightarrow> c = d" by (cases c; cases d; simp add: tree_cmp_def)
qed

lemma tree_operand_inj: "tree_operand a = tree_operand b \<Longrightarrow> a = b"
  by (cases a; cases b) simp_all

lemma tree_entry_inj: "tree_entry a = tree_entry b \<Longrightarrow> a = b"
proof -
  have "tree_match_value v = tree_match_value w \<Longrightarrow> v = w" for v w by (cases v; cases w) simp_all
  then show "tree_entry a = tree_entry b \<Longrightarrow> a = b" by (cases a; cases b) simp
qed

lemma tree_op_inj: "tree_op a = tree_op b \<Longrightarrow> a = b"
  by (cases a; cases b) (simp_all add: tree_operand_inj)

lemma map_inj: "map f xs = map f ys \<Longrightarrow> (\<And>x y. f x = f y \<Longrightarrow> x = y) \<Longrightarrow> xs = ys"
  by (metis inj_map_eq_map inj_def)

lemma tree_rule_inj: "tree_rule a = tree_rule b \<Longrightarrow> a = b"
  by (cases a; cases b) (auto dest!: tree_list_inj map_inj intro: tree_entry_inj tree_op_inj)

lemma tree_module_inj: "tree_module a = tree_module b \<Longrightarrow> a = b"
  by (cases a; cases b) (auto dest!: tree_list_inj map_inj intro: tree_rule_inj)

text \<open>
  C10: Two programs with the same text have the same modules, edges and regions: the printers lose nothing.
\<close>

theorem emit_program_inj:
  assumes "emit_program s = emit_program s'"
    and "\<forall>m \<in> set (t_maps s) \<union> set (t_maps s'). list_all (\<lambda>c. \<not> is_break c) (m_name m)"
  shows "t_modules s = t_modules s' \<and> net_edges s = net_edges s' \<and> mem_regions s = mem_regions s'"
proof -
  have "wide []" by (simp add: wide_def)
  then have "sx_toks (tree_program s) = sx_toks (tree_program s')"
    using assms lex_emit_program [of "[]" "[]" s] lex_emit_program [of "[]" "[]" s'] by (simp add: one_line_bytes)
  then have t: "tree_program s = tree_program s'"
    using node_toks [of "tree_program s" "2 * length (sx_toks (tree_program s))" "[]"]
      node_toks [of "tree_program s'" "2 * length (sx_toks (tree_program s'))" "[]"] by simp
  have "tree_region a = tree_region b \<Longrightarrow> a = b" "tree_pair a = tree_pair b \<Longrightarrow> a = b" for a b
    by (simp_all add: tree_region_def tree_pair_def prod_eq_iff)
  with t show ?thesis
    by (auto simp: tree_program_def dest!: tree_list_inj map_inj intro: tree_module_inj)
qed

theorem emit_program_inj_witness:
  "emit_program (push_module [SeqCtr [] [set_pc_op 1 H_PC]] (translator_init CTX_XDP_MD None))
   \<noteq> emit_program (push_module [SeqCtr [] [set_pc_op 2 H_PC]] (translator_init CTX_XDP_MD None))"
  using emit_program_inj [of "push_module [SeqCtr [] [set_pc_op 1 H_PC]] (translator_init CTX_XDP_MD None)"
      "push_module [SeqCtr [] [set_pc_op 2 H_PC]] (translator_init CTX_XDP_MD None)"]
  by (auto simp: push_module_def translator_init_def set_pc_op_def)

end
