(* ===== verification/Spec2Isabelle.thy ===== *)
theory Spec2Isabelle
  imports Instruction_Laws Shape_Laws Provenance_Laws Table_Laws Region_Laws Array_Laws Driver_Laws Sexp
begin

text \<open>
  A development for \<open>src/pybpf\<close>, the translator from eBPF objects to the Caracara IR.  A run of
  the program is: read an ELF object (\<open>elf.py\<close>), find the maps it declares (legacy sections or
  BTF, \<open>btf.py\<close>), decode the instructions of a program section (\<open>bpf.py\<close>), translate them block by
  block (\<open>translate.py\<close>) into transformer modules built with \<open>ir.py\<close>, and print the network of
  modules as an s-expression.  \<open>disasm.py\<close> prints instructions.  What the translator cannot model
  it reports; the first report makes the run fail, so the theorems about the emitted code are about
  runs without a report, and further theorems say which inputs have such runs.

  \<^bold>\<open>Theories and sources.\<close>

  \<^item> \<open>Prelude\<close>: masks as \<open>take_bit\<close>, disjoint bits, the collections \<open>mask_simps\<close> and \<open>frame_simps\<close>.
  \<^item> \<open>Bpf_Insn\<close>: \<open>bpf.py\<close>, with \<open>Insn\<close> as the record \<open>insn\<close>, its opcodes, field accessors, \<open>decode\<close>.
  \<^item> \<open>Caracara_IR\<close>: \<open>ir.py\<close>; a term of \<open>ir_op\<close>, \<open>match_entry\<close>, \<open>ir_rule\<close> is what a builder formats, and
    \<open>show_op\<close>, \<open>show_rule\<close>, \<open>show_module\<close> are the formatted text, character by character.
  \<^item> \<open>Op_Eval\<close>: the evaluator \<open>tests/opeval.py\<close>, and the locales \<open>match_entries\<close> and \<open>first_match\<close> for
    the transformer semantics.  \<open>Bpf_VM\<close>: the interpreter \<open>tests/bpfvm.py\<close>.
  \<^item> \<open>Provenance\<close>: \<open>RegInfo\<close> and \<open>AbsState\<close>, the join of abstract values as an instance of the locale
    \<open>join_semilattice\<close>.  \<open>Layout\<close>: identifiers, \<open>MapInfo\<close> and its offsets, context layouts.
    \<open>Translator_State\<close>: the attributes of \<open>Translator\<close> as the record \<open>tstate\<close>, its reports as values.
  \<^item> \<open>Synth_Ops\<close>, \<open>Alu\<close>, \<open>Conditions\<close>, \<open>Memory\<close>, \<open>Map_Helpers\<close>, \<open>Program\<close>: the emitters of
    \<open>translate.py\<close> in the order of the code, from one ALU operation to \<open>translate_program\<close>.
  \<^item> \<open>Emission\<close>, \<open>Driver\<close>: \<open>emit_program\<close>, map discovery, sizing, relocations, and \<open>run\<close>.
  \<^item> \<open>Elf\<close>, \<open>Btf\<close>, \<open>Disasm\<close>: the three readers and printers; \<open>Elf\<close> also has \<open>build\<close> of
    \<open>tests/mkobj.py\<close>, which writes the objects the tests use, and \<open>Sexp\<close> the reader \<open>tests/sexp.py\<close>.
  \<^item> \<open>Frame\<close>, \<open>Lowering\<close>, \<open>Leaders\<close>, \<open>Blocks\<close>, \<open>Chain\<close>, \<open>Acceptance\<close>: the proof that the emitted
    chain simulates the interpreter, and the programs that are translated without a report.
  \<^item> \<open>Region_Machine\<close>, \<open>Map_Model\<close>, \<open>Array_Model\<close>, \<open>Map_Pool\<close>: the memory regions as the locale
    \<open>region_machine\<close>, a hash map's region as an abstract map, an array's as its entries, and the
    scratch headers a helper call takes.
  \<^item> \<open>Instruction_Laws\<close>, \<open>Shape_Laws\<close>, \<open>Provenance_Laws\<close>, \<open>Table_Laws\<close>, \<open>Region_Laws\<close>, \<open>Map_Laws\<close>,
    \<open>Array_Laws\<close>, \<open>Driver_Laws\<close>, \<open>Sexp\<close>, \<open>Btf\<close>, \<open>Text\<close> and this theory state the properties, each
    with an instance.

  \<^bold>\<open>State and operations.\<close>  Every method of \<open>Translator\<close> is a function that takes the \<open>tstate\<close> last
  and returns it updated; \<open>self.ops.binop(...)\<close> is \<open>emit (op_binop ...)\<close>; \<open>self.unsupported(...)\<close>
  appends a \<open>report\<close> and sets \<open>t_had_error\<close>.  An exception that the code lets escape (\<open>IndexError\<close>,
  \<open>struct.error\<close>, \<open>RecursionError\<close>) is \<open>None\<close>; the exceptions it catches are values.  Python integers
  are \<open>int\<close>, with every mask of the source written out; register contents and headers are integers
  that the evaluator masks to the width of an operation.

  \<^bold>\<open>What the theorems show.\<close>  The main theorem \<open>lowering_correct\<close> relates the chain of transformers to
  the interpreter on every program of arithmetic, constants and jumps that is translated without a
  report; \<open>lowering_accepted\<close> gives a decidable set of programs on which this happens and on which the
  interpreter returns; \<open>object_lowering\<close> takes the same through the ELF file and the printed text.
  On any machine that keeps the region laws of the \<open>README\<close>, loads and stores access the cells the
  instruction addresses, and the helpers on hash maps refine lookup and update of a finite map, when
  the operands they take from the stack were stored at the width they are read at (\<open>operand_ready\<close>);
  \<open>map_lookup_mistyped\<close> says what a lookup does otherwise.  The remaining groups are the equivalence of
  synthesized operators with the interpreter (shifts, byte swaps, signed comparisons), the shape of the
  emitted network, the soundness of the provenance analysis at joins, bounds of regions, tables and
  scratch headers, the site budget of hash maps, round trips of the encoders, decoders and printers,
  termination of the type walk, and what is refused.

  \<^bold>\<open>Fuel and bounds.\<close>  The interpreter takes the number of steps, as \<open>vm_run\<close> of the source does; by
  \<open>lowering_accepted\<close> one step more than the program has slots is enough, since accepted jumps go
  forward.  \<open>MAX_INSNS\<close> bounds the length of a program, so that program-counter values fit a header.
  \<open>btf_size_of\<close> may recurse for ever and is a partial function: \<open>None\<close> is a call that does not return,
  and \<open>btf_size_terminates\<close> and \<open>btf_size_diverges\<close> say when it does.

  \<^bold>\<open>Interfaces.\<close>  The evaluator of the IR is not in the repository.  \<open>first_match\<close> states the documented
  first-match semantics of a transformer on headers, without memory and without types, which is how
  \<open>tests/opeval.py\<close> runs the ops; \<open>lowering_correct\<close> and the laws of single instructions rest on it.
  \<open>region_machine\<close> adds loads and stores on regions of little-endian bytes, and the width that each header
  carries: an op or an entry does what its operator says on operands of its width, a cast of another
  width yields \<open>ErrorVal\<close> (type \<open>None\<close>), and a comparison with that is false.  By \<open>program_shape\<close> every op
  that writes a register leaves 64 bits in it, which is what the theorems on that machine assume of the
  registers.  Both locales are interpreted on executable machines (\<open>run_rules\<close>, \<open>rm_rules\<close>), on which the
  instances are computed.

  \<^bold>\<open>Not modelled.\<close>  The scripts \<open>bpf_to_ir\<close> and \<open>bpf_dump\<close> (arguments, files, exit status), the test
  drivers, and the wording of reports (a report carries its arguments instead).  The cells of a region
  are bytes; the type tags that the IR gives to symbolic cells are not.  The repository has no reference
  interpreter for memory and helper calls, so these are specified here instead (\<open>amap\<close>, \<open>le_read\<close>,
  \<open>le_write\<close>) and not part of \<open>lowering_correct\<close>; the update of values longer than eight bytes and the
  legacy packet loads are modelled, without a theorem about their effect.
\<close>

section \<open>A program for the witnesses\<close>

text \<open>\<open>r0 = 5; if r0 == 5 goto L; r0 = 1; L: exit\<close>.\<close>

definition sample_prog :: "insn list" where
  "sample_prog =
     [\<lparr>code = 0xb7, dst = 0, src = 0, off = 0, imm = 5\<rparr>,
      \<lparr>code = 0x15, dst = 0, src = 0, off = 1, imm = 5\<rparr>,
      \<lparr>code = 0xb7, dst = 0, src = 0, off = 0, imm = 1\<rparr>,
      \<lparr>code = 0x95, dst = 0, src = 0, off = 0, imm = 0\<rparr>]"

lemma sample_accepted: "accepted sample_prog"
  by code_simp

lemma sample_run: "vm_run sample_prog 4 = Inr 5"
  by code_simp

lemma sample_length: "length sample_prog = 4"
  by (simp add: sample_prog_def)

section \<open>The whole translation\<close>

text \<open>
  C1: Whenever the translation of a program reports nothing, the chain of transformers it emits
  leaves in the header of register 0 the value that the interpreter returns.
\<close>

theorem lowering_correct:
  assumes "first_match holds xf"
    and "translate_program insns s = Some s'" and "\<not> t_had_error s'"
    and "t_modules s = []" and "t_insn_map_idx s = Map.empty"
    and "imm64_pairs insns" and "length insns \<le> MAX_INSNS"
    and "\<forall>n < 11. \<not> mentions insns n \<longrightarrow> rd h (H_REG n) = 0"
    and "vm_run insns fuel = Inr v"
  shows "rd (run_chain xf (t_modules s') h) (H_REG 0) = v"
proof -
  have "\<not> computing insns \<and> (\<forall>fuel. \<exists>x. vm_run insns fuel = Inl x)
     \<or> (\<exists>m \<le> length insns + 1. vm_run insns m = Inr (rd (run_chain xf (t_modules s') h) (H_REG 0)))"
    using assms(8) by (intro first_match.program_sim [OF assms(1-7)]) blast
  with assms(9)
  obtain m where "vm_run insns m = Inr (rd (run_chain xf (t_modules s') h) (H_REG 0))"
    by (metis sum.distinct(1))
  with assms(9) show ?thesis using vm_run_det by metis
qed

theorem lowering_correct_witness:
  "\<exists>s'. translate_program sample_prog (translator_init CTX_XDP_MD None) = Some s'
        \<and> rd (run_chain run_rules (t_modules s') Map.empty) (H_REG 0) = 5"
proof -
  have s: "\<not> t_had_error (translator_init CTX_XDP_MD None)"
      "t_insn_map_idx (translator_init CTX_XDP_MD None) = Map.empty"
      "t_modules (translator_init CTX_XDP_MD None) = []"
    by (simp_all add: translator_init_def)
  obtain s' where "translate_program sample_prog (translator_init CTX_XDP_MD None) = Some s'" "\<not> t_had_error s'"
    using translate_program_accepted [OF sample_accepted s(1,2)] by blast
  with lowering_correct [OF ref.first_match_axioms this s(3,2) accepted_pairs [OF sample_accepted] _ _ sample_run]
  show ?thesis by (auto simp: sample_length)
qed

text \<open>
  C2: Every program of the accepted subset is translated without a report; the interpreter returns
  on it within one step more than it has slots, and the emitted chain computes the same value.
\<close>

theorem lowering_accepted:
  assumes "first_match holds xf" and "accepted insns" and "length insns \<le> MAX_INSNS"
    and "\<forall>n < 11. \<not> mentions insns n \<longrightarrow> rd h (H_REG n) = 0"
  shows "\<exists>s' m. translate_program insns (translator_init ctx k) = Some s' \<and> \<not> t_had_error s'
           \<and> m \<le> length insns + 1
           \<and> vm_run insns m = Inr (rd (run_chain xf (t_modules s') h) (H_REG 0))"
proof -
  have "\<not> t_had_error (translator_init ctx k)" "t_insn_map_idx (translator_init ctx k) = Map.empty"
    "t_modules (translator_init ctx k) = []"
    by (simp_all add: translator_init_def)
  from accepted_lowering [OF assms(1-3) this assms(4)] show ?thesis by blast
qed

theorem lowering_accepted_witness:
  "\<exists>s' m. translate_program sample_prog (translator_init CTX_SK_BUFF (Some 4)) = Some s' \<and> \<not> t_had_error s'
     \<and> m \<le> 5 \<and> vm_run sample_prog m = Inr (rd (run_chain run_rules (t_modules s') Map.empty) (H_REG 0))"
  using lowering_accepted [OF ref.first_match_axioms sample_accepted, of Map.empty CTX_SK_BUFF "Some 4"]
  by (simp add: sample_length)

end
